(* ===== verification/Swarog_Prelude.thy ===== *)
theory Swarog_Prelude
  imports Main "HOL-Library.Product_Lexorder" "HOL-Library.List_Lexorder" "HOL-Library.Char_ord"
begin

text \<open>
  Shared vocabulary of the development: SQL tables as lists of rows with the three
  statements the sources use on them, the texts of integers, Rust's byte predicates on
  ASCII, and the generic lemmas the components rest on.

  A table is a list of row records. \<open>UPDATE .. WHERE\<close> is \<open>sql_update\<close>, \<open>DELETE .. WHERE\<close>
  is \<open>sql_delete\<close>, a \<open>SELECT\<close> by a unique key is \<open>sql_find\<close>, and
  \<open>ORDER BY key LIMIT 1\<close> is \<open>sql_first\<close>.
\<close>

named_theorems sql_simps \<open>equations of the SQL statements on tables\<close>
named_theorems inv_intros \<open>preservation of a component invariant by one operation\<close>

type_synonym ('e, 'a) result = "'e + 'a"
type_synonym instant = int \<comment> \<open>a \<open>timestamptz\<close>, in microseconds\<close>

abbreviation Err :: "'e \<Rightarrow> ('e, 'a) result" where "Err \<equiv> Inl"
abbreviation Ok :: "'a \<Rightarrow> ('e, 'a) result" where "Ok \<equiv> Inr"

section \<open>Tables\<close>

definition sql_update :: "('r \<Rightarrow> bool) \<Rightarrow> ('r \<Rightarrow> 'r) \<Rightarrow> 'r list \<Rightarrow> 'r list" where
  "sql_update p f rows = map (\<lambda>r. if p r then f r else r) rows"

definition sql_delete :: "('r \<Rightarrow> bool) \<Rightarrow> 'r list \<Rightarrow> 'r list" where
  "sql_delete p rows = filter (\<lambda>r. \<not> p r) rows"

definition sql_find :: "('r \<Rightarrow> bool) \<Rightarrow> 'r list \<Rightarrow> 'r option" where
  "sql_find p rows = find p rows"

definition sql_first :: "('r \<Rightarrow> 'k::linorder) \<Rightarrow> ('r \<Rightarrow> bool) \<Rightarrow> 'r list \<Rightarrow> 'r option" where
  "sql_first key p rows = (case sort_key key (filter p rows) of [] \<Rightarrow> None | r # _ \<Rightarrow> Some r)"

lemma sql_update_simps [simp, sql_simps]:
  "sql_update p f [] = []"
  "sql_update p f (r # rs) = (if p r then f r else r) # sql_update p f rs"
  by (simp_all add: sql_update_def)

lemma sql_delete_simps [simp, sql_simps]:
  "sql_delete p [] = []"
  "sql_delete p (r # rs) = (if p r then sql_delete p rs else r # sql_delete p rs)"
  by (simp_all add: sql_delete_def)

lemma sql_find_simps [simp, sql_simps]:
  "sql_find p [] = None"
  "sql_find p (r # rs) = (if p r then Some r else sql_find p rs)"
  by (simp_all add: sql_find_def)

lemma set_sql_update: "set (sql_update p f rows) = (\<lambda>r. if p r then f r else r) ` set rows"
  by (simp add: sql_update_def)

lemma set_sql_delete [simp]: "set (sql_delete p rows) = {r \<in> set rows. \<not> p r}"
  by (auto simp: sql_delete_def)

lemma length_sql_update [simp]: "length (sql_update p f rows) = length rows"
  by (simp add: sql_update_def)

lemma sql_delete_append [simp]: "sql_delete p (xs @ ys) = sql_delete p xs @ sql_delete p ys"
  by (simp add: sql_delete_def)

lemma sql_update_append [simp]: "sql_update p f (xs @ ys) = sql_update p f xs @ sql_update p f ys"
  by (simp add: sql_update_def)

lemma sql_update_none: "(\<And>r. r \<in> set rows \<Longrightarrow> \<not> p r) \<Longrightarrow> sql_update p f rows = rows"
  by (simp add: sql_update_def map_idI)

lemma map_sql_update: "(\<And>r. p r \<Longrightarrow> g (f r) = g r) \<Longrightarrow> map g (sql_update p f rows) = map g rows"
  by (simp add: sql_update_def)

lemma map_sql_update_sub: "(\<And>r. r \<in> set rows \<Longrightarrow> p r \<Longrightarrow> g (f r) = g r) \<Longrightarrow>
    map g (sql_update p f rows) = map g rows"
  by (simp add: sql_update_def)

lemma sql_find_Some: "sql_find p rows = Some r \<Longrightarrow> r \<in> set rows \<and> p r"
  by (induction rows) (auto split: if_splits)

lemma sql_find_None: "sql_find p rows = None \<longleftrightarrow> (\<forall>r \<in> set rows. \<not> p r)"
  by (induction rows) auto

lemma sql_find_append:
  "sql_find p (xs @ ys) = (case sql_find p xs of None \<Rightarrow> sql_find p ys | Some r \<Rightarrow> Some r)"
  by (induction xs) auto

lemma sql_find_update:
  assumes "\<And>r. q r \<Longrightarrow> p (f r) = p r"
  shows "sql_find p (sql_update q f rows) = map_option (\<lambda>r. if q r then f r else r) (sql_find p rows)"
  using assms by (induction rows) auto

lemma sql_find_stronger:
  "sql_find q rows = Some r \<Longrightarrow> p r \<Longrightarrow> (\<And>r. p r \<Longrightarrow> q r) \<Longrightarrow> sql_find p rows = Some r"
  by (induction rows) (auto split: if_splits)

lemma filter_sql_update:
  "(\<And>r. p r \<Longrightarrow> \<not> q r \<and> \<not> q (f r)) \<Longrightarrow> filter q (sql_update p f rows) = filter q rows"
  by (induction rows) auto

lemma length_filter_remove:
  assumes "distinct xs" and "v \<in> set xs" and "\<And>x. x \<in> set xs \<Longrightarrow> P x \<longleftrightarrow> Q x \<or> x = v" and "\<not> Q v"
  shows "length (filter P xs) = Suc (length (filter Q xs))"
proof -
  have "{x. P x} \<inter> set xs = insert v ({x. Q x} \<inter> set xs)" using assms(2,3) by auto
  then show ?thesis
    using assms(1,4) by (simp add: distinct_length_filter)
qed

lemma sql_update_fresh:
  "sql_find p rows = None \<Longrightarrow> sql_update p f rows = rows"
  by (simp add: sql_find_None sql_update_none)

lemma sql_find_mem: "sql_find (\<lambda>r. f r = v) rows = None \<longleftrightarrow> v \<notin> f ` set rows"
  by (auto simp: sql_find_None)

lemma sql_find_key:
  assumes "distinct (map key rows)" and "r \<in> set rows" and "\<And>r'. p r' \<longleftrightarrow> key r' = key r"
  shows "sql_find p rows = Some r"
  using assms by (induction rows) (auto simp: image_iff)

lemma sql_first_Some:
  assumes "sql_first key p rows = Some r"
  shows "r \<in> set rows" and "p r" and "\<And>r'. r' \<in> set rows \<Longrightarrow> p r' \<Longrightarrow> key r \<le> key r'"
proof -
  from assms obtain rs where rs: "sort_key key (filter p rows) = r # rs"
    by (auto simp: sql_first_def split: list.splits)
  then have set: "set (r # rs) = {r \<in> set rows. p r}"
    by (metis set_filter set_sort)
  then show "r \<in> set rows" and "p r" by auto
  have "sorted (map key (r # rs))"
    by (metis rs sorted_sort_key)
  then show "key r \<le> key r'" if "r' \<in> set rows" "p r'" for r'
    using that set by auto
qed

lemma sql_first_None: "sql_first key p rows = None \<longleftrightarrow> (\<forall>r \<in> set rows. \<not> p r)"
proof -
  have "sql_first key p rows = None \<longleftrightarrow> sort_key key (filter p rows) = []"
    by (auto simp: sql_first_def split: list.splits)
  also have "\<dots> \<longleftrightarrow> filter p rows = []"
    by (metis length_0_conv length_sort)
  finally show ?thesis by (simp add: filter_empty_conv)
qed

text \<open>What a failing statement reports: its SQLSTATE and the constraint it names.\<close>

datatype sql_error = Sqlstate string "string option"

abbreviation conn_lost :: sql_error where "conn_lost \<equiv> Sqlstate ''08006'' None"
abbreviation bad_uuid :: sql_error where "bad_uuid \<equiv> Sqlstate ''22P02'' None"

section \<open>Integers of the wire and of the columns\<close>

definition i32_max :: int where "i32_max = 2147483647"
definition i64_max :: int where "i64_max = 9223372036854775807"
definition i64_min :: int where "i64_min = -9223372036854775808"

text \<open>Rust's \<open>i32::try_from(u32)\<close>: \<open>None\<close> is the conversion error.\<close>

definition i32_try_from :: "nat \<Rightarrow> int option" where
  "i32_try_from n = (if int n \<le> i32_max then Some (int n) else None)"

text \<open>The decimal text of an integer, as \<open>format!\<close> writes it.\<close>

fun nat_text :: "nat \<Rightarrow> string" where
  "nat_text n = (if n < 10 then [char_of (48 + n)] else nat_text (n div 10) @ [char_of (48 + n mod 10)])"

declare nat_text.simps [simp del]

definition int_text :: "int \<Rightarrow> string" where
  "int_text i = (if i < 0 then ''-'' @ nat_text (nat (- i)) else nat_text (nat i))"

section \<open>ASCII\<close>

definition is_ascii_hexdigit :: "char \<Rightarrow> bool" where
  "is_ascii_hexdigit c = (let n = of_char c :: nat
     in (48 \<le> n \<and> n \<le> 57) \<or> (65 \<le> n \<and> n \<le> 70) \<or> (97 \<le> n \<and> n \<le> 102))"

definition to_ascii_lowercase :: "char \<Rightarrow> char" where
  "to_ascii_lowercase c = (let n = of_char c :: nat
     in if 65 \<le> n \<and> n \<le> 90 then char_of (n + 32) else c)"

text \<open>
  \<open>str::trim\<close> strips the Unicode white space of both ends. A string is its UTF-8 bytes, so
  a white-space character is one of the byte sequences below (U+0009 to U+000D, U+0020,
  U+0085, U+00A0, U+1680, U+2000 to U+200A, U+2028, U+2029, U+202F, U+205F, U+3000).
\<close>

definition white_space :: "string list" where
  "white_space =
     map (\<lambda>n. [char_of (n::nat)]) [9, 10, 11, 12, 13, 32] @
     map (\<lambda>n. [CHR 0xC2, char_of (n::nat)]) [0x85, 0xA0] @
     [[CHR 0xE1, CHR 0x9A, CHR 0x80]] @
     map (\<lambda>n. [CHR 0xE2, CHR 0x80, char_of (n::nat)])
       [0x80, 0x81, 0x82, 0x83, 0x84, 0x85, 0x86, 0x87, 0x88, 0x89, 0x8A, 0xA8, 0xA9, 0xAF] @
     [[CHR 0xE2, CHR 0x81, CHR 0x9F], [CHR 0xE3, CHR 0x80, CHR 0x80]]"

fun strip_any :: "string list \<Rightarrow> string \<Rightarrow> string option" where
  "strip_any [] s = None"
| "strip_any (t # ts) s =
     (if t \<noteq> [] \<and> take (length t) s = t then Some (drop (length t) s) else strip_any ts s)"

lemma strip_any_shorter: "strip_any ts s = Some s' \<Longrightarrow> length s' < length s"
proof (induction ts)
  case Nil
  then show ?case by simp
next
  case (Cons t ts)
  show ?case
  proof (cases "t \<noteq> [] \<and> take (length t) s = t")
    case True
    then have len: "length t \<le> length s" "0 < length t"
      by (auto dest: arg_cong [where f = length])
    from True Cons.prems have "length s' = length s - length t" by auto
    with len show ?thesis by linarith
  next
    case False
    with Cons show ?thesis by auto
  qed
qed

function trim_with :: "string list \<Rightarrow> string \<Rightarrow> string" where
  "trim_with ts s = (case strip_any ts s of None \<Rightarrow> s | Some s' \<Rightarrow> trim_with ts s')"
  by pat_completeness auto
termination
  by (relation "measure (\<lambda>(ts, s). length s)") (auto dest: strip_any_shorter)

declare trim_with.simps [simp del]

definition trim :: "string \<Rightarrow> string" where
  "trim s = rev (trim_with (map rev white_space) (rev (trim_with white_space s)))"

lemma strip_any_Nil [simp]: "strip_any ts [] = None"
  by (induction ts) auto

lemma trim_Nil [simp]: "trim [] = []"
  by (simp add: trim_def trim_with.simps)

text \<open>\<open>str::strip_prefix\<close>, \<open>str::strip_suffix\<close>, \<open>str::split\<close> on one character and \<open>eq_ignore_ascii_case\<close>.\<close>

definition strip_prefix :: "string \<Rightarrow> string \<Rightarrow> string option" where
  "strip_prefix pre s = (if take (length pre) s = pre then Some (drop (length pre) s) else None)"

definition strip_suffix :: "string \<Rightarrow> string \<Rightarrow> string option" where
  "strip_suffix suf s =
     (if length suf \<le> length s \<and> drop (length s - length suf) s = suf
      then Some (take (length s - length suf) s) else None)"

fun split_on :: "char \<Rightarrow> string \<Rightarrow> string list" where
  "split_on c [] = [[]]"
| "split_on c (x # xs) = (if x = c then [] # split_on c xs else (x # hd (split_on c xs)) # tl (split_on c xs))"

definition eq_ignore_ascii_case :: "string \<Rightarrow> string \<Rightarrow> bool" where
  "eq_ignore_ascii_case a b = (map to_ascii_lowercase a = map to_ascii_lowercase b)"

lemma split_on_ne [simp]: "split_on c s \<noteq> []"
  by (cases s) auto

lemma split_on_parts: "p \<in> set (split_on c s) \<Longrightarrow> c \<notin> set p"
proof (induction s arbitrary: p)
  case (Cons x xs)
  have "hd (split_on c xs) \<in> set (split_on c xs)" by simp
  with Cons show ?case
    by (auto split: if_splits dest: list.set_sel(2) [OF split_on_ne, THEN Cons.IH])
qed simp

lemma split_on_whole [simp]: "c \<notin> set s \<Longrightarrow> split_on c s = [s]"
  by (induction s) auto

lemma split_on_append [simp]: "c \<notin> set s \<Longrightarrow> split_on c (s @ c # t) = s # split_on c t"
  by (induction s) auto

lemma eq_ignore_ascii_case_refl [simp]: "eq_ignore_ascii_case a a"
  by (simp add: eq_ignore_ascii_case_def)

text \<open>Every byte sequence a string of the wire may hold: \<open>std::str::from_utf8\<close> succeeds.\<close>

definition utf8_cont :: "nat \<Rightarrow> bool" where
  "utf8_cont n = (0x80 \<le> n \<and> n \<le> 0xBF)"

fun utf8_bytes :: "nat list \<Rightarrow> bool" where
  "utf8_bytes [] = True"
| "utf8_bytes (a # rest) =
     (if a \<le> 0x7F then utf8_bytes rest
      else if 0xC2 \<le> a \<and> a \<le> 0xDF then
        (case rest of b # r \<Rightarrow> utf8_cont b \<and> utf8_bytes r | _ \<Rightarrow> False)
      else if 0xE0 \<le> a \<and> a \<le> 0xEF then
        (case rest of b # c # r \<Rightarrow>
           (if a = 0xE0 then 0xA0 \<le> b \<and> b \<le> 0xBF
            else if a = 0xED then 0x80 \<le> b \<and> b \<le> 0x9F else utf8_cont b)
           \<and> utf8_cont c \<and> utf8_bytes r
         | _ \<Rightarrow> False)
      else if 0xF0 \<le> a \<and> a \<le> 0xF4 then
        (case rest of b # c # d # r \<Rightarrow>
           (if a = 0xF0 then 0x90 \<le> b \<and> b \<le> 0xBF
            else if a = 0xF4 then 0x80 \<le> b \<and> b \<le> 0x8F else utf8_cont b)
           \<and> utf8_cont c \<and> utf8_cont d \<and> utf8_bytes r
         | _ \<Rightarrow> False)
      else False)"

definition from_utf8 :: "string \<Rightarrow> bool" where
  "from_utf8 s = utf8_bytes (map of_char s)"

section \<open>Texts are injective\<close>

lemma split_first:
  assumes "c \<notin> set a" and "c \<notin> set a'"
  shows "a @ c # b = a' @ c # b' \<longleftrightarrow> a = a' \<and> b = b'"
  using assms
proof (induction a arbitrary: a')
  case Nil
  then show ?case by (cases a') auto
next
  case (Cons x a)
  then show ?case by (cases a') auto
qed

lemma split_last:
  assumes "c \<notin> set b" and "c \<notin> set b'"
  shows "a @ c # b = a' @ c # b' \<longleftrightarrow> a = a' \<and> b = b'"
proof -
  have "a @ c # b = a' @ c # b' \<longleftrightarrow> rev (a @ c # b) = rev (a' @ c # b')"
    by (simp only: rev_is_rev_conv)
  also have "\<dots> \<longleftrightarrow> rev b @ c # rev a = rev b' @ c # rev a'"
    by simp
  finally show ?thesis
    using assms split_first [of c "rev b" "rev b'" "rev a" "rev a'"] by auto
qed

definition digit_value :: "string \<Rightarrow> nat" where
  "digit_value s = foldl (\<lambda>a c. 10 * a + (of_char c - 48)) 0 s"

lemma of_digit_char: "n < 10 \<Longrightarrow> of_char (char_of (48 + n) :: char) = (48 + n :: nat)"
  by simp

lemma digit_value_nat_text: "digit_value (nat_text n) = n"
proof (induction n rule: nat_text.induct)
  case (1 n)
  then show ?case
    by (simp add: nat_text.simps [of n] digit_value_def of_digit_char)
qed

lemma nat_text_inj [simp]: "nat_text m = nat_text n \<longleftrightarrow> m = n"
  by (metis digit_value_nat_text)

lemma nat_text_digits: "c \<in> set (nat_text n) \<Longrightarrow> 48 \<le> (of_char c :: nat) \<and> (of_char c :: nat) \<le> 57"
proof (induction n rule: nat_text.induct)
  case (1 n)
  then show ?case
    by (cases "n < 10") (auto simp: nat_text.simps [of n] of_digit_char)
qed

lemma nat_text_no_bar [simp]: "CHR ''|'' \<notin> set (nat_text n)" "CHR ''/'' \<notin> set (nat_text n)"
    "CHR ''-'' \<notin> set (nat_text n)"
  using nat_text_digits [of _ n] by fastforce+

lemma int_text_inj [simp]: "int_text i = int_text j \<longleftrightarrow> i = j"
proof -
  have "nat_text m \<noteq> CHR ''-'' # s" for m s
    by (metis list.set_intros(1) nat_text_no_bar(3))
  then show ?thesis
    unfolding int_text_def by (auto dest: sym)
qed

lemma int_text_no_bar [simp]: "CHR ''|'' \<notin> set (int_text n)" "CHR ''/'' \<notin> set (int_text n)"
  by (auto simp: int_text_def)

section \<open>Invariants of step systems\<close>

text \<open>
  The contract a component with a step relation offers: its initial states satisfy the
  invariant and every step keeps it. What follows for whole runs is proved here once.
\<close>

locale invariant_system =
  fixes start :: "'s \<Rightarrow> bool" and step :: "'s \<Rightarrow> 's \<Rightarrow> bool" and inv :: "'s \<Rightarrow> bool"
  assumes start_inv: "start s \<Longrightarrow> inv s"
    and step_inv: "inv s \<Longrightarrow> step s s' \<Longrightarrow> inv s'"
begin

lemma run_inv: "step\<^sup>*\<^sup>* s s' \<Longrightarrow> inv s \<Longrightarrow> inv s'"
  by (induction rule: rtranclp_induct) (auto intro: step_inv)

lemma reachable_inv: "start s \<Longrightarrow> step\<^sup>*\<^sup>* s s' \<Longrightarrow> inv s'"
  by (blast intro: run_inv start_inv)

lemma reachable_prop: "start s \<Longrightarrow> step\<^sup>*\<^sup>* s s' \<Longrightarrow> (inv s' \<Longrightarrow> P s') \<Longrightarrow> P s'"
  by (blast intro: reachable_inv)

end

end
