(* ===== verification/Event_Store.thy ===== *)
theory Event_Store
  imports Swarog_Prelude
begin

text \<open>
  The storage half of the durable event plane (\<open>core/asyncevents\<close>): the XID-ordered shared
  log, the writer protocol \<open>asyncevents.append_event\<close>, the immutable history contracts, the
  generation bump and the boot guards (\<open>store.rs\<close>), the producer-side transport
  (\<open>transport.rs\<close>) and the reconciliation of subscription specs into rows
  (\<open>catalog.rs\<close>). Postgres supplies the transaction id, the clock, fresh uuids and the
  \<open>jsonb\<close> input function; they are arguments here.
\<close>

section \<open>Positions\<close>

text \<open>\<open>bus::EventPosition\<close>; SQL compares positions as rows, that is lexicographically.\<close>

datatype position = Position (pos_gen: int) (pos_xid: nat) (pos_tie: int)

instantiation position :: linorder
begin

definition less_eq_position :: "position \<Rightarrow> position \<Rightarrow> bool" where
  "less_eq_position p q \<longleftrightarrow> (pos_gen p, pos_xid p, pos_tie p) \<le> (pos_gen q, pos_xid q, pos_tie q)"

definition less_position :: "position \<Rightarrow> position \<Rightarrow> bool" where
  "less_position p q \<longleftrightarrow> (pos_gen p, pos_xid p, pos_tie p) < (pos_gen q, pos_xid q, pos_tie q)"

instance
  by standard (auto simp: less_eq_position_def less_position_def less_prod_def less_eq_prod_def
      intro: position.expand)

end

lemma position_less [simp]:
  "Position g x t < Position g' x' t' \<longleftrightarrow> g < g' \<or> (g = g' \<and> (x < x' \<or> (x = x' \<and> t < t')))"
  by (auto simp: less_position_def)

lemma position_le [simp]:
  "Position g x t \<le> Position g' x' t' \<longleftrightarrow> g < g' \<or> (g = g' \<and> (x < x' \<or> (x = x' \<and> t \<le> t')))"
  by (auto simp: less_eq_position_def)

section \<open>Tables\<close>

record event_row =
  ev_gen :: int
  ev_xid :: nat
  ev_tie :: int
  ev_id :: string
  ev_topic :: string
  ev_version :: int
  ev_payload :: string
  ev_created :: instant

definition ev_pos :: "event_row \<Rightarrow> position" where
  "ev_pos e = Position (ev_gen e) (ev_xid e) (ev_tie e)"

datatype sub_state = Active | Paused | Retired

record subscription_row =
  sub_id :: string
  sub_topic :: string
  sub_version :: int
  sub_status :: sub_state
  sub_cursor :: position
  sub_next_attempt :: "instant option"
  sub_failures :: int
  sub_error :: "string option"
  sub_hash :: string
  sub_start_kind :: string
  sub_updated :: instant

record history_row =
  hc_topic :: string
  hc_version :: int
  hc_policy :: string
  hc_days :: int

record meta_row =
  meta_generation :: int
  meta_identity :: string

record plane_db =
  plane_meta :: "meta_row option"
  events :: "event_row list"
  next_tie :: int
  notifications :: "string list"
  subs :: "subscription_row list"
  histories :: "history_row list"

text \<open>What Postgres hands a transaction: \<open>pg_current_xact_id()\<close> and \<open>now()\<close>.\<close>

record pg_tx =
  xact_id :: nat
  xact_now :: instant

section \<open>Contracts and errors\<close>

datatype history_policy = MinRetention nat | KeepForever

record event_contract =
  ct_topic :: string
  ct_version :: nat
  ct_history :: history_policy

datatype bus_error =
  NoTransport
| Codec
| Transport_sql sql_error
| Transport_other string
| TxEngineMismatch

datatype tx_engine = PgConnection | OtherEngine

section \<open>The writer protocol\<close>

definition append_event ::
    "pg_tx \<Rightarrow> string \<Rightarrow> string \<Rightarrow> int \<Rightarrow> string \<Rightarrow> plane_db \<Rightarrow> (sql_error, string \<times> plane_db) result" where
  "append_event tx event_id topic version payload db =
     (case plane_meta db of
        None \<Rightarrow> Err (Sqlstate ''P0002'' None)
      | Some meta \<Rightarrow>
          if version \<le> 0 then Err (Sqlstate ''23514'' (Some ''events_contract_version_check''))
          else if sql_find (\<lambda>e. ev_id e = event_id) (events db) \<noteq> None
            then Err (Sqlstate ''23505'' (Some ''events_event_id_key''))
          else Ok (event_id,
            db\<lparr>events := events db @
                 [\<lparr>ev_gen = meta_generation meta, ev_xid = xact_id tx, ev_tie = next_tie db,
                   ev_id = event_id, ev_topic = topic, ev_version = version,
                   ev_payload = payload, ev_created = xact_now tx\<rparr>],
               next_tie := next_tie db + 1,
               notifications := notifications db @ [topic]\<rparr>))"

definition append ::
    "(string \<Rightarrow> string option) \<Rightarrow> pg_tx \<Rightarrow> string \<Rightarrow> event_contract \<Rightarrow> string \<Rightarrow> plane_db
       \<Rightarrow> (bus_error, string \<times> plane_db) result" where
  "append jsonb_in tx event_id contract payload db =
     (if \<not> from_utf8 payload then Err (Transport_other ''invalid utf-8'')
      else case i32_try_from (ct_version contract) of
        None \<Rightarrow> Err (Transport_other ''out of range integral type conversion attempted'')
      | Some version \<Rightarrow>
          (case jsonb_in payload of
             None \<Rightarrow> Err (Transport_sql (Sqlstate ''22P02'' None))
           | Some json \<Rightarrow>
               (case append_event tx event_id (ct_topic contract) version json db of
                  Inl e \<Rightarrow> Err (Transport_sql e)
                | Inr r \<Rightarrow> Ok r)))"

definition policy_columns :: "history_policy \<Rightarrow> string \<times> int" where
  "policy_columns h = (case h of
     MinRetention days \<Rightarrow>
       (''min_retention'', case i32_try_from days of Some d \<Rightarrow> d | None \<Rightarrow> i32_max)
   | KeepForever \<Rightarrow> (''keep_forever'', 7))"

definition history_drifted :: "history_row \<Rightarrow> string \<Rightarrow> int \<Rightarrow> bool" where
  "history_drifted row policy days \<longleftrightarrow>
     hc_policy row \<noteq> policy \<or> (policy = ''min_retention'' \<and> hc_days row \<noteq> days)"

definition ensure_history_contract ::
    "string \<Rightarrow> nat \<Rightarrow> history_policy \<Rightarrow> plane_db \<Rightarrow> (bus_error, plane_db) result" where
  "ensure_history_contract topic version history db =
     (let (policy, days) = policy_columns history in
      case i32_try_from version of
        None \<Rightarrow> Err (Transport_other ''out of range integral type conversion attempted'')
      | Some v \<Rightarrow>
          let key = (\<lambda>h. hc_topic h = topic \<and> hc_version h = v);
              db' = (if sql_find key (histories db) = None
                     then db\<lparr>histories := histories db @
                            [\<lparr>hc_topic = topic, hc_version = v, hc_policy = policy, hc_days = days\<rparr>]\<rparr>
                     else db)
          in case sql_find key (histories db') of
               None \<Rightarrow> Err (Transport_other ''row not found'')
             | Some row \<Rightarrow>
                 if history_drifted row policy days
                 then Err (Transport_other ''history policy is immutable'')
                 else Ok db')"

text \<open>\<open>LogTransport::enqueue_tx\<close>: seed the history contract, then append, on the producer's tx.\<close>

definition enqueue_tx ::
    "(string \<Rightarrow> string option) \<Rightarrow> pg_tx \<Rightarrow> string \<Rightarrow> tx_engine \<Rightarrow> event_contract \<Rightarrow> string \<Rightarrow> plane_db
       \<Rightarrow> (bus_error, plane_db) result" where
  "enqueue_tx jsonb_in tx event_id engine contract payload db =
     (case engine of
        OtherEngine \<Rightarrow> Err TxEngineMismatch
      | PgConnection \<Rightarrow>
          (case ensure_history_contract (ct_topic contract) (ct_version contract)
                  (ct_history contract) db of
             Inl e \<Rightarrow> Err e
           | Inr db' \<Rightarrow>
               (case append jsonb_in tx event_id contract payload db' of
                  Inl e \<Rightarrow> Err e
                | Inr (_, db'') \<Rightarrow> Ok db'')))"

text \<open>\<open>Bus::emit_tx\<close>; \<open>payload\<close> is the encoded event, \<open>None\<close> when the encoder fails.\<close>

definition emit_tx ::
    "bool \<Rightarrow> (string \<Rightarrow> string option) \<Rightarrow> pg_tx \<Rightarrow> string \<Rightarrow> tx_engine \<Rightarrow> event_contract \<Rightarrow> string option \<Rightarrow> plane_db
       \<Rightarrow> (bus_error, plane_db) result" where
  "emit_tx transport jsonb_in tx event_id engine contract payload db =
     (if \<not> transport then Err NoTransport
      else case payload of
        None \<Rightarrow> Err Codec
      | Some p \<Rightarrow> enqueue_tx jsonb_in tx event_id engine contract p db)"

text \<open>An emit appends one row and touches no other event.\<close>

lemma ensure_history_events: "ensure_history_contract t v h db = Ok db' \<Longrightarrow> events db' = events db"
  by (auto simp: ensure_history_contract_def Let_def split: prod.splits option.splits if_splits)

lemma emit_tx_appends:
  assumes "emit_tx tr jsonb_in tx eid engine ct payload db = Ok db'"
  shows "\<exists>row p. payload = Some p \<and> jsonb_in p = Some (ev_payload row) \<and> events db' = events db @ [row]
    \<and> ev_topic row = ct_topic ct \<and> ev_version row = int (ct_version ct) \<and> ev_id row = eid \<and> ev_xid row = xact_id tx"
proof -
  obtain p db1 where p: "payload = Some p" "ensure_history_contract (ct_topic ct) (ct_version ct) (ct_history ct) db = Ok db1"
    and a: "\<exists>i. append jsonb_in tx eid ct p db1 = Ok (i, db')"
    using assms by (auto simp: emit_tx_def enqueue_tx_def split: if_splits option.splits tx_engine.splits sum.splits)
  from a show ?thesis
    using p ensure_history_events [OF p(2)]
    by (auto simp: append_def append_event_def i32_try_from_def split: if_splits option.splits sum.splits)
qed

section \<open>Generation bump and boot guards\<close>

datatype plane_error =
  Plane_sql sql_error
| Plane_bus bus_error
| Version_overflow
| Spec_mismatch string string
| Meta_unseeded
| Identity_mismatch
| Prepared_transactions_enabled
| Prepared_transactions_pending

text \<open>\<open>identity\<close> is the answer of \<open>pg_control_system()\<close>, an error when it may not be read.\<close>

definition bump_generation ::
    "(plane_error, string) result \<Rightarrow> plane_db \<Rightarrow> (plane_error, int \<times> plane_db) result" where
  "bump_generation control_identity db =
     (case control_identity of
        Inl e \<Rightarrow> Err e
      | Inr identity \<Rightarrow>
          (case plane_meta db of
             None \<Rightarrow> Err Meta_unseeded
           | Some meta \<Rightarrow>
               if meta_generation meta + 1 > i64_max then Err (Plane_sql (Sqlstate ''22003'' None))
               else let g = meta_generation meta + 1
                    in Ok (g, db\<lparr>plane_meta :=
                         Some \<lparr>meta_generation = g, meta_identity = identity\<rparr>\<rparr>)))"

definition startup_guards_on ::
    "(plane_error, string) result \<Rightarrow> string \<Rightarrow> nat \<Rightarrow> plane_db \<Rightarrow> (plane_error, unit) result" where
  "startup_guards_on control_identity max_prepared prepared_xacts db =
     (case control_identity of
        Inl e \<Rightarrow> Err e
      | Inr current \<Rightarrow>
          (case plane_meta db of
             None \<Rightarrow> Err Meta_unseeded
           | Some meta \<Rightarrow>
               if current \<noteq> meta_identity meta then Err Identity_mismatch
               else if trim max_prepared \<noteq> ''0'' then Err Prepared_transactions_enabled
               else if prepared_xacts \<noteq> 0 then Err Prepared_transactions_pending
               else Ok ()))"

section \<open>Subscription specs and their reconciliation\<close>

datatype start_position = Genesis | AfterRegistration | Explicit position

record sub_entry =
  en_id :: string
  en_start :: start_position
  en_topic :: string
  en_version :: nat
  en_history :: "history_policy option"

definition start_desc :: "start_position \<Rightarrow> string" where
  "start_desc s = (case s of
     Genesis \<Rightarrow> ''genesis''
   | AfterRegistration \<Rightarrow> ''after_registration''
   | Explicit p \<Rightarrow> ''explicit:'' @ int_text (pos_gen p) @ ''/'' @ nat_text (pos_xid p) @ ''/''
                   @ int_text (pos_tie p))"

definition spec_hash :: "sub_entry \<Rightarrow> string" where
  "spec_hash e = en_topic e @ ''|v'' @ nat_text (en_version e) @ ''|'' @ start_desc (en_start e)"

definition start_kind :: "sub_entry \<Rightarrow> string" where
  "start_kind e = (case en_start e of
     Genesis \<Rightarrow> ''genesis'' | AfterRegistration \<Rightarrow> ''after_registration'' | Explicit _ \<Rightarrow> ''explicit'')"

text \<open>The cursor a new row gets; \<open>None\<close> when \<open>plane_meta\<close> has no row (a NOT NULL violation).\<close>

definition initial_cursor :: "pg_tx \<Rightarrow> start_position \<Rightarrow> plane_db \<Rightarrow> position option" where
  "initial_cursor tx s db = (case s of
     Genesis \<Rightarrow> Some (Position 0 0 0)
   | AfterRegistration \<Rightarrow>
       map_option (\<lambda>m. Position (meta_generation m) (xact_id tx) i64_max) (plane_meta db)
   | Explicit p \<Rightarrow> Some p)"

definition insert_subscription ::
    "pg_tx \<Rightarrow> sub_entry \<Rightarrow> int \<Rightarrow> plane_db \<Rightarrow> (plane_error, plane_db) result" where
  "insert_subscription tx entry version db =
     (case initial_cursor tx (en_start entry) db of
        None \<Rightarrow> Err (Plane_sql (Sqlstate ''23502'' None))
      | Some cur \<Rightarrow>
          if sql_find (\<lambda>s. sub_id s = en_id entry) (subs db) = None
          then Ok (db\<lparr>subs := subs db @
                 [\<lparr>sub_id = en_id entry, sub_topic = en_topic entry, sub_version = version,
                   sub_status = Active, sub_cursor = cur, sub_next_attempt = None,
                   sub_failures = 0, sub_error = None, sub_hash = spec_hash entry,
                   sub_start_kind = start_kind entry, sub_updated = xact_now tx\<rparr>]\<rparr>)
          else Ok db)"

text \<open>
  \<open>reconcile_one\<close> answers its verdict and the database it leaves: the history row is seeded on
  its own connection and stays when the spec check of the second transaction fails.
\<close>

definition reconcile_one ::
    "pg_tx \<Rightarrow> sub_entry \<Rightarrow> plane_db \<Rightarrow> (plane_error, unit) result \<times> plane_db" where
  "reconcile_one tx entry db =
     (let hash = spec_hash entry in
      case i32_try_from (en_version entry) of
        None \<Rightarrow> (Err Version_overflow, db)
      | Some version \<Rightarrow>
          (case (case en_history entry of
                   None \<Rightarrow> Ok db
                 | Some h \<Rightarrow> ensure_history_contract (en_topic entry) (en_version entry) h db) of
             Inl e \<Rightarrow> (Err (Plane_bus e), db)
           | Inr db1 \<Rightarrow>
               (case insert_subscription tx entry version db1 of
                  Inl e \<Rightarrow> (Err e, db1)
                | Inr db2 \<Rightarrow>
                    (case sql_find (\<lambda>s. sub_id s = en_id entry) (subs db2) of
                       None \<Rightarrow> (Err (Plane_sql (Sqlstate ''02000'' None)), db1)
                     | Some s \<Rightarrow>
                         if sub_hash s \<noteq> hash then (Err (Spec_mismatch hash (sub_hash s)), db1)
                         else (Ok (), db2)))))"

text \<open>Each subscription is reconciled in a transaction of its own, given in order.\<close>

fun reconcile :: "(pg_tx \<times> sub_entry) list \<Rightarrow> plane_db \<Rightarrow> (plane_error, unit) result \<times> plane_db" where
  "reconcile [] db = (Ok (), db)"
| "reconcile ((tx, entry) # rest) db =
     (case reconcile_one tx entry db of
        (Inl e, db') \<Rightarrow> (Err e, db')
      | (Inr _, db') \<Rightarrow> reconcile rest db')"

section \<open>Specs\<close>

lemma start_desc_no_bar [simp]: "CHR ''|'' \<notin> set (start_desc s)"
  by (auto simp: start_desc_def split: start_position.splits)

lemma start_desc_inj [simp]: "start_desc s = start_desc s' \<longleftrightarrow> s = s'"
proof (cases "\<exists>p q. s = Explicit p \<and> s' = Explicit q")
  case True
  then show ?thesis
    by (auto simp: start_desc_def split_first intro: position.expand)
next
  case False
  then show ?thesis
    by (cases s; cases s') (auto simp: start_desc_def)
qed

lemma spec_hash_eq_iff:
  "spec_hash e = spec_hash e' \<longleftrightarrow>
     en_topic e = en_topic e' \<and> en_version e = en_version e' \<and> en_start e = en_start e'"
proof -
  have "spec_hash e = spec_hash e' \<longleftrightarrow>
      (en_topic e @ CHR ''|'' # (CHR ''v'' # nat_text (en_version e))) @ CHR ''|'' # start_desc (en_start e)
      = (en_topic e' @ CHR ''|'' # (CHR ''v'' # nat_text (en_version e'))) @ CHR ''|'' # start_desc (en_start e')"
    by (simp add: spec_hash_def)
  also have "\<dots> \<longleftrightarrow> en_topic e @ CHR ''|'' # (CHR ''v'' # nat_text (en_version e))
        = en_topic e' @ CHR ''|'' # (CHR ''v'' # nat_text (en_version e')) \<and> en_start e = en_start e'"
    by (subst split_last) auto
  also have "\<dots> \<longleftrightarrow> (en_topic e = en_topic e' \<and> en_version e = en_version e') \<and> en_start e = en_start e'"
    by (subst split_last) auto
  finally show ?thesis by blast
qed

section \<open>Properties\<close>

lemma history_not_drifted:
  assumes "\<not> history_drifted row (fst (policy_columns h)) (snd (policy_columns h))"
  shows "history_drifted row (fst (policy_columns h')) (snd (policy_columns h'))
    \<longleftrightarrow> policy_columns h' \<noteq> policy_columns h"
  using assms by (auto simp: history_drifted_def policy_columns_def split: history_policy.splits)

lemma ensure_history_contract_find:
  assumes "ensure_history_contract topic v h db = Ok db'"
  shows "\<exists>w row. i32_try_from v = Some w
    \<and> sql_find (\<lambda>h. hc_topic h = topic \<and> hc_version h = w) (histories db') = Some row
    \<and> \<not> history_drifted row (fst (policy_columns h)) (snd (policy_columns h))"
  using assms
  by (auto simp: ensure_history_contract_def Let_def split: prod.splits option.splits if_splits)

text \<open>
  C25. A topic's history promise is immutable: once a contract has been accepted for a topic and
  version, by a producer or by a subscriber, declaring it again succeeds exactly with the same
  retention policy and changes nothing, and any other policy is refused.
\<close>

theorem history_policy_immutable:
  assumes "ensure_history_contract topic v h db = Ok db'"
  shows "ensure_history_contract topic v h' db' =
    (if policy_columns h' = policy_columns h then Ok db' else Err (Transport_other ''history policy is immutable''))"
proof -
  obtain w row where "i32_try_from v = Some w"
      "sql_find (\<lambda>h. hc_topic h = topic \<and> hc_version h = w) (histories db') = Some row"
      "\<not> history_drifted row (fst (policy_columns h)) (snd (policy_columns h))"
    using ensure_history_contract_find [OF assms] by blast
  then show ?thesis
    using history_not_drifted [of row h h']
    by (simp add: ensure_history_contract_def Let_def case_prod_beta)
qed

definition empty_plane :: plane_db where
  "empty_plane = \<lparr>plane_meta = Some \<lparr>meta_generation = 1, meta_identity = ''c''\<rparr>, events = [], next_tie = 1,
     notifications = [], subs = [], histories = []\<rparr>"

theorem history_policy_immutable_witness:
  "ensure_history_contract ''t'' 1 KeepForever
     (empty_plane\<lparr>histories := [\<lparr>hc_topic = ''t'', hc_version = 1, hc_policy = ''min_retention'', hc_days = 7\<rparr>]\<rparr>)
   = Err (Transport_other ''history policy is immutable'')"
proof -
  have "ensure_history_contract ''t'' 1 (MinRetention 7) empty_plane = Ok (empty_plane\<lparr>histories :=
      [\<lparr>hc_topic = ''t'', hc_version = 1, hc_policy = ''min_retention'', hc_days = 7\<rparr>]\<rparr>)"
    by (simp add: ensure_history_contract_def policy_columns_def i32_try_from_def i32_max_def empty_plane_def
        history_drifted_def)
  from history_policy_immutable [OF this, of KeepForever] show ?thesis
    by (simp add: policy_columns_def)
qed

lemma ensure_history_frame:
  assumes "ensure_history_contract topic v h db = Ok db'"
  shows "plane_meta db' = plane_meta db \<and> events db' = events db \<and> next_tie db' = next_tie db \<and> subs db' = subs db"
  using assms by (auto simp: ensure_history_contract_def Let_def split: prod.splits option.splits if_splits)

lemma reconcile_one_subs:
  assumes "reconcile_one tx entry db = (v, db')"
  shows "(\<exists>new. subs db' = subs db @ new) \<and> events db' = events db
    \<and> (v = Ok () \<longrightarrow> (\<exists>row \<in> set (subs db'). sub_id row = en_id entry \<and> sub_hash row = spec_hash entry))"
proof (cases "i32_try_from (en_version entry)")
  case None
  with assms show ?thesis by (auto simp: reconcile_one_def Let_def)
next
  case (Some w)
  define hist where "hist = (case en_history entry of None \<Rightarrow> Ok db
      | Some h \<Rightarrow> ensure_history_contract (en_topic entry) (en_version entry) h db)"
  have frame: "subs db1 = subs db \<and> events db1 = events db" if "hist = Ok db1" for db1
    using that ensure_history_frame unfolding hist_def by (auto split: option.splits)
  show ?thesis
  proof (cases hist)
    case (Inl e)
    with assms Some show ?thesis by (auto simp: reconcile_one_def Let_def hist_def [symmetric])
  next
    case (Inr db1)
    have ins: "(\<exists>new. subs db2 = subs db1 @ new) \<and> events db2 = events db1"
      if "insert_subscription tx entry w db1 = Ok db2" for db2
      using that by (auto simp: insert_subscription_def split: option.splits if_splits)
    show ?thesis
      using assms Some Inr frame [OF Inr] ins
      by (auto simp: reconcile_one_def Let_def hist_def [symmetric] split: sum.splits option.splits if_splits
          dest!: sql_find_Some)
  qed
qed

lemma reconcile_subs:
  assumes "reconcile es db = (v, db')"
  shows "(\<exists>new. subs db' = subs db @ new) \<and> events db' = events db
    \<and> (v = Ok () \<longrightarrow> (\<forall>(tx, entry) \<in> set es. \<exists>row \<in> set (subs db').
         sub_id row = en_id entry \<and> sub_hash row = spec_hash entry))"
  using assms
proof (induction es arbitrary: db)
  case Nil
  then show ?case by simp
next
  case (Cons e es)
  obtain tx entry where e: "e = (tx, entry)" by fastforce
  obtain v1 db1 where one: "reconcile_one tx entry db = (v1, db1)" by fastforce
  note first = reconcile_one_subs [OF one]
  show ?case
  proof (cases v1)
    case (Inl err)
    with Cons.prems one first show ?thesis by (auto simp: e)
  next
    case (Inr u)
    then have "reconcile es db1 = (v, db')" using Cons.prems one by (simp add: e)
    note rest = Cons.IH [OF this]
    from first rest obtain n1 n2 where n: "subs db1 = subs db @ n1" "subs db' = subs db1 @ n2" by blast
    show ?thesis using first rest n Inr unfolding e by fastforce
  qed
qed



lemma append_event_last:
  assumes "append_event tx eid topic version payload db = Ok (eid', db')"
  shows "\<exists>m. plane_meta db = Some m
    \<and> ev_pos (last (events db')) = Position (meta_generation m) (xact_id tx) (next_tie db)"
  using assms by (auto simp: append_event_def ev_pos_def split: option.splits if_splits)

text \<open>
  Where a subscription starts: every event appended to a seeded plane lies past the Genesis
  cursor; and it lies past an AfterRegistration cursor taken in the same generation exactly when its
  transaction has a later id than the registering one, so a transaction that was already
  running with a smaller id is not seen even if it commits after the registration.
\<close>

theorem start_positions:
  assumes "append_event tx eid topic version payload db = Ok (eid', db')" and "plane_meta db = Some m"
    and "0 < meta_generation m" and "next_tie db \<le> i64_max"
  shows "(\<exists>g. initial_cursor reg Genesis db = Some g \<and> g < ev_pos (last (events db'))) \<and>
    (\<exists>c. initial_cursor reg AfterRegistration db = Some c \<and>
      (c < ev_pos (last (events db')) \<longleftrightarrow> xact_id reg < xact_id tx))"
  using append_event_last [OF assms(1)] assms(2-) by (auto simp: initial_cursor_def)

theorem start_positions_witness:
  "\<exists>db' c. append_event \<lparr>xact_id = 5, xact_now = 0\<rparr> ''e'' ''t'' 1 ''{}'' empty_plane = Ok (''e'', db') \<and>
     initial_cursor \<lparr>xact_id = 6, xact_now = 0\<rparr> AfterRegistration empty_plane = Some c \<and>
     \<not> c < ev_pos (last (events db'))"
proof -
  obtain db' where a: "append_event \<lparr>xact_id = 5, xact_now = 0\<rparr> ''e'' ''t'' 1 ''{}'' empty_plane = Ok (''e'', db')"
    by (simp add: append_event_def empty_plane_def)
  show ?thesis
    using a start_positions [OF a, of "\<lparr>meta_generation = 1, meta_identity = ''c''\<rparr>" "\<lparr>xact_id = 6, xact_now = 0\<rparr>"]
    by (auto simp: empty_plane_def i64_max_def)
qed

end
