(* ===== verification/Event_Worker.thy ===== *)
theory Event_Worker
  imports Event_Store
begin

text \<open>
  The pull-delivery worker of the event plane (\<open>core/asyncevents/src/worker.rs\<close>): the
  due-subscription select, the frontier-bounded next-event select, the handler call under a
  savepoint, the cursor advance, the failure state machine with its exponential backoff and
  pause threshold, and the bounded drain pass. The database state is the plane's tables next
  to the consumer's own tables, since a handler writes through the delivery transaction.

  The environment of one attempt says what the code does not decide: the clock, the snapshot's
  xmin, whether another worker holds the row lock, which statement fails at the connection
  level, whether a failed \<open>COMMIT\<close> was applied, and what other sessions commit meanwhile.
\<close>

section \<open>Configuration\<close>

datatype int_error = Int_empty | Int_invalid_digit | Int_pos_overflow

definition u64_max :: nat where "u64_max = 18446744073709551615"

definition digit_of :: "char \<Rightarrow> nat option" where
  "digit_of c = (let n = of_char c :: nat in if 48 \<le> n \<and> n \<le> 57 then Some (n - 48) else None)"

fun parse_digits :: "nat \<Rightarrow> string \<Rightarrow> (int_error, nat) result" where
  "parse_digits acc [] = Ok acc"
| "parse_digits acc (c # cs) =
     (case digit_of c of
        None \<Rightarrow> Err Int_invalid_digit
      | Some d \<Rightarrow> if acc * 10 > u64_max then Err Int_pos_overflow
                  else if acc * 10 + d > u64_max then Err Int_pos_overflow
                  else parse_digits (acc * 10 + d) cs)"

text \<open>\<open>str::parse::<u64>\<close>: an optional leading plus, then decimal digits.\<close>

definition parse_u64 :: "string \<Rightarrow> (int_error, nat) result" where
  "parse_u64 s = (case s of
     [] \<Rightarrow> Err Int_empty
   | c # cs \<Rightarrow> if c = CHR ''+'' then (if cs = [] then Err Int_invalid_digit else parse_digits 0 cs)
               else parse_digits 0 s)"

definition parse_ok :: "string \<Rightarrow> nat option" where
  "parse_ok s = (case parse_u64 s of Inl _ \<Rightarrow> None | Inr n \<Rightarrow> Some n)"

definition checked_mul_u64 :: "nat \<Rightarrow> nat \<Rightarrow> nat option" where
  "checked_mul_u64 a b = (if a * b \<le> u64_max then Some (a * b) else None)"

text \<open>A \<open>Duration\<close> is its number of milliseconds.\<close>

definition parse_duration :: "string \<Rightarrow> nat option" where
  "parse_duration raw =
     (let s = trim raw in
      if s = [] then None
      else case
        (case strip_suffix ''ms'' s of
           Some n \<Rightarrow> parse_ok (trim n)
         | None \<Rightarrow>
             (case strip_suffix ''m'' s of
                Some n \<Rightarrow> map_option (\<lambda>secs. secs * 1000)
                   (Option.bind (parse_ok (trim n)) (\<lambda>m. checked_mul_u64 m 60))
              | None \<Rightarrow>
                  (case strip_suffix ''s'' s of
                     Some n \<Rightarrow> map_option (\<lambda>secs. secs * 1000) (parse_ok (trim n))
                   | None \<Rightarrow> map_option (\<lambda>secs. secs * 1000) (parse_ok s))))
        of None \<Rightarrow> None | Some d \<Rightarrow> if d \<noteq> 0 then Some d else None)"

definition default_handler_timeout :: nat where "default_handler_timeout = 10000"

datatype env_var = Var_value string | Var_not_present | Var_not_unicode

definition handler_timeout_from_env :: "env_var \<Rightarrow> nat option" where
  "handler_timeout_from_env v = (case v of
     Var_value s \<Rightarrow> parse_duration s
   | Var_not_present \<Rightarrow> Some default_handler_timeout
   | Var_not_unicode \<Rightarrow> None)"

section \<open>In-flight deliveries\<close>

record active_delivery =
  ad_generation :: nat
  ad_pid :: int
  ad_backend_start :: string

type_synonym active_map = "nat \<rightharpoonup> active_delivery"

definition register_active :: "nat \<Rightarrow> nat \<Rightarrow> int \<Rightarrow> string \<Rightarrow> active_map \<Rightarrow> active_map" where
  "register_active worker_id generation pid backend_start m =
     m(worker_id \<mapsto> \<lparr>ad_generation = generation, ad_pid = pid, ad_backend_start = backend_start\<rparr>)"

definition contains_active :: "nat \<Rightarrow> nat \<Rightarrow> int \<Rightarrow> string \<Rightarrow> active_map \<Rightarrow> bool" where
  "contains_active worker_id generation pid backend_start m =
     (case m worker_id of
        None \<Rightarrow> False
      | Some d \<Rightarrow> ad_generation d = generation \<and> ad_pid d = pid \<and> ad_backend_start d = backend_start)"

text \<open>\<open>ActiveGuard::drop\<close>: only the registration of the guard's own generation is removed.\<close>

definition drop_guard :: "nat \<Rightarrow> nat \<Rightarrow> active_map \<Rightarrow> active_map" where
  "drop_guard worker_id generation m =
     (case m worker_id of
        None \<Rightarrow> m
      | Some d \<Rightarrow> if ad_generation d = generation then m(worker_id := None) else m)"

section \<open>The failure state machine\<close>

definition pause_after :: int where "pause_after = 20"
definition backoff_min_secs :: int where "backoff_min_secs = 1"
definition backoff_max_secs :: int where "backoff_max_secs = 300"

definition saturating_pow2_u32 :: "nat \<Rightarrow> int" where
  "saturating_pow2_u32 e = (if e < 32 then 2 ^ e else 4294967295)"

definition backoff_secs :: "int \<Rightarrow> int" where
  "backoff_secs failures =
     (let exp = nat (max 0 (min 30 (failures - 1)))
      in min (backoff_min_secs * saturating_pow2_u32 exp) backoff_max_secs)"

definition claim_due :: "instant \<Rightarrow> bool \<Rightarrow> string \<Rightarrow> plane_db \<Rightarrow> subscription_row option" where
  "claim_due now locked sid db =
     sql_find (\<lambda>s. sub_id s = sid \<and> sub_status s = Active
                 \<and> (case sub_next_attempt s of None \<Rightarrow> True | Some t \<Rightarrow> t \<le> now) \<and> \<not> locked)
       (subs db)"

text \<open>
  The select both the worker and \<open>eventctl skip\<close> use: exact topic and version, past the
  cursor, of a completed generation or below the snapshot's xmin, first in log order.
\<close>

definition eligible :: "nat \<Rightarrow> string \<Rightarrow> int \<Rightarrow> position \<Rightarrow> plane_db \<Rightarrow> event_row \<Rightarrow> bool" where
  "eligible xmin topic version cur db e \<longleftrightarrow>
     ev_topic e = topic \<and> ev_version e = version \<and> cur < ev_pos e
     \<and> ((case plane_meta db of None \<Rightarrow> False | Some m \<Rightarrow> ev_gen e < meta_generation m)
        \<or> ev_xid e < xmin)"

definition next_event :: "nat \<Rightarrow> string \<Rightarrow> int \<Rightarrow> position \<Rightarrow> plane_db \<Rightarrow> event_row option" where
  "next_event xmin topic version cur db =
     sql_first ev_pos (eligible xmin topic version cur db) (events db)"

definition advance_cursor :: "instant \<Rightarrow> string \<Rightarrow> position \<Rightarrow> plane_db \<Rightarrow> plane_db" where
  "advance_cursor now sid pos db = db\<lparr>subs := sql_update (\<lambda>s. sub_id s = sid)
     (\<lambda>s. s\<lparr>sub_cursor := pos, sub_failures := 0, sub_next_attempt := None, sub_error := None,
            sub_updated := now\<rparr>) (subs db)\<rparr>"

definition record_failure ::
    "instant \<Rightarrow> string \<Rightarrow> int \<Rightarrow> string \<Rightarrow> position \<Rightarrow> int \<Rightarrow> plane_db \<Rightarrow> plane_db" where
  "record_failure now sid failures error cur claimed_failures db =
     (let pause = (failures \<ge> pause_after) in
      db\<lparr>subs := sql_update
           (\<lambda>s. sub_id s = sid \<and> sub_cursor s = cur \<and> sub_failures s = claimed_failures)
           (\<lambda>s. s\<lparr>sub_failures := failures,
                  sub_next_attempt := Some (now + backoff_secs failures * 1000000),
                  sub_error := Some error,
                  sub_status := (if pause then Paused else sub_status s),
                  sub_updated := now\<rparr>) (subs db)\<rparr>)"

section \<open>One delivery attempt\<close>

datatype step = Delivered | Empty | Skipped | Faulted | Poisoned

record 'd store =
  plane :: plane_db
  domain :: 'd

datatype 'd handled = Handled "'d store" | Failed string | Timed_out

type_synonym 'd tx_handler = "string \<Rightarrow> string \<Rightarrow> 'd store \<Rightarrow> 'd handled"

datatype delivery_stmt =
  S_begin | S_due | S_rollback | S_event | S_commit | S_savepoint | S_advance
| S_rollback_to | S_record | S_fresh

record 'd delivery_env =
  de_now :: instant
  de_xmin :: nat
  de_locked :: bool
  de_timeout_text :: string
  de_fault :: "delivery_stmt \<Rightarrow> bool"
  de_commit_applied :: bool
  de_before :: "'d store \<Rightarrow> 'd store"
  de_interim :: "'d store \<Rightarrow> 'd store"
  de_stop :: bool

definition worker_version :: "sub_entry \<Rightarrow> int" where
  "worker_version e = (case i32_try_from (en_version e) of Some v \<Rightarrow> v | None \<Rightarrow> i32_max)"

definition finish_commit ::
    "'d delivery_env \<Rightarrow> step \<Rightarrow> 'd store \<Rightarrow> 'd store \<Rightarrow> (unit, step) result \<times> 'd store" where
  "finish_commit env r before after =
     (if de_fault env S_commit then (Err (), if de_commit_applied env then after else before)
      else (Ok r, after))"

text \<open>\<open>de_timeout_text\<close> is the debug rendering of the configured handler timeout.\<close>

definition timeout_message :: "string \<Rightarrow> string" where
  "timeout_message budget = ''handler timeout after '' @ budget @ '' (delivery connection poisoned)''"

definition deliver_one_on ::
    "'d delivery_env \<Rightarrow> sub_entry \<Rightarrow> 'd tx_handler \<Rightarrow> 'd store \<Rightarrow> (unit, step) result \<times> 'd store" where
  "deliver_one_on env entry handler st =
     (if de_fault env S_begin then (Err (), st)
      else if de_fault env S_due then (Err (), st)
      else case claim_due (de_now env) (de_locked env) (en_id entry) (plane st) of
        None \<Rightarrow> if de_fault env S_rollback then (Err (), st) else (Ok Skipped, st)
      | Some sub \<Rightarrow>
          if de_fault env S_event then (Err (), st)
          else case next_event (de_xmin env) (en_topic entry) (worker_version entry)
                      (sub_cursor sub) (plane st) of
            None \<Rightarrow> if de_fault env S_commit then (Err (), st) else (Ok Empty, st)
          | Some ev \<Rightarrow>
              if de_fault env S_savepoint then (Err (), st)
              else case handler (ev_id ev) (ev_payload ev) st of
                Handled st' \<Rightarrow>
                  if de_fault env S_advance then (Err (), st)
                  else finish_commit env Delivered st
                    (st'\<lparr>plane := advance_cursor (de_now env) (en_id entry) (ev_pos ev) (plane st')\<rparr>)
              | Failed msg \<Rightarrow>
                  if de_fault env S_rollback_to then (Err (), st)
                  else if de_fault env S_record then (Err (), st)
                  else finish_commit env Faulted st
                    (st\<lparr>plane := record_failure (de_now env) (en_id entry) (sub_failures sub + 1) msg
                          (sub_cursor sub) (sub_failures sub) (plane st)\<rparr>)
              | Timed_out \<Rightarrow>
                  let st1 = de_interim env st in
                  if de_fault env S_fresh then (Err (), st1)
                  else if de_fault env S_record then (Err (), st1)
                  else (Ok Poisoned,
                    st1\<lparr>plane := record_failure (de_now env) (en_id entry) (sub_failures sub + 1)
                          (timeout_message (de_timeout_text env)) (sub_cursor sub) (sub_failures sub) (plane st1)\<rparr>))"

section \<open>The drain pass\<close>

definition deliveries_per_sub_pass :: nat where "deliveries_per_sub_pass = 64"

datatype drain_status = Next_sub | Stop_pass | Reconnect

text \<open>
  The inner loop over one subscription. \<open>envs k\<close> is the environment of the pass's \<open>k\<close>-th
  attempt, \<open>n\<close> counts deliveries; each attempt opens on the state other sessions left.
\<close>

fun drain_sub ::
    "nat \<Rightarrow> (nat \<Rightarrow> 'd delivery_env) \<Rightarrow> sub_entry \<Rightarrow> 'd tx_handler \<Rightarrow> nat \<Rightarrow> nat \<Rightarrow> 'd store
       \<Rightarrow> drain_status \<times> nat \<times> nat \<times> 'd store" where
  "drain_sub 0 envs entry handler k n st = (Next_sub, k, n, st)"
| "drain_sub (Suc m) envs entry handler k n st =
     (if de_stop (envs k) then (Stop_pass, k, n, st)
      else case deliver_one_on (envs k) entry handler (de_before (envs k) st) of
        (Inr Delivered, st') \<Rightarrow> drain_sub m envs entry handler (Suc k) (Suc n) st'
      | (Inr Poisoned, st') \<Rightarrow> (Reconnect, Suc k, n, st')
      | (Inr _, st') \<Rightarrow> (Next_sub, Suc k, n, st')
      | (Inl _, st') \<Rightarrow> (Reconnect, Suc k, n, st'))"

fun drain_pass_on ::
    "(nat \<Rightarrow> 'd delivery_env) \<Rightarrow> (sub_entry \<times> 'd tx_handler) list \<Rightarrow> nat \<Rightarrow> nat \<Rightarrow> 'd store
       \<Rightarrow> nat \<times> bool \<times> 'd store" where
  "drain_pass_on envs [] k n st = (n, True, st)"
| "drain_pass_on envs ((entry, handler) # rest) k n st =
     (case drain_sub deliveries_per_sub_pass envs entry handler k n st of
        (Stop_pass, k', n', st') \<Rightarrow> (n', True, st')
      | (Reconnect, k', n', st') \<Rightarrow> (n', False, st')
      | (Next_sub, k', n', st') \<Rightarrow> drain_pass_on envs rest k' n' st')"

section \<open>Durations\<close>

lemma foldl_digits_ge: "acc \<le> foldl (\<lambda>a c. 10 * a + (of_char c - 48 :: nat)) acc s"
proof (induction s arbitrary: acc)
  case (Cons c s)
  have "acc \<le> 10 * acc + (of_char c - 48)" by simp
  also have "\<dots> \<le> foldl (\<lambda>a c. 10 * a + (of_char c - 48 :: nat)) (10 * acc + (of_char c - 48)) s"
    by (rule Cons.IH)
  finally show ?case by simp
qed simp

lemma parse_digits_value:
  assumes "\<forall>c \<in> set s. 48 \<le> (of_char c :: nat) \<and> (of_char c :: nat) \<le> 57" and "acc \<le> u64_max"
  shows "parse_digits acc s = (let v = foldl (\<lambda>a c. 10 * a + (of_char c - 48)) acc s
    in if v \<le> u64_max then Ok v else Err Int_pos_overflow)"
  using assms
proof (induction s arbitrary: acc)
  case (Cons c s)
  let ?a = "acc * 10 + (of_char c - 48)"
  have d: "digit_of c = Some (of_char c - 48)"
    using Cons.prems(1) by (simp add: digit_of_def Let_def)
  show ?case
  proof (cases "?a \<le> u64_max")
    case True
    then have "\<not> u64_max < acc * 10" by simp
    with True Cons d show ?thesis by (simp add: mult.commute [of acc])
  next
    case False
    moreover have "?a \<le> foldl (\<lambda>a c. 10 * a + (of_char c - 48)) ?a s" by (rule foldl_digits_ge)
    ultimately show ?thesis using d by (auto simp: mult.commute [of acc])
  qed
qed (simp add: Let_def)

lemma nat_text_Cons: "\<exists>c cs. nat_text n = c # cs \<and> c \<noteq> CHR ''+''"
proof -
  obtain c cs where c: "nat_text n = c # cs"
    by (metis append_is_Nil_conv list.distinct(1) nat_text.simps neq_Nil_conv)
  then have "48 \<le> (of_char c :: nat)" using nat_text_digits [of c n] by simp
  then have "c \<noteq> CHR ''+''" by auto
  with c show ?thesis by blast
qed

lemma parse_u64_nat_text:
  "parse_u64 (nat_text n) = (if n \<le> u64_max then Ok n else Err Int_pos_overflow)"
proof -
  have "parse_u64 (nat_text n) = parse_digits 0 (nat_text n)"
    using nat_text_Cons [of n] by (auto simp: parse_u64_def)
  also have "\<dots> = (let v = digit_value (nat_text n) in if v \<le> u64_max then Ok v else Err Int_pos_overflow)"
    using nat_text_digits unfolding digit_value_def by (intro parse_digits_value) auto
  finally show ?thesis by (simp add: digit_value_nat_text Let_def)
qed

lemma strip_any_head: "\<forall>t \<in> set ts. t = [] \<or> hd t \<noteq> c \<Longrightarrow> strip_any ts (c # cs) = None"
  by (induction ts) (auto simp: neq_Nil_conv)

lemma trim_id:
  assumes "s \<noteq> []" and "33 \<le> (of_char (hd s) :: nat) \<and> (of_char (hd s) :: nat) < 128"
    and "33 \<le> (of_char (last s) :: nat) \<and> (of_char (last s) :: nat) < 128"
  shows "trim s = s"
proof -
  obtain c cs where s: "s = c # cs" using assms(1) by (cases s) auto
  obtain d ds where r: "rev s = d # ds" using assms(1) by (cases "rev s") auto
  have d: "d = last s" using r by (metis hd_rev list.sel(1))
  have "list_all (\<lambda>t. (of_char (hd t) :: nat) < 33 \<or> 128 \<le> (of_char (hd t) :: nat)) (white_space @ map rev white_space)"
    by code_simp
  then have ws: "(of_char (hd t) :: nat) < 33 \<or> 128 \<le> (of_char (hd t) :: nat)"
    if "t \<in> set white_space \<or> t \<in> set (map rev white_space)" for t
    using that by (auto simp: list_all_iff)
  then have "\<forall>t \<in> set white_space. t = [] \<or> hd t \<noteq> c"
    using assms(2) s by fastforce
  then have "trim_with white_space s = s"
    unfolding s by (simp add: trim_with.simps strip_any_head)
  moreover have "\<forall>t \<in> set (map rev white_space). t = [] \<or> hd t \<noteq> d"
    using assms(3) ws unfolding d by fastforce
  then have "trim_with (map rev white_space) (rev s) = rev s"
    unfolding r by (simp add: trim_with.simps strip_any_head)
  ultimately show ?thesis by (simp add: trim_def)
qed

lemma nat_text_hd_last: "nat_text n \<noteq> []" "48 \<le> (of_char (hd (nat_text n)) :: nat) \<and> (of_char (hd (nat_text n)) :: nat) \<le> 57"
    "48 \<le> (of_char (last (nat_text n)) :: nat) \<and> (of_char (last (nat_text n)) :: nat) \<le> 57"
  using nat_text_Cons [of n] nat_text_digits [of "hd (nat_text n)" n] nat_text_digits [of "last (nat_text n)" n]
  by auto

lemma trim_nat_text [simp]: "trim (nat_text n) = nat_text n"
  using nat_text_hd_last [of n] by (intro trim_id) auto

lemma trim_nat_text_unit [simp]:
  assumes "u \<noteq> []" and "33 \<le> (of_char (last u) :: nat) \<and> (of_char (last u) :: nat) < 128"
  shows "trim (nat_text n @ u) = nat_text n @ u"
  using nat_text_hd_last [of n] assms by (intro trim_id) auto

lemma strip_suffix_append [simp]: "strip_suffix u (s @ u) = Some s"
  by (simp add: strip_suffix_def)

lemma strip_suffix_last: "u \<noteq> [] \<Longrightarrow> s \<noteq> [] \<Longrightarrow> last s \<noteq> last u \<Longrightarrow> strip_suffix u s = None"
  unfolding strip_suffix_def by (auto) (metis last_drop length_greater_0_conv diff_less)

lemma strip_suffix_ms_s: "strip_suffix ''ms'' (nat_text n @ ''s'') = None"
proof -
  obtain s c where s: "nat_text n = s @ [c]" using nat_text_hd_last(1) by (metis rev_exhaust)
  then have "c \<noteq> CHR ''m''" using nat_text_digits [of c n] by auto
  then show ?thesis unfolding s strip_suffix_def by auto
qed

text \<open>
  The configured handler timeout is never zero, and a duration written in milliseconds, seconds
  or minutes is read back exactly as long as it fits \<open>u64\<close>.
\<close>

theorem parse_duration_roundtrip:
  assumes "0 < n" and "n * 60 \<le> u64_max"
  shows "parse_duration (nat_text n @ ''ms'') = Some n \<and> parse_duration (nat_text n @ ''s'') = Some (n * 1000) \<and>
    parse_duration (nat_text n @ ''m'') = Some (n * 60000) \<and> parse_duration (nat_text n) = Some (n * 1000) \<and>
    handler_timeout_from_env v \<noteq> Some 0"
proof (intro conjI)
  have p: "parse_ok (nat_text n) = Some n"
    using assms by (simp add: parse_ok_def parse_u64_nat_text)
  note defs = parse_duration_def Let_def p nat_text_hd_last(1)
  show "parse_duration (nat_text n @ ''ms'') = Some n"
    using assms by (simp add: defs)
  show "parse_duration (nat_text n @ ''s'') = Some (n * 1000)"
    using assms by (simp add: defs strip_suffix_ms_s strip_suffix_last)
  show "parse_duration (nat_text n @ ''m'') = Some (n * 60000)"
    using assms by (simp add: defs strip_suffix_last checked_mul_u64_def)
  have "last (nat_text n) \<noteq> CHR ''m''" "last (nat_text n) \<noteq> CHR ''s''"
    using nat_text_hd_last(3) [of n] by auto
  then show "parse_duration (nat_text n) = Some (n * 1000)"
    using assms by (simp add: defs strip_suffix_last)
  show "handler_timeout_from_env v \<noteq> Some 0"
    by (auto simp: handler_timeout_from_env_def parse_duration_def default_handler_timeout_def Let_def
        split: env_var.splits if_splits option.splits)
qed

theorem parse_duration_roundtrip_witness:
  "parse_duration ''10s'' = Some 10000"
proof -
  have "nat_text 10 = ''10''" by code_simp
  then show ?thesis
    using parse_duration_roundtrip [of 10] by (simp add: u64_max_def)
qed

section \<open>The drain pass\<close>

lemma drain_sub_bound: "fst (snd (snd (drain_sub m envs entry handler k n st))) \<le> n + m"
proof (induction m arbitrary: k n st)
  case (Suc m)
  obtain r st' where d: "deliver_one_on (envs k) entry handler (de_before (envs k) st) = (r, st')"
    by fastforce
  show ?case
  proof (cases "r = Inr Delivered")
    case True
    with d Suc [of "Suc k" "Suc n" st'] show ?thesis by (auto split: sum.splits step.splits)
  next
    case False
    with d show ?thesis by (auto split: sum.splits step.splits)
  qed
qed simp


section \<open>Failure bookkeeping\<close>

lemma backoff_secs_range: "1 \<le> backoff_secs n \<and> backoff_secs n \<le> 300"
  by (auto simp: backoff_secs_def saturating_pow2_u32_def backoff_min_secs_def backoff_max_secs_def Let_def)

lemma backoff_secs_Suc: "backoff_secs (int (Suc n)) = min (2 ^ n) 300"
proof (cases "n \<le> 30")
  case True
  then show ?thesis
    by (simp add: backoff_secs_def saturating_pow2_u32_def backoff_min_secs_def backoff_max_secs_def Let_def)
next
  case False
  then have "(2::int) ^ 30 \<le> 2 ^ n" by (intro power_increasing) auto
  then have "min (2 ^ n) (300::int) = 300" by simp
  with False show ?thesis
    by (simp add: backoff_secs_def saturating_pow2_u32_def backoff_min_secs_def backoff_max_secs_def Let_def)
qed

lemma record_failure_fields:
  "map sub_cursor (subs (record_failure now sid n msg cur claimed db)) = map sub_cursor (subs db)"
  "map sub_id (subs (record_failure now sid n msg cur claimed db)) = map sub_id (subs db)"
  "events (record_failure now sid n msg cur claimed db) = events db"
  "plane_meta (record_failure now sid n msg cur claimed db) = plane_meta db"
  by (simp_all add: record_failure_def Let_def map_sql_update)


section \<open>A sample plane\<close>

definition sample_entry :: sub_entry where
  "sample_entry = \<lparr>en_id = ''s'', en_start = Genesis, en_topic = ''t'', en_version = 1, en_history = None\<rparr>"

definition sample_sub :: subscription_row where
  "sample_sub = \<lparr>sub_id = ''s'', sub_topic = ''t'', sub_version = 1, sub_status = Active,
     sub_cursor = Position 0 0 0, sub_next_attempt = None, sub_failures = 0, sub_error = None,
     sub_hash = spec_hash sample_entry, sub_start_kind = ''genesis'', sub_updated = 0\<rparr>"

definition sample_event :: event_row where
  "sample_event = \<lparr>ev_gen = 1, ev_xid = 5, ev_tie = 1, ev_id = ''e'', ev_topic = ''t'', ev_version = 1,
     ev_payload = ''{}'', ev_created = 0\<rparr>"

definition sample_db :: plane_db where
  "sample_db = \<lparr>plane_meta = Some \<lparr>meta_generation = 1, meta_identity = ''c''\<rparr>, events = [sample_event],
     next_tie = 2, notifications = [], subs = [sample_sub], histories = []\<rparr>"

definition sample_store :: "nat store" where
  "sample_store = \<lparr>plane = sample_db, domain = 0\<rparr>"

definition sample_env :: "nat \<Rightarrow> nat delivery_env" where
  "sample_env k = \<lparr>de_now = int k * 300000000, de_xmin = 9, de_locked = False, de_timeout_text = ''10s'',
     de_fault = (\<lambda>_. False), de_commit_applied = False, de_before = (\<lambda>s. s), de_interim = (\<lambda>s. s),
     de_stop = False\<rparr>"

definition counting_handler :: "nat tx_handler" where
  "counting_handler eid payload st = Handled (st\<lparr>domain := Suc (domain st)\<rparr>)"

definition failing_handler :: "nat tx_handler" where
  "failing_handler eid payload st = Failed ''boom''"

lemmas sample_defs = sample_sub_def sample_event_def sample_db_def sample_store_def sample_env_def sample_entry_def

lemma sample_claim: "claim_due now False ''s'' (plane sample_store) = Some sample_sub"
  by (simp add: claim_due_def sample_defs)

lemma sample_next: "next_event 9 ''t'' 1 (Position 0 0 0) (plane sample_store) = Some sample_event"
  by (simp add: next_event_def sql_first_def eligible_def sample_defs ev_pos_def)

lemma sample_fields: "en_id sample_entry = ''s''" "en_topic sample_entry = ''t''" "worker_version sample_entry = 1"
    "sub_cursor sample_sub = Position 0 0 0" "de_locked (sample_env k) = False" "de_xmin (sample_env k) = 9"
    "de_fault (sample_env k) stmt = False"
  by (simp_all add: sample_defs worker_version_def i32_try_from_def i32_max_def)

lemma deliver_one_on_cases:
  assumes "deliver_one_on env entry handler st = (r, st')"
  shows "(\<exists>sub ev st1. claim_due (de_now env) (de_locked env) (en_id entry) (plane st) = Some sub
      \<and> next_event (de_xmin env) (en_topic entry) (worker_version entry) (sub_cursor sub) (plane st) = Some ev
      \<and> handler (ev_id ev) (ev_payload ev) st = Handled st1
      \<and> st' = st1\<lparr>plane := advance_cursor (de_now env) (en_id entry) (ev_pos ev) (plane st1)\<rparr>
      \<and> (r = Ok Delivered \<or> r = Err () \<and> de_fault env S_commit \<and> de_commit_applied env))
    \<or> (r \<noteq> Ok Delivered \<and> (\<exists>base. (base = st \<or> base = de_interim env st) \<and> domain st' = domain base
        \<and> events (plane st') = events (plane base)
        \<and> map sub_cursor (subs (plane st')) = map sub_cursor (subs (plane base))))"
  using assms
  by (auto simp: deliver_one_on_def finish_commit_def Let_def record_failure_fields
      split: if_splits option.splits handled.splits)




section \<open>A poison event\<close>

text \<open>Attempt after attempt on one subscription, each in its own environment.\<close>

fun attempts :: "(nat \<Rightarrow> 'd delivery_env) \<Rightarrow> sub_entry \<Rightarrow> 'd tx_handler \<Rightarrow> nat \<Rightarrow> 'd store \<Rightarrow> 'd store" where
  "attempts envs entry handler 0 st = st"
| "attempts envs entry handler (Suc n) st =
     snd (deliver_one_on (envs n) entry handler (attempts envs entry handler n st))"

lemma claim_due_find:
  assumes find: "sql_find (\<lambda>s. sub_id s = sid) (subs db) = Some row" and "sub_status row = Active"
    and "case sub_next_attempt row of None \<Rightarrow> True | Some t \<Rightarrow> t \<le> now"
  shows "claim_due now False sid db = Some row"
  unfolding claim_due_def
  by (rule sql_find_stronger [OF find]) (use assms(2,3) sql_find_Some [OF find] in simp_all)

lemma record_failure_find:
  assumes "sql_find (\<lambda>s. sub_id s = sid) (subs db) = Some s"
  shows "sql_find (\<lambda>s. sub_id s = sid)
      (subs (record_failure now sid n msg (sub_cursor s) (sub_failures s) db)) =
    Some (s\<lparr>sub_failures := n, sub_next_attempt := Some (now + backoff_secs n * 1000000), sub_error := Some msg,
            sub_status := (if n \<ge> pause_after then Paused else sub_status s), sub_updated := now\<rparr>)"
  using sql_find_Some [OF assms]
  by (simp add: record_failure_def Let_def sql_find_update assms)

lemma claim_due_inactive:
  assumes "sql_find (\<lambda>s. sub_id s = sid) (subs db) = Some row" and "sub_status row \<noteq> Active"
    and "distinct (map sub_id (subs db))"
  shows "claim_due now locked sid db = None"
proof -
  have "r = row" if "r \<in> set (subs db)" "sub_id r = sid" for r
    using that sql_find_Some [OF assms(1)] assms(3) by (metis distinct_map inj_onD)
  with assms(2) show ?thesis by (auto simp: claim_due_def sql_find_None)
qed

lemma next_event_cong:
  assumes "events db' = events db" and "plane_meta db' = plane_meta db"
  shows "next_event xmin topic version cur db' = next_event xmin topic version cur db"
  by (simp add: next_event_def eligible_def [abs_def] assms)

lemma deliver_one_on_failed:
  assumes "\<forall>stmt. \<not> de_fault env stmt"
    and "claim_due (de_now env) (de_locked env) (en_id entry) (plane st) = Some sub"
    and "next_event (de_xmin env) (en_topic entry) (worker_version entry) (sub_cursor sub) (plane st) = Some ev"
    and "handler (ev_id ev) (ev_payload ev) st = Failed msg"
  shows "deliver_one_on env entry handler st = (Ok Faulted, st\<lparr>plane := record_failure (de_now env)
     (en_id entry) (sub_failures sub + 1) msg (sub_cursor sub) (sub_failures sub) (plane st)\<rparr>)"
  using assms by (simp add: deliver_one_on_def finish_commit_def)

text \<open>What \<open>n\<close> failed attempts leave of the subscription.\<close>

definition poisoned_by :: "nat \<Rightarrow> sub_entry \<Rightarrow> subscription_row \<Rightarrow> instant \<Rightarrow> 'd store \<Rightarrow> 'd store \<Rightarrow> bool" where
  "poisoned_by n entry row until st st' \<longleftrightarrow>
     domain st' = domain st \<and> events (plane st') = events (plane st) \<and> plane_meta (plane st') = plane_meta (plane st)
     \<and> distinct (map sub_id (subs (plane st')))
     \<and> (\<exists>s. sql_find (\<lambda>s. sub_id s = en_id entry) (subs (plane st')) = Some s \<and> sub_cursor s = sub_cursor row
          \<and> sub_failures s = int (min n 20) \<and> sub_status s = (if n < 20 then Active else Paused)
          \<and> (case sub_next_attempt s of None \<Rightarrow> True | Some t \<Rightarrow> t \<le> until))"

lemma poisoned_by_step:
  assumes "poisoned_by n entry row until st st'"
    and quiet: "\<forall>stmt. \<not> de_fault env stmt" "\<not> de_locked env" "until \<le> de_now env"
    and ev: "next_event (de_xmin env) (en_topic entry) (worker_version entry) (sub_cursor row) (plane st) = Some ev"
    and bad: "\<forall>st. handler (ev_id ev) (ev_payload ev) st = Failed msg"
  shows "poisoned_by (Suc n) entry row (de_now env + 300000000) st (snd (deliver_one_on env entry handler st'))"
proof -
  from assms(1) obtain s where s: "sql_find (\<lambda>s. sub_id s = en_id entry) (subs (plane st')) = Some s"
      "sub_cursor s = sub_cursor row" "sub_failures s = int (min n 20)"
      "sub_status s = (if n < 20 then Active else Paused)"
      "case sub_next_attempt s of None \<Rightarrow> True | Some t \<Rightarrow> t \<le> until"
    and frame: "domain st' = domain st" "events (plane st') = events (plane st)"
      "plane_meta (plane st') = plane_meta (plane st)" "distinct (map sub_id (subs (plane st')))"
    by (auto simp: poisoned_by_def)
  have due: "case sub_next_attempt s of None \<Rightarrow> True | Some t \<Rightarrow> t \<le> de_now env"
    using s(5) quiet(3) by (auto split: option.splits)
  show ?thesis
  proof (cases "n < 20")
    case False
    then have "claim_due (de_now env) (de_locked env) (en_id entry) (plane st') = None"
      using claim_due_inactive s(1,4) frame(4) by simp
    then have "deliver_one_on env entry handler st' = (Ok Skipped, st')"
      using quiet(1) by (simp add: deliver_one_on_def)
    moreover have "case sub_next_attempt s of None \<Rightarrow> True | Some t \<Rightarrow> t \<le> de_now env + 300000000"
      using due by (auto split: option.splits)
    ultimately show ?thesis
      using s False frame by (auto simp: poisoned_by_def)
  next
    case True
    then have "claim_due (de_now env) (de_locked env) (en_id entry) (plane st') = Some s"
      using claim_due_find [OF s(1) _ due] s(4) quiet(2) by simp
    moreover have "next_event (de_xmin env) (en_topic entry) (worker_version entry) (sub_cursor s) (plane st') = Some ev"
      using ev s(2) next_event_cong [OF frame(2,3)] by simp
    ultimately have d: "deliver_one_on env entry handler st' = (Ok Faulted, st'\<lparr>plane := record_failure
        (de_now env) (en_id entry) (sub_failures s + 1) msg (sub_cursor s) (sub_failures s) (plane st')\<rparr>)"
      using deliver_one_on_failed quiet(1) bad by blast
    have "de_now env + backoff_secs m * 1000000 \<le> de_now env + 300000000" for m
      using backoff_secs_range [of m] by simp
    moreover have f: "sub_failures s = int n" using s(3) True by simp
    note found = record_failure_find [OF s(1), of "de_now env" "sub_failures s + 1" msg, unfolded s(2) f]
    ultimately show ?thesis
      unfolding d poisoned_by_def s(2) f
      using True frame s(2,4) by (simp add: record_failure_fields found pause_after_def)
  qed
qed

lemma poisoned_by_mono:
  assumes "poisoned_by n entry row until st st'" and "until \<le> until'"
  shows "poisoned_by n entry row until' st st'"
proof -
  have "(case t of None \<Rightarrow> True | Some t \<Rightarrow> t \<le> until) \<Longrightarrow> (case t of None \<Rightarrow> True | Some t \<Rightarrow> t \<le> until')" for t
    using assms(2) by (auto split: option.splits)
  with assms(1) show ?thesis unfolding poisoned_by_def by blast
qed

text \<open>
  C16. A poison event pauses its subscription after exactly twenty failed attempts, and blocks
  only itself: while the handler keeps failing on the next event, attempts at least 300 seconds apart
  count one failure each up to twenty, the state is active before the twentieth and
  paused from it on, and neither the cursor nor the consumer's tables change.
\<close>

theorem poison_event_pauses:
  assumes "sql_find (\<lambda>s. sub_id s = en_id entry) (subs (plane st)) = Some row"
    and "distinct (map sub_id (subs (plane st)))"
    and "sub_status row = Active" and "sub_failures row = 0" and "sub_next_attempt row = None"
    and quiet: "\<forall>k stmt. \<not> de_fault (envs k) stmt \<and> \<not> de_locked (envs k)"
    and spaced: "\<forall>k. de_now (envs k) + 300000000 \<le> de_now (envs (Suc k))"
    and ev: "\<forall>k. next_event (de_xmin (envs k)) (en_topic entry) (worker_version entry) (sub_cursor row) (plane st) = Some ev"
    and bad: "\<forall>st. handler (ev_id ev) (ev_payload ev) st = Failed msg"
  shows "domain (attempts envs entry handler n st) = domain st \<and>
    (\<exists>s. sql_find (\<lambda>s. sub_id s = en_id entry) (subs (plane (attempts envs entry handler n st))) = Some s
       \<and> sub_cursor s = sub_cursor row \<and> sub_failures s = int (min n 20)
       \<and> sub_status s = (if n < 20 then Active else Paused))"
proof -
  have "poisoned_by n entry row (de_now (envs n)) st (attempts envs entry handler n st)"
  proof (induction n)
    case 0
    then show ?case using assms(1-5) by (simp add: poisoned_by_def)
  next
    case (Suc n)
    have "poisoned_by (Suc n) entry row (de_now (envs n) + 300000000) st
        (snd (deliver_one_on (envs n) entry handler (attempts envs entry handler n st)))"
      using poisoned_by_step [OF Suc] quiet ev bad by blast
    then show ?case
      using spaced poisoned_by_mono by (metis attempts.simps(2))
  qed
  then show ?thesis by (auto simp: poisoned_by_def)
qed

theorem poison_event_pauses_witness:
  "\<exists>s. sql_find (\<lambda>s. sub_id s = ''s'') (subs (plane (attempts sample_env sample_entry failing_handler 20 sample_store)))
      = Some s \<and> sub_cursor s = Position 0 0 0 \<and> sub_failures s = 20 \<and> sub_status s = Paused"
  using poison_event_pauses [of sample_entry sample_store sample_sub sample_env sample_event failing_handler "''boom''" 20]
    sample_next
  by (simp add: sample_fields failing_handler_def) (simp add: sample_defs)

section \<open>The frontier\<close>

lemma next_event_least:
  assumes "next_event xmin topic version cur db = Some ev" and "plane_meta db = Some m"
    and "\<forall>e \<in> set (events db). ev_gen e \<le> meta_generation m"
  shows "ev \<in> set (events db)" "ev_topic ev = topic" "ev_version ev = version" "cur < ev_pos ev"
    and "\<lbrakk>e \<in> set (events db); ev_topic e = topic; ev_version e = version; cur < ev_pos e\<rbrakk> \<Longrightarrow> ev_pos ev \<le> ev_pos e"
proof -
  note first = sql_first_Some [OF assms(1) [unfolded next_event_def]]
  show ev: "ev \<in> set (events db)" "ev_topic ev = topic" "ev_version ev = version" "cur < ev_pos ev"
    using first(1,2) by (auto simp: eligible_def)
  have "ev_gen ev < meta_generation m \<or> ev_xid ev < xmin" using first(2) assms(2) by (auto simp: eligible_def)
  then show "ev_pos ev \<le> ev_pos e"
    if "e \<in> set (events db)" "ev_topic e = topic" "ev_version e = version" "cur < ev_pos e"
  proof (cases "eligible xmin topic version cur db e")
    case True
    then show ?thesis using first(3) that(1) by blast
  next
    case False
    with that assms(2,3) have "ev_gen e = meta_generation m" "xmin \<le> ev_xid e"
      by (force simp: eligible_def)+
    moreover have "ev_gen ev \<le> meta_generation m" using assms(3) ev(1) by blast
    ultimately show ?thesis
      using \<open>ev_gen ev < meta_generation m \<or> ev_xid ev < xmin\<close> by (auto simp: ev_pos_def)
  qed
qed

text \<open>
  C27. Bumping the generation fences the log: every event of the log becomes deliverable to every
  worker whatever transactions are still running, in the same order; the boot
  guards then pass on the cluster that was adopted.
\<close>

theorem bump_generation_fences:
  assumes "bump_generation (Ok cluster) db = Ok (g, db')"
    and "\<forall>e \<in> set (events db). \<forall>m. plane_meta db = Some m \<longrightarrow> ev_gen e \<le> meta_generation m"
  shows "next_event xmin topic version cur db' =
      sql_first ev_pos (\<lambda>e. ev_topic e = topic \<and> ev_version e = version \<and> cur < ev_pos e) (events db) \<and>
    startup_guards_on (Ok cluster) ''0'' 0 db' = Ok ()"
proof -
  obtain m where m: "plane_meta db = Some m" "g = meta_generation m + 1"
      "db' = db\<lparr>plane_meta := Some \<lparr>meta_generation = g, meta_identity = cluster\<rparr>\<rparr>"
    using assms(1) by (auto simp: bump_generation_def Let_def split: option.splits if_splits)
  have "eligible xmin topic version cur db' e \<longleftrightarrow> ev_topic e = topic \<and> ev_version e = version \<and> cur < ev_pos e"
    if "e \<in> set (events db)" for e
    using assms(2) that m by (auto simp: eligible_def)
  then have "filter (eligible xmin topic version cur db') (events db)
      = filter (\<lambda>e. ev_topic e = topic \<and> ev_version e = version \<and> cur < ev_pos e) (events db)"
    by (rule filter_cong [OF refl])
  moreover have "trim ''0'' = ''0''" by (rule trim_id) simp_all
  ultimately show ?thesis
    using m by (simp add: next_event_def sql_first_def startup_guards_on_def)
qed

theorem bump_generation_fences_witness:
  "next_event 0 ''t'' 1 (Position 0 0 0) (sample_db\<lparr>plane_meta := Some \<lparr>meta_generation = 2, meta_identity = ''d''\<rparr>\<rparr>)
     = Some sample_event"
proof -
  have "bump_generation (Ok ''d'') sample_db
      = Ok (2, sample_db\<lparr>plane_meta := Some \<lparr>meta_generation = 2, meta_identity = ''d''\<rparr>\<rparr>)"
    by (simp add: bump_generation_def sample_db_def i64_max_def)
  from bump_generation_fences [OF this, of 0 "''t''" 1 "Position 0 0 0"] show ?thesis
    by (simp add: sample_db_def sample_event_def sql_first_def ev_pos_def)
qed

section \<open>Consumers\<close>

text \<open>
  What a module that subscribes to the plane promises: its handler keeps the module's invariant
  when it succeeds. The plane then keeps it through every attempt and every drain, whatever fails.
\<close>

locale durable_consumer =
  fixes handler :: "'d tx_handler" and inv :: "'d \<Rightarrow> bool"
  assumes handler_inv: "inv (domain st) \<Longrightarrow> handler eid payload st = Handled st' \<Longrightarrow> inv (domain st')"
begin

lemma attempt_inv:
  assumes "deliver_one_on env entry handler st = (r, st')" and "inv (domain st)"
    and "inv (domain (de_interim env st))"
  shows "inv (domain st')"
  using deliver_one_on_cases [OF assms(1)] assms(2,3) handler_inv [OF assms(2)] by auto

lemma drain_inv:
  assumes "\<And>k s. inv (domain s) \<Longrightarrow> inv (domain (de_before (envs k) s)) \<and> inv (domain (de_interim (envs k) s))"
    and "inv (domain st)"
  shows "inv (domain (snd (snd (snd (drain_sub m envs entry handler k n st)))))"
  using assms(2)
proof (induction m arbitrary: k n st)
  case (Suc m)
  obtain r st' where d: "deliver_one_on (envs k) entry handler (de_before (envs k) st) = (r, st')" by fastforce
  have "inv (domain st')"
    using attempt_inv [OF d] assms(1) Suc.prems by blast
  with Suc d show ?case
    by (auto split: sum.splits step.splits)
qed simp

end

end
