(* ===== verification/Event_Retention.thy ===== *)
theory Event_Retention
  imports Event_Worker "HOL-Library.Multiset"
begin

text \<open>
  Checkpoint-coupled garbage collection of the event log
  (\<open>core/asyncevents/src/retention.rs\<close>): the interval configuration, the batch DELETE with its
  correlated checkpoint floor, the batch loop per topic, the sweep over the history contracts
  and the gauge of what paused subscriptions hold back. The batch loop is shown equal to one
  filter of the log. A day is 24 hours, as \<open>make_interval(days)\<close> is in a UTC session.
\<close>

section \<open>Interval configuration\<close>

definition parse_number :: "string \<Rightarrow> (unit, nat option) result" where
  "parse_number s = (case parse_u64 (trim s) of
     Inr n \<Rightarrow> Ok (Some n)
   | Inl Int_pos_overflow \<Rightarrow> Err ()
   | Inl _ \<Rightarrow> Ok None)"

definition scaled :: "nat \<Rightarrow> (unit, nat option) result \<Rightarrow> (unit, nat option) result" where
  "scaled factor r = (case r of
     Inl e \<Rightarrow> Err e
   | Inr None \<Rightarrow> Ok None
   | Inr (Some n) \<Rightarrow> (case checked_mul_u64 n factor of
        None \<Rightarrow> Err () | Some secs \<Rightarrow> Ok (Some (secs * 1000))))"

definition in_secs :: "(unit, nat option) result \<Rightarrow> (unit, nat option) result" where
  "in_secs r = (case r of Inl e \<Rightarrow> Err e | Inr v \<Rightarrow> Ok (map_option (\<lambda>n. n * 1000) v))"

definition parse_go_duration :: "string \<Rightarrow> (unit, nat option) result" where
  "parse_go_duration raw =
     (let s = trim raw in
      case strip_suffix ''ms'' s of
        Some n \<Rightarrow> parse_number n
      | None \<Rightarrow>
          (case strip_suffix ''h'' s of
             Some n \<Rightarrow> scaled 3600 (parse_number n)
           | None \<Rightarrow>
               (case strip_suffix ''m'' s of
                  Some n \<Rightarrow> scaled 60 (parse_number n)
                | None \<Rightarrow>
                    (case strip_suffix ''s'' s of
                       Some n \<Rightarrow> in_secs (parse_number n)
                     | None \<Rightarrow> in_secs (parse_number s)))))"

record retention_config =
  rc_interval :: nat
  rc_stall_after :: nat

datatype config_error = Interval_overflow | Interval_zero | Threshold_overflow | Threshold_too_large

definition default_interval :: nat where "default_interval = 3600000"

text \<open>\<open>Duration::MAX\<close> in milliseconds, below which \<open>checked_mul\<close> on durations succeeds.\<close>

definition duration_max :: nat where "duration_max = u64_max * 1000 + 999"

definition config_from_value :: "string option \<Rightarrow> (config_error, retention_config) result" where
  "config_from_value v =
     (case (case v of
              None \<Rightarrow> Ok default_interval
            | Some s \<Rightarrow> (case parse_go_duration s of
                           Inr (Some d) \<Rightarrow> Ok d
                         | Inr None \<Rightarrow> Ok default_interval
                         | Inl _ \<Rightarrow> Err Interval_overflow)) of
        Inl e \<Rightarrow> Err e
      | Inr interval \<Rightarrow>
          if interval = 0 then Err Interval_zero
          else if interval * 3 > duration_max then Err Threshold_overflow
          else if interval * 3 \<ge> u64_max - 1 then Err Threshold_too_large
          else Ok \<lparr>rc_interval = interval, rc_stall_after = interval * 3\<rparr>)"

definition config_from_var :: "env_var \<Rightarrow> (config_error, retention_config) result" where
  "config_from_var v = (case v of
     Var_value s \<Rightarrow> config_from_value (Some s)
   | Var_not_present \<Rightarrow> config_from_value None
   | Var_not_unicode \<Rightarrow> config_from_value (Some []))"

section \<open>The batch DELETE\<close>

definition gc_batch_size :: nat where "gc_batch_size = 1000"

definition day_micros :: int where "day_micros = 86400000000"

definition blocks_gc :: "string \<Rightarrow> int \<Rightarrow> event_row \<Rightarrow> subscription_row \<Rightarrow> bool" where
  "blocks_gc topic version e s \<longleftrightarrow>
     sub_topic s = topic \<and> sub_version s = version \<and> sub_status s \<in> {Active, Paused}
     \<and> sub_cursor s \<le> ev_pos e"

definition gc_candidate ::
    "instant \<Rightarrow> string \<Rightarrow> int \<Rightarrow> int \<Rightarrow> subscription_row list \<Rightarrow> event_row \<Rightarrow> bool" where
  "gc_candidate now topic version days ss e \<longleftrightarrow>
     ev_topic e = topic \<and> ev_version e = version \<and> ev_created e < now - days * day_micros
     \<and> \<not> (\<exists>s \<in> set ss. blocks_gc topic version e s)"

definition gc_batch :: "instant \<Rightarrow> string \<Rightarrow> int \<Rightarrow> int \<Rightarrow> plane_db \<Rightarrow> nat \<times> plane_db" where
  "gc_batch now topic version days db =
     (let batch = take gc_batch_size (sort_key ev_pos
                    (filter (gc_candidate now topic version days (subs db)) (events db)));
          kept = sql_delete (\<lambda>e. e \<in> set batch) (events db)
      in (length (events db) - length kept, db\<lparr>events := kept\<rparr>))"

lemma gc_batch_decreases:
  assumes "gc_batch now topic version days db = (n, db')" and "0 < n"
  shows "length (events db') < length (events db)"
  using assms by (auto simp: gc_batch_def Let_def)

text \<open>
  The batch loop of one topic: its verdict and the log it leaves. \<open>fail\<close> is the batch whose statement
  fails, if any; the batches before it have committed.
\<close>

function gc_topic ::
    "nat option \<Rightarrow> instant \<Rightarrow> string \<Rightarrow> int \<Rightarrow> int \<Rightarrow> plane_db \<Rightarrow> bool \<times> plane_db" where
  "gc_topic fail now topic version days db =
     (if fail = Some 0 then (False, db)
      else case gc_batch now topic version days db of
        (deleted, db') \<Rightarrow>
          if deleted < gc_batch_size then (True, db')
          else gc_topic (map_option (\<lambda>k. k - 1) fail) now topic version days db')"
  by pat_completeness auto
termination
proof (relation "measure (\<lambda>(fail, now, topic, version, days, db). length (events db))", goal_cases)
  case 1
  show ?case by simp
next
  case (2 fail now topic version days db deleted db')
  then have "gc_batch now topic version days db = (deleted, db')" and "0 < deleted"
    by (auto simp: gc_batch_size_def)
  then show ?case by (simp add: gc_batch_decreases)
qed

declare gc_topic.simps [simp del]

section \<open>The sweep\<close>

definition blocked_of :: "instant \<Rightarrow> plane_db \<Rightarrow> subscription_row \<Rightarrow> event_row list" where
  "blocked_of now db s =
     (case sql_find (\<lambda>h. hc_topic h = sub_topic s \<and> hc_version h = sub_version s
                       \<and> hc_policy h = ''min_retention'') (histories db) of
        None \<Rightarrow> []
      | Some h \<Rightarrow> filter (\<lambda>e. ev_topic e = sub_topic s \<and> ev_version e = sub_version s
                            \<and> sub_cursor s < ev_pos e
                            \<and> ev_created e < now - hc_days h * day_micros) (events db))"

text \<open>\<open>asyncevents_retention_blocked_age_seconds\<close>, in microseconds.\<close>

definition blocked_age :: "instant \<Rightarrow> plane_db \<Rightarrow> int" where
  "blocked_age now db =
     (let ages = concat (map (\<lambda>s. map (\<lambda>e. now - ev_created e) (blocked_of now db s))
                  (filter (\<lambda>s. sub_status s = Paused) (subs db)))
      in fold max ages 0)"

text \<open>
  One pass over the \<open>min_retention\<close> contracts. \<open>list_fault\<close> and \<open>gauge_fault\<close> say whether the first
  and the last query fail, \<open>faults\<close> which batch of a topic does. An error carries the topics
  that failed and whether the gauge query did.
\<close>

definition sweep_topic ::
    "instant \<Rightarrow> (string \<Rightarrow> int \<Rightarrow> nat option) \<Rightarrow> history_row \<Rightarrow> (string \<times> int) list \<times> plane_db
       \<Rightarrow> (string \<times> int) list \<times> plane_db" where
  "sweep_topic now faults h acc =
     (case acc of (failures, db) \<Rightarrow>
        (case gc_topic (faults (hc_topic h) (hc_version h)) now (hc_topic h) (hc_version h) (hc_days h) db of
           (True, db') \<Rightarrow> (failures, db')
         | (False, db') \<Rightarrow> (failures @ [(hc_topic h, hc_version h)], db')))"

definition sweep ::
    "instant \<Rightarrow> bool \<Rightarrow> (string \<Rightarrow> int \<Rightarrow> nat option) \<Rightarrow> bool \<Rightarrow> plane_db
       \<Rightarrow> ((string \<times> int) list \<times> bool, int) result \<times> plane_db" where
  "sweep now list_fault faults gauge_fault db =
     (if list_fault then (Err ([], False), db)
      else let contracts = sort_key (\<lambda>h. (hc_topic h, hc_version h))
                 (filter (\<lambda>h. hc_policy h = ''min_retention'') (histories db));
               (failures, db') = fold (sweep_topic now faults) contracts ([], db)
           in if failures = [] \<and> \<not> gauge_fault then (Ok (blocked_age now db'), db')
              else (Err (failures, gauge_fault), db'))"

section \<open>The batch loop is one filter\<close>

lemma gc_batch_frame:
  assumes "gc_batch now topic version days db = (n, db')"
  shows "db' = db\<lparr>events := events db'\<rparr>" and "subs db' = subs db"
  using assms by (auto simp: gc_batch_def Let_def)

lemma gc_batch_keeps:
  assumes "gc_batch now topic version days db = (n, db')"
  shows "filter (\<lambda>e. \<not> gc_candidate now topic version days (subs db) e) (events db')
       = filter (\<lambda>e. \<not> gc_candidate now topic version days (subs db) e) (events db)"
proof -
  let ?c = "gc_candidate now topic version days (subs db)"
  let ?batch = "take gc_batch_size (sort_key ev_pos (filter ?c (events db)))"
  have c: "?c e" if "e \<in> set ?batch" for e
    using that by (auto dest!: in_set_takeD)
  have "events db' = filter (\<lambda>e. e \<notin> set ?batch) (events db)"
    using assms by (auto simp: gc_batch_def Let_def sql_delete_def)
  then have "filter (\<lambda>e. \<not> ?c e) (events db') = filter (\<lambda>e. e \<notin> set ?batch \<and> \<not> ?c e) (events db)"
    by (simp only: filter_filter)
  also have "\<dots> = filter (\<lambda>e. \<not> ?c e) (events db)"
    using c by (intro filter_cong) blast+
  finally show ?thesis .
qed

lemma length_take_filter_le:
  fixes P :: "'a \<Rightarrow> bool" and f :: "'a \<Rightarrow> 'b::linorder"
  shows "length (take k (sort_key f (filter P xs)))
    \<le> length (filter (\<lambda>x. x \<in> set (take k (sort_key f (filter P xs)))) xs)"
proof -
  define ys where "ys = sort_key f (filter P xs)"
  have "mset (take k ys) \<subseteq># mset (take k ys) + mset (drop k ys)" by simp
  also have "\<dots> = mset ys" by (simp flip: mset_append)
  also have "\<dots> = filter_mset P (mset xs)" by (simp add: ys_def)
  also have "\<dots> \<subseteq># mset xs" by simp
  finally have "filter_mset (\<lambda>x. x \<in> set (take k ys)) (mset (take k ys))
      \<subseteq># filter_mset (\<lambda>x. x \<in> set (take k ys)) (mset xs)"
    by (rule multiset_filter_mono)
  then have "size (filter_mset (\<lambda>x. x \<in> set (take k ys)) (mset (take k ys)))
      \<le> size (filter_mset (\<lambda>x. x \<in> set (take k ys)) (mset xs))"
    by (rule size_mset_mono)
  moreover have "size (filter_mset (\<lambda>x. x \<in> set (take k ys)) (mset (take k ys))) = length (take k ys)"
    by (metis filter_True mset_filter size_mset)
  ultimately show ?thesis
    unfolding ys_def by (simp flip: mset_filter)
qed

lemma gc_batch_short:
  assumes "gc_batch now topic version days db = (n, db')" and "n < gc_batch_size"
  shows "events db' = filter (\<lambda>e. \<not> gc_candidate now topic version days (subs db) e) (events db)"
proof -
  let ?c = "gc_candidate now topic version days (subs db)"
  let ?sorted = "sort_key ev_pos (filter ?c (events db))"
  let ?batch = "take gc_batch_size ?sorted"
  have ev: "events db' = filter (\<lambda>e. e \<notin> set ?batch) (events db)"
    and n: "n = length (events db) - length (events db')"
    using assms(1) by (auto simp: gc_batch_def Let_def sql_delete_def)
  have "n = length (filter (\<lambda>e. e \<in> set ?batch) (events db))"
    using n ev sum_length_filter_compl [of "\<lambda>e. e \<in> set ?batch" "events db"] by simp
  moreover have "length ?batch \<le> length (filter (\<lambda>e. e \<in> set ?batch) (events db))"
    by (rule length_take_filter_le)
  ultimately have "length ?batch < gc_batch_size"
    using assms(2) by linarith
  then have "?batch = ?sorted" by simp
  then have batch: "set ?batch = set (filter ?c (events db))" by simp
  have "e \<notin> set ?batch \<longleftrightarrow> \<not> ?c e" if "e \<in> set (events db)" for e
    unfolding batch using that by simp
  then show ?thesis
    unfolding ev by (rule filter_cong [OF refl])
qed

lemma gc_batchD:
  assumes "gc_batch now topic version days db = (n, db')"
  shows "set (events db') \<subseteq> set (events db)"
    and "e \<in> set (events db) \<Longrightarrow> e \<notin> set (events db') \<Longrightarrow> gc_candidate now topic version days (subs db) e"
  using assms by (auto simp: gc_batch_def Let_def dest!: in_set_takeD)

text \<open>Without a fault the loop is one filter of the log.\<close>

lemma gc_topic_filter:
  "gc_topic None now topic version days db =
     (True, db\<lparr>events := filter (\<lambda>e. \<not> gc_candidate now topic version days (subs db) e) (events db)\<rparr>)"
proof (induction "length (events db)" arbitrary: db rule: less_induct)
  case less
  obtain n db' where b: "gc_batch now topic version days db = (n, db')" by fastforce
  show ?case
  proof (cases "n < gc_batch_size")
    case True
    with b have "gc_topic None now topic version days db = (True, db')"
      by (simp add: gc_topic.simps [of None now topic version days db])
    also have "db' = db\<lparr>events := events db'\<rparr>" by (rule gc_batch_frame [OF b])
    finally show ?thesis by (simp add: gc_batch_short [OF b True])
  next
    case False
    then have "length (events db') < length (events db)"
      using gc_batch_decreases [OF b] by (simp add: gc_batch_size_def)
    note IH = less.hyps [OF this]
    have "gc_topic None now topic version days db = gc_topic None now topic version days db'"
      using b False by (simp add: gc_topic.simps [of None now topic version days db])
    also have "\<dots> = (True, db'\<lparr>events := filter
        (\<lambda>e. \<not> gc_candidate now topic version days (subs db) e) (events db')\<rparr>)"
      by (simp add: IH gc_batch_frame(2) [OF b])
    also have "\<dots> = (True, db\<lparr>events := filter
        (\<lambda>e. \<not> gc_candidate now topic version days (subs db) e) (events db)\<rparr>)"
      by (subst gc_batch_frame(1) [OF b]) (simp add: gc_batch_keeps [OF b])
    finally show ?thesis .
  qed
qed

text \<open>With one, it is a prefix of the same deletions, and complete when it reports success.\<close>

definition gc_result ::
    "(event_row \<Rightarrow> bool) \<Rightarrow> bool \<Rightarrow> plane_db \<Rightarrow> plane_db \<Rightarrow> bool" where
  "gc_result cand ok db db' \<longleftrightarrow> db' = db\<lparr>events := events db'\<rparr> \<and> set (events db') \<subseteq> set (events db)
     \<and> (\<forall>e \<in> set (events db) - set (events db'). cand e)
     \<and> (ok \<longrightarrow> (\<forall>e \<in> set (events db'). \<not> cand e))"

lemma gc_topic_result:
  assumes "gc_topic fail now topic version days db = (ok, db')"
  shows "gc_result (gc_candidate now topic version days (subs db)) ok db db'"
  using assms
proof (induction "length (events db)" arbitrary: db fail rule: less_induct)
  case less
  show ?case
  proof (cases "fail = Some 0")
    case True
    with less.prems show ?thesis
      by (auto simp: gc_topic.simps [of "Some 0" now topic version days db] gc_result_def)
  next
    case nz: False
    obtain n db1 where b: "gc_batch now topic version days db = (n, db1)" by fastforce
    have subs: "subs db1 = subs db" and frame: "db1 = db\<lparr>events := events db1\<rparr>"
      using gc_batch_frame [OF b] by auto
    have del: "gc_candidate now topic version days (subs db) e" if "e \<in> set (events db)" "e \<notin> set (events db1)" for e
      using gc_batchD(2) [OF b] that by blast
    show ?thesis
    proof (cases "n < gc_batch_size")
      case True
      then have "ok" "db' = db1"
        using nz b less.prems by (auto simp: gc_topic.simps [of fail now topic version days db])
      moreover have "e \<in> set (events db1) \<Longrightarrow> \<not> gc_candidate now topic version days (subs db) e" for e
        using gc_batch_short [OF b True] by simp
      ultimately show ?thesis
        using frame gc_batchD(1) [OF b] del by (auto simp: gc_result_def)
    next
      case False
      then have "length (events db1) < length (events db)"
        using gc_batch_decreases [OF b] by (simp add: gc_batch_size_def)
      moreover have "gc_topic (map_option (\<lambda>k. k - 1) fail) now topic version days db1 = (ok, db')"
        using False nz b less.prems by (simp add: gc_topic.simps [of fail now topic version days db])
      ultimately have "gc_result (gc_candidate now topic version days (subs db)) ok db1 db'"
        using less.hyps [of db1] subs by metis
      moreover have "db' = db\<lparr>events := events db'\<rparr>" if "db' = db1\<lparr>events := events db'\<rparr>"
        using that frame by (metis (no_types) plane_db.update_convs(2) plane_db.surjective)
      ultimately show ?thesis
        using gc_batchD(1) [OF b] del unfolding gc_result_def by blast
    qed
  qed
qed

lemma gc_result_trans:
  assumes "gc_result P ok1 db db1" and "gc_result Q ok2 db1 db2" and "ok \<Longrightarrow> ok1 \<and> ok2"
  shows "gc_result (\<lambda>e. P e \<or> Q e) ok db db2"
proof -
  have "db2 = db\<lparr>events := events db2\<rparr>"
  proof -
    from assms(1,2) have 1: "db1 = db\<lparr>events := events db1\<rparr>" and 2: "db2 = db1\<lparr>events := events db2\<rparr>"
      by (auto simp: gc_result_def)
    show ?thesis by (subst 2, subst 1) simp
  qed
  then show ?thesis
    using assms unfolding gc_result_def by blast
qed

lemma gc_result_subs: "gc_result P ok db db' \<Longrightarrow> subs db' = subs db"
  unfolding gc_result_def by (metis plane_db.select_convs(5) plane_db.surjective plane_db.update_convs(2))

lemma fold_sweep_topic:
  assumes "fold (sweep_topic now faults) hs (failures, db) = (failures', db')"
  shows "gc_result (\<lambda>e. \<exists>h \<in> set hs. gc_candidate now (hc_topic h) (hc_version h) (hc_days h) (subs db) e)
      (failures' = []) db db' \<and> (failures' = [] \<longrightarrow> failures = [])"
  using assms
proof (induction hs arbitrary: failures db)
  case Nil
  then show ?case by (auto simp: gc_result_def)
next
  case (Cons h hs)
  let ?c = "\<lambda>h. gc_candidate now (hc_topic h) (hc_version h) (hc_days h) (subs db)"
  obtain ok db1 where g: "gc_topic (faults (hc_topic h) (hc_version h)) now (hc_topic h) (hc_version h) (hc_days h) db
      = (ok, db1)" by fastforce
  define f1 where "f1 = (if ok then failures else failures @ [(hc_topic h, hc_version h)])"
  have rest: "fold (sweep_topic now faults) hs (f1, db1) = (failures', db')"
    using Cons.prems g by (cases ok) (simp_all add: sweep_topic_def [of now faults h] f1_def)
  have one: "gc_result (?c h) ok db db1" by (rule gc_topic_result [OF g])
  note IH = Cons.IH [OF rest, unfolded gc_result_subs [OF one]]
  then have "failures' = [] \<longrightarrow> ok \<and> failures = []"
    by (auto simp: f1_def split: if_splits)
  moreover from this have "gc_result (\<lambda>e. ?c h e \<or> (\<exists>h \<in> set hs. ?c h e)) (failures' = []) db db'"
    using gc_result_trans [OF one conjunct1 [OF IH]] by blast
  ultimately show ?case by simp
qed

lemma sweep_result:
  assumes "sweep now list_fault faults gauge_fault db = (verdict, db')"
  shows "gc_result (\<lambda>e. \<exists>h \<in> set (histories db). hc_policy h = ''min_retention''
      \<and> gc_candidate now (hc_topic h) (hc_version h) (hc_days h) (subs db) e) (\<not> isl verdict) db db'"
proof (cases list_fault)
  case True
  with assms show ?thesis by (auto simp: sweep_def gc_result_def)
next
  case False
  let ?hs = "sort_key (\<lambda>h. (hc_topic h, hc_version h))
      (filter (\<lambda>h. hc_policy h = ''min_retention'') (histories db))"
  obtain failures db1 where f: "fold (sweep_topic now faults) ?hs ([], db) = (failures, db1)" by fastforce
  have "db' = db1" and "\<not> isl verdict \<longrightarrow> failures = []"
    using assms False f by (auto simp: sweep_def Let_def split: if_splits)
  with fold_sweep_topic [OF f] show ?thesis
    by (auto simp: gc_result_def)
qed

text \<open>
  C17. What a retention sweep deletes: only events of a \<open>min_retention\<close> contract of their topic and
  version that are older than its window and strictly behind the cursor of every active or paused
  subscription of that topic and version; and a sweep that reports success, whatever the number
  of its batches of 1000, leaves no such event. Nothing but the log changes.
\<close>

theorem sweep_deletes_exactly:
  assumes "sweep now list_fault faults gauge_fault db = (verdict, db')"
    and "deletable = (\<lambda>e. \<exists>h \<in> set (histories db). hc_policy h = ''min_retention''
        \<and> ev_topic e = hc_topic h \<and> ev_version e = hc_version h \<and> ev_created e < now - hc_days h * 86400000000
        \<and> (\<forall>s \<in> set (subs db). sub_topic s = hc_topic h \<and> sub_version s = hc_version h \<and> sub_status s \<noteq> Retired
             \<longrightarrow> ev_pos e < sub_cursor s))"
  shows "db' = db\<lparr>events := events db'\<rparr> \<and> set (events db') \<subseteq> set (events db) \<and>
    (\<forall>e \<in> set (events db) - set (events db'). deletable e) \<and>
    (\<forall>age. verdict = Ok age \<longrightarrow> (\<forall>e \<in> set (events db'). \<not> deletable e))"
proof -
  have st: "(st \<in> {Active, Paused}) = (st \<noteq> Retired)" for st
    by (cases st) auto
  have "deletable = (\<lambda>e. \<exists>h \<in> set (histories db). hc_policy h = ''min_retention''
      \<and> gc_candidate now (hc_topic h) (hc_version h) (hc_days h) (subs db) e)"
    unfolding assms(2) gc_candidate_def blocks_gc_def st day_micros_def by (auto simp: fun_eq_iff not_le)
  with sweep_result [OF assms(1)] show ?thesis
    unfolding gc_result_def by auto
qed

definition sample_contract :: history_row where
  "sample_contract = \<lparr>hc_topic = ''t'', hc_version = 1, hc_policy = ''min_retention'', hc_days = 7\<rparr>"

theorem sweep_deletes_exactly_witness:
  "\<exists>verdict db'. sweep 10 False (\<lambda>_ _. None) False (sample_db\<lparr>histories := [sample_contract]\<rparr>) = (verdict, db')
     \<and> events db' = [sample_event]"
proof -
  let ?db = "sample_db\<lparr>histories := [sample_contract]\<rparr>"
  obtain verdict db' where s: "sweep 10 False (\<lambda>_ _. None) False ?db = (verdict, db')" by fastforce
  have "sample_event \<in> set (events db')"
    using sweep_deletes_exactly [OF s refl] by (auto simp: sample_db_def sample_contract_def sample_event_def)
  moreover have "length (events db') \<le> 1"
    using s by (auto simp: sweep_def Let_def sweep_topic_def gc_topic_filter sample_db_def split: if_splits)
  ultimately have "events db' = [sample_event]"
    by (cases "events db'") auto
  with s show ?thesis by blast
qed

end
