(* ===== verification/Event_Control.thy ===== *)
theory Event_Control
  imports Event_Retention
begin

text \<open>
  The operator's verbs on subscriptions (\<open>tools/eventctl/src/lib.rs\<close>): the lag report, the
  snapshots, \<open>retry\<close>, \<open>pause\<close>, \<open>resume\<close>, \<open>retire\<close>, \<open>skip\<close> and \<open>bump-generation\<close>. Every verb is a
  sequence of statements of its own; \<open>others k\<close> is what other sessions commit before the
  verb's \<open>k\<close>-th statement after the first.
\<close>

section \<open>Reports\<close>

definition cursor_text :: "position \<Rightarrow> string" where
  "cursor_text p = int_text (pos_gen p) @ ''/'' @ nat_text (pos_xid p) @ ''/'' @ int_text (pos_tie p)"

record sub_info =
  si_id :: string
  si_topic :: string
  si_version :: int
  si_state :: sub_state
  si_cursor :: string
  si_failures :: int
  si_next_attempt :: "instant option"
  si_error :: "string option"
  si_lag_events :: nat
  si_lag_age :: int
  si_paused_since :: "instant option"

definition behind :: "subscription_row \<Rightarrow> event_row \<Rightarrow> bool" where
  "behind s e \<longleftrightarrow> ev_topic e = sub_topic s \<and> ev_version e = sub_version s \<and> sub_cursor s < ev_pos e"

definition lag_events :: "plane_db \<Rightarrow> subscription_row \<Rightarrow> nat" where
  "lag_events db s = length (filter (behind s) (events db))"

definition lag_age :: "instant \<Rightarrow> plane_db \<Rightarrow> subscription_row \<Rightarrow> int" where
  "lag_age now db s = (case map ev_created (filter (behind s) (events db)) of
     [] \<Rightarrow> 0 | c # cs \<Rightarrow> now - fold min cs c)"

definition info :: "instant \<Rightarrow> plane_db \<Rightarrow> sub_info list" where
  "info now db = map (\<lambda>s.
     \<lparr>si_id = sub_id s, si_topic = sub_topic s, si_version = sub_version s,
      si_state = sub_status s, si_cursor = cursor_text (sub_cursor s),
      si_failures = sub_failures s, si_next_attempt = sub_next_attempt s,
      si_error = sub_error s, si_lag_events = lag_events db s, si_lag_age = lag_age now db s,
      si_paused_since = (if sub_status s = Paused then Some (sub_updated s) else None)\<rparr>)
     (sort_key sub_id (subs db))"

record state_snapshot =
  ss_id :: string
  ss_state :: sub_state
  ss_cursor :: string
  ss_failures :: int
  ss_next_attempt :: "instant option"
  ss_error :: "string option"

datatype ctl_error = No_such_subscription | Refuse_healthy | Nothing_to_skip | Ctl_plane plane_error

definition find_sub :: "string \<Rightarrow> plane_db \<Rightarrow> subscription_row option" where
  "find_sub sid db = sql_find (\<lambda>s. sub_id s = sid) (subs db)"

definition snapshot :: "string \<Rightarrow> plane_db \<Rightarrow> (ctl_error, state_snapshot) result" where
  "snapshot sid db = (case find_sub sid db of
     None \<Rightarrow> Err No_such_subscription
   | Some s \<Rightarrow> Ok \<lparr>ss_id = sub_id s, ss_state = sub_status s, ss_cursor = cursor_text (sub_cursor s),
                   ss_failures = sub_failures s, ss_next_attempt = sub_next_attempt s,
                   ss_error = sub_error s\<rparr>)"

section \<open>State verbs\<close>

definition update_sub :: "string \<Rightarrow> (subscription_row \<Rightarrow> subscription_row) \<Rightarrow> plane_db \<Rightarrow> plane_db" where
  "update_sub sid f db = db\<lparr>subs := sql_update (\<lambda>s. sub_id s = sid) f (subs db)\<rparr>"

definition retry_row :: "instant \<Rightarrow> subscription_row \<Rightarrow> subscription_row" where
  "retry_row now s = s\<lparr>sub_failures := 0, sub_next_attempt := None, sub_error := None, sub_updated := now\<rparr>"

definition resume_row :: "instant \<Rightarrow> subscription_row \<Rightarrow> subscription_row" where
  "resume_row now s = s\<lparr>sub_status := Active, sub_next_attempt := None, sub_updated := now\<rparr>"

definition set_state_row :: "sub_state \<Rightarrow> instant \<Rightarrow> subscription_row \<Rightarrow> subscription_row" where
  "set_state_row st now s = s\<lparr>sub_status := st, sub_updated := now\<rparr>"

text \<open>The shape the four verbs share: read, update, read again.\<close>

definition verb ::
    "(nat \<Rightarrow> plane_db \<Rightarrow> plane_db) \<Rightarrow> string \<Rightarrow> (subscription_row \<Rightarrow> subscription_row) \<Rightarrow> plane_db
       \<Rightarrow> (ctl_error, state_snapshot \<times> state_snapshot) result \<times> plane_db" where
  "verb others sid f db =
     (case snapshot sid db of
        Inl e \<Rightarrow> (Err e, db)
      | Inr before \<Rightarrow>
          let db' = others 1 (update_sub sid f (others 0 db)) in
          case snapshot sid db' of
            Inl e \<Rightarrow> (Err e, db')
          | Inr after \<Rightarrow> (Ok (before, after), db'))"

definition retry where "retry others now sid db = verb others sid (retry_row now) db"
definition set_state where "set_state others now sid st db = verb others sid (set_state_row st now) db"
definition pause where "pause others now sid db = set_state others now sid Paused db"
definition resume where "resume others now sid db = verb others sid (resume_row now) db"
definition retire where "retire others now sid db = set_state others now sid Retired db"

section \<open>Skip\<close>

definition skip_row :: "instant \<Rightarrow> event_row \<Rightarrow> string \<Rightarrow> subscription_row \<Rightarrow> subscription_row" where
  "skip_row now ev reason s =
     s\<lparr>sub_cursor := ev_pos ev, sub_failures := 0, sub_next_attempt := None,
       sub_error := Some (''skipped event '' @ ev_id ev @ '': '' @ reason),
       sub_status := Active, sub_updated := now\<rparr>"

text \<open>The transaction of \<open>skip\<close>, on the row it has locked.\<close>

definition skip_tx ::
    "instant \<Rightarrow> nat \<Rightarrow> string \<Rightarrow> string \<Rightarrow> plane_db \<Rightarrow> (ctl_error, event_row \<times> plane_db) result" where
  "skip_tx now xmin sid reason db =
     (case find_sub sid db of
        None \<Rightarrow> Err No_such_subscription
      | Some sub \<Rightarrow>
          if sub_status sub = Active \<and> sub_failures sub = 0 then Err Refuse_healthy
          else case next_event xmin (sub_topic sub) (sub_version sub) (sub_cursor sub) db of
            None \<Rightarrow> Err Nothing_to_skip
          | Some ev \<Rightarrow> Ok (ev, update_sub sid (skip_row now ev reason) db))"

record skip_outcome =
  so_before :: state_snapshot
  so_after :: state_snapshot
  so_event_id :: string
  so_payload :: string

definition skip ::
    "(nat \<Rightarrow> plane_db \<Rightarrow> plane_db) \<Rightarrow> instant \<Rightarrow> nat \<Rightarrow> string \<Rightarrow> string \<Rightarrow> plane_db
       \<Rightarrow> (ctl_error, skip_outcome) result \<times> plane_db" where
  "skip others now xmin sid reason db =
     (case snapshot sid db of
        Inl e \<Rightarrow> (Err e, db)
      | Inr before \<Rightarrow>
          let db1 = others 0 db in
          case skip_tx now xmin sid reason db1 of
            Inl e \<Rightarrow> (Err e, db1)
          | Inr (ev, db2) \<Rightarrow>
              let db3 = others 1 db2 in
              case snapshot sid db3 of
                Inl e \<Rightarrow> (Err e, db3)
              | Inr after \<Rightarrow> (Ok \<lparr>so_before = before, so_after = after,
                                  so_event_id = ev_id ev, so_payload = ev_payload ev\<rparr>, db3))"

definition ctl_bump_generation ::
    "(plane_error, string) result \<Rightarrow> plane_db \<Rightarrow> (ctl_error, int \<times> int) result \<times> plane_db" where
  "ctl_bump_generation control_identity db =
     (case plane_meta db of
        None \<Rightarrow> (Err (Ctl_plane (Plane_sql (Sqlstate ''02000'' None))), db)
      | Some meta \<Rightarrow>
          (case bump_generation control_identity db of
             Inl e \<Rightarrow> (Err (Ctl_plane e), db)
           | Inr (after, db') \<Rightarrow> (Ok (meta_generation meta, after), db')))"

section \<open>Properties\<close>

text \<open>
  C24. \<open>skip\<close> steps over exactly one event: the event it names is the first of the log past the locked
  cursor, the row ends active, clean and at that event's position, the subscription's lag drops
  by exactly one, and no other row and no event changes.
\<close>

theorem skip_steps_over_one:
  assumes "skip_tx now xmin sid reason db = Ok (ev, db')" and "find_sub sid db = Some row"
    and "plane_meta db = Some m" and "\<forall>e \<in> set (events db). ev_gen e \<le> meta_generation m"
    and "distinct (map ev_pos (events db))" and "distinct (map sub_id (subs db))"
  shows "\<exists>row'. find_sub sid db' = Some row' \<and> sub_cursor row' = ev_pos ev \<and> sub_status row' = Active
      \<and> sub_failures row' = 0 \<and> sub_next_attempt row' = None
      \<and> lag_events db row = Suc (lag_events db' row') \<and> events db' = events db
      \<and> filter (\<lambda>s. sub_id s \<noteq> sid) (subs db') = filter (\<lambda>s. sub_id s \<noteq> sid) (subs db)"
proof -
  have ev: "next_event xmin (sub_topic row) (sub_version row) (sub_cursor row) db = Some ev"
    and db': "db' = update_sub sid (skip_row now ev reason) db"
    using assms(1,2) by (auto simp: skip_tx_def split: if_splits option.splits)
  let ?row = "skip_row now ev reason row"
  have id: "sub_id row = sid" using assms(2) by (auto simp: find_sub_def dest: sql_find_Some)
  have "find_sub sid db' = Some ?row"
    using assms(2) id by (simp add: find_sub_def db' update_sub_def sql_find_update skip_row_def)
  moreover have "lag_events db row = Suc (lag_events db' ?row)"
  proof -
    note least = next_event_least [OF ev assms(3,4)]
    have "distinct (events db)" using assms(5) by (simp add: distinct_map)
    moreover have "behind row e \<longleftrightarrow> behind ?row e \<or> e = ev" if "e \<in> set (events db)" for e
    proof -
      have "e = ev" if "behind row e" "\<not> ev_pos ev < ev_pos e"
      proof -
        have "ev_pos ev \<le> ev_pos e"
          using least(5) [OF \<open>e \<in> set (events db)\<close>] that(1) by (auto simp: behind_def)
        with that(2) have "ev_pos e = ev_pos ev" by simp
        then show ?thesis
          using assms(5) \<open>e \<in> set (events db)\<close> least(1) by (metis distinct_map inj_onD)
      qed
      then show ?thesis
        using least(2-4) by (auto simp: behind_def skip_row_def)
    qed
    moreover have "\<not> behind ?row ev" by (simp add: behind_def skip_row_def)
    moreover have "events db' = events db" by (simp add: db' update_sub_def)
    ultimately show ?thesis
      unfolding lag_events_def using length_filter_remove [OF _ least(1)] by metis
  qed
  moreover have "filter (\<lambda>s. sub_id s \<noteq> sid) (subs db') = filter (\<lambda>s. sub_id s \<noteq> sid) (subs db)"
    by (simp add: db' update_sub_def filter_sql_update skip_row_def)
  ultimately show ?thesis by (auto simp: skip_row_def db' update_sub_def)
qed

theorem skip_steps_over_one_witness:
  "\<exists>row'. find_sub ''s'' (update_sub ''s'' (skip_row 7 sample_event ''bad'')
        (sample_db\<lparr>subs := [sample_sub\<lparr>sub_status := Paused, sub_failures := 20\<rparr>]\<rparr>)) = Some row'
     \<and> sub_status row' = Active \<and> sub_cursor row' = Position 1 5 1"
proof -
  let ?row = "sample_sub\<lparr>sub_status := Paused, sub_failures := 20\<rparr>"
  let ?db = "sample_db\<lparr>subs := [?row]\<rparr>"
  have nxt: "next_event 9 ''t'' 1 (Position 0 0 0) ?db = Some sample_event"
    by (simp add: next_event_def sql_first_def eligible_def sample_defs ev_pos_def)
  have find: "find_sub ''s'' ?db = Some ?row"
    by (simp add: find_sub_def sample_sub_def)
  have skip: "skip_tx 7 9 ''s'' ''bad'' ?db = Ok (sample_event, update_sub ''s'' (skip_row 7 sample_event ''bad'') ?db)"
    unfolding skip_tx_def find using nxt by (simp add: sample_sub_def)
  have "ev_pos sample_event = Position 1 5 1" by (simp add: sample_event_def ev_pos_def)
  then show ?thesis
    using skip_steps_over_one [OF skip find, of "\<lparr>meta_generation = 1, meta_identity = ''c''\<rparr>"]
    by (auto simp: sample_db_def sample_event_def)
qed

text \<open>
  C29. Retiring a subscription does not stop \<open>skip\<close>: its guard refuses only a healthy active row, so on a
  retired one with an event past its cursor it steps over that event and sets the row active.
\<close>

theorem skip_reactivates_retired:
  assumes "find_sub sid db = Some row" and "sub_status row = Retired"
    and "next_event xmin (sub_topic row) (sub_version row) (sub_cursor row) db = Some ev"
  shows "\<exists>db' row'. skip_tx now xmin sid reason db = Ok (ev, db') \<and> find_sub sid db' = Some row'
    \<and> sub_status row' = Active"
proof -
  have "sub_id row = sid" using assms(1) by (auto simp: find_sub_def dest: sql_find_Some)
  then have "find_sub sid (update_sub sid (skip_row now ev reason) db) = Some (skip_row now ev reason row)"
    using assms(1) by (simp add: find_sub_def update_sub_def sql_find_update skip_row_def)
  moreover have "skip_tx now xmin sid reason db = Ok (ev, update_sub sid (skip_row now ev reason) db)"
    using assms by (simp add: skip_tx_def)
  ultimately show ?thesis by (auto simp: skip_row_def)
qed

theorem skip_reactivates_retired_witness:
  "\<exists>db' row'. skip_tx 7 9 ''s'' ''bad'' (sample_db\<lparr>subs := [sample_sub\<lparr>sub_status := Retired\<rparr>]\<rparr>)
      = Ok (sample_event, db') \<and> find_sub ''s'' db' = Some row' \<and> sub_status row' = Active"
proof -
  let ?db = "sample_db\<lparr>subs := [sample_sub\<lparr>sub_status := Retired\<rparr>]\<rparr>"
  have "find_sub ''s'' ?db = Some (sample_sub\<lparr>sub_status := Retired\<rparr>)"
    by (simp add: find_sub_def sample_sub_def)
  moreover have "next_event 9 ''t'' 1 (Position 0 0 0) ?db = Some sample_event"
    by (simp add: next_event_def sql_first_def eligible_def sample_defs ev_pos_def)
  ultimately show ?thesis
    using skip_reactivates_retired [of "''s''" ?db "sample_sub\<lparr>sub_status := Retired\<rparr>" 9 sample_event]
    by (simp add: sample_sub_def)
qed

end
