(* ===== verification/Event_Plane.thy ===== *)
theory Event_Plane
  imports Event_Control
begin

text \<open>
  The event plane as a whole: producers, workers, operators, the retention sweep and the
  reconciliation of specs run as interleaved Postgres transactions over one log. The state is
  the committed database next to the open transactions with the rows they have inserted, the
  rows workers hold locked, and three ghosts that record history: every event a subscription
  could see since its registration, the events it has stepped past (delivered or skipped) in
  order, and where it started. Steps are the transactions of the sources:
  \<open>append_event\<close>, \<open>bump_generation\<close>, \<open>reconcile_one\<close>, the claim and the outcomes of
  \<open>deliver_one_on\<close>, the verbs of \<open>eventctl\<close> and \<open>gc_batch\<close>.

  Of Postgres the relation uses: transaction ids are handed out in increasing order, the
  \<open>pg_snapshot_xmin\<close> of a snapshot is at most every id still in progress and at most the next
  one, a row locked \<open>FOR UPDATE\<close> is not updated by others, and the exclusive writer lock waits
  for every transaction that has appended.
\<close>

section \<open>States and steps\<close>

record plane_state =
  ps_db :: plane_db
  ps_open :: "nat \<rightharpoonup> event_row list"
  ps_next_xid :: nat
  ps_claims :: "string \<rightharpoonup> event_row \<times> nat"
  ps_all :: "event_row set"
  ps_log :: "string \<Rightarrow> event_row set"
  ps_done :: "string \<Rightarrow> event_row list"
  ps_start :: "string \<Rightarrow> position"
  ps_retired :: "string set"

definition commit_rows :: "event_row list \<Rightarrow> plane_state \<Rightarrow> plane_state" where
  "commit_rows rows s =
     s\<lparr>ps_db := (ps_db s)\<lparr>events := events (ps_db s) @ rows,
                         notifications := notifications (ps_db s) @ map ev_topic rows\<rparr>,
       ps_all := ps_all s \<union> set rows,
       ps_log := (\<lambda>sid. ps_log s sid \<union> set rows)\<rparr>"

definition end_tx :: "nat \<Rightarrow> plane_state \<Rightarrow> plane_state" where
  "end_tx x s = s\<lparr>ps_open := (ps_open s)(x := None)\<rparr>"

definition release :: "string \<Rightarrow> nat \<Rightarrow> plane_state \<Rightarrow> plane_state" where
  "release sid x s = (end_tx x s)\<lparr>ps_claims := (ps_claims s)(sid := None)\<rparr>"

definition registered :: "sub_entry \<Rightarrow> plane_db \<Rightarrow> plane_state \<Rightarrow> plane_state" where
  "registered entry db' s =
     (case (find_sub (en_id entry) (ps_db s), find_sub (en_id entry) db') of
        (None, Some row) \<Rightarrow>
          s\<lparr>ps_db := db',
            ps_log := (ps_log s)(en_id entry := set (events db')),
            ps_done := (ps_done s)(en_id entry := []),
            ps_start := (ps_start s)(en_id entry := sub_cursor row),
            ps_claims := (ps_claims s)(en_id entry := None)\<rparr>
      | _ \<Rightarrow> s\<lparr>ps_db := db'\<rparr>)"

definition frontier :: "nat \<Rightarrow> plane_state \<Rightarrow> bool" where
  "frontier m s \<longleftrightarrow> m \<le> ps_next_xid s \<and> (\<forall>x \<in> dom (ps_open s). m \<le> x)"

definition idle :: "nat \<Rightarrow> plane_state \<Rightarrow> bool" where
  "idle x s \<longleftrightarrow> x \<notin> snd ` ran (ps_claims s)"

definition stepped :: "string \<Rightarrow> event_row \<Rightarrow> plane_state \<Rightarrow> plane_state" where
  "stepped sid ev s = s\<lparr>ps_done := (ps_done s)(sid := ps_done s sid @ [ev])\<rparr>"

inductive plane_step :: "plane_state \<Rightarrow> plane_state \<Rightarrow> bool" where
  begin_tx: "plane_step s (s\<lparr>ps_open := (ps_open s)(ps_next_xid s \<mapsto> []),
                             ps_next_xid := Suc (ps_next_xid s)\<rparr>)"
| append_row: "plane_step s (s\<lparr>ps_open := (ps_open s)(x \<mapsto> drop (length (events (ps_db s))) (events view)),
                               ps_db := (ps_db s)\<lparr>next_tie := next_tie view\<rparr>\<rparr>)"
  if "ps_open s x = Some rows" and "xact_id tx = x"
    and "append_event tx eid topic version payload
           ((ps_db s)\<lparr>events := events (ps_db s) @ rows\<rparr>) = Ok (eid, view)"
| history: "plane_step s (s\<lparr>ps_db := db'\<rparr>)"
  if "ensure_history_contract topic v h (ps_db s) = Ok db'"
| commit_tx: "plane_step s (end_tx x (commit_rows rows s))"
  if "ps_open s x = Some rows" and "idle x s"
| abort_tx: "plane_step s (end_tx x s)" if "idle x s"
| bump: "plane_step s (s\<lparr>ps_db := db'\<rparr>)"
  if "\<forall>rows \<in> ran (ps_open s). rows = []" and "bump_generation identity (ps_db s) = Ok (g, db')"
| register: "plane_step s (registered entry db' s)"
  if "reconcile_one tx entry (ps_db s) = (verdict, db')"
| claim: "plane_step s (s\<lparr>ps_claims := (ps_claims s)(en_id entry \<mapsto> (ev, x))\<rparr>)"
  if "ps_open s x = Some []" and "idle x s" and "ps_claims s (en_id entry) = None"
    and "claim_due now False (en_id entry) (ps_db s) = Some row" and "sub_hash row = spec_hash entry"
    and "frontier m s"
    and "next_event m (en_topic entry) (worker_version entry) (sub_cursor row) (ps_db s) = Some ev"
| deliver: "plane_step s (stepped sid ev (release sid x
              ((commit_rows rows s)\<lparr>ps_db := advance_cursor now sid (ev_pos ev) (ps_db (commit_rows rows s))\<rparr>)))"
  if "ps_claims s sid = Some (ev, x)" and "ps_open s x = Some rows"
| fault: "plane_step s (release sid x (s\<lparr>ps_db := record_failure now sid n msg cur claimed (ps_db s)\<rparr>))"
  if "ps_claims s sid = Some (ev, x)"
| lost: "plane_step s (release sid x s)" if "ps_claims s sid = Some (ev, x)"
| late_failure: "plane_step s (s\<lparr>ps_db := record_failure now sid n msg cur claimed (ps_db s)\<rparr>)"
  if "ps_claims s sid = None"
| op_retry: "plane_step s (s\<lparr>ps_db := update_sub sid (retry_row now) (ps_db s)\<rparr>)"
  if "ps_claims s sid = None"
| op_pause: "plane_step s (s\<lparr>ps_db := update_sub sid (set_state_row Paused now) (ps_db s)\<rparr>)"
  if "ps_claims s sid = None"
| op_resume: "plane_step s (s\<lparr>ps_db := update_sub sid (resume_row now) (ps_db s)\<rparr>)"
  if "ps_claims s sid = None"
| op_retire: "plane_step s (s\<lparr>ps_db := update_sub sid (set_state_row Retired now) (ps_db s),
                              ps_retired := insert sid (ps_retired s)\<rparr>)"
  if "ps_claims s sid = None"
| op_skip: "plane_step s (stepped sid ev (s\<lparr>ps_db := db'\<rparr>))"
  if "ps_claims s sid = None" and "frontier m s" and "skip_tx now m sid reason (ps_db s) = Ok (ev, db')"
| gc: "plane_step s (s\<lparr>ps_db := db'\<rparr>)"
  if "gc_batch now topic version days (ps_db s) = (n, db')"

text \<open>A migrated plane before its first transaction.\<close>

definition plane_init :: "plane_state \<Rightarrow> bool" where
  "plane_init s \<longleftrightarrow> plane_meta (ps_db s) \<noteq> None \<and> events (ps_db s) = [] \<and> subs (ps_db s) = []
     \<and> ps_open s = Map.empty \<and> ps_claims s = Map.empty \<and> ps_all s = {} \<and> ps_retired s = {}
     \<and> (\<forall>sid. ps_log s sid = {} \<and> ps_done s sid = [])"

section \<open>The invariant\<close>

definition generation :: "plane_state \<Rightarrow> int" where
  "generation s = (case plane_meta (ps_db s) of None \<Rightarrow> 0 | Some m \<Rightarrow> meta_generation m)"

text \<open>No open or future transaction can still commit an event at or below the position.\<close>

definition settled :: "plane_state \<Rightarrow> position \<Rightarrow> bool" where
  "settled s p \<longleftrightarrow> pos_gen p < generation s \<or>
     (pos_gen p = generation s \<and> pos_xid p < ps_next_xid s \<and> (\<forall>y \<in> dom (ps_open s). pos_xid p < y))"

definition pending :: "plane_state \<Rightarrow> event_row set" where
  "pending s = (\<Union>rows \<in> ran (ps_open s). set rows)"

definition log_ok :: "plane_state \<Rightarrow> bool" where
  "log_ok s \<longleftrightarrow> plane_meta (ps_db s) \<noteq> None \<and> set (events (ps_db s)) \<subseteq> ps_all s
     \<and> (\<forall>sid. ps_log s sid \<subseteq> ps_all s)
     \<and> (\<forall>e \<in> ps_all s. ev_gen e \<le> generation s)
     \<and> (\<forall>x rows. ps_open s x = Some rows \<longrightarrow>
          x < ps_next_xid s \<and> (\<forall>e \<in> set rows. ev_xid e = x \<and> ev_gen e = generation s))
     \<and> (\<forall>e \<in> ps_all s \<union> pending s. ev_tie e < next_tie (ps_db s))
     \<and> inj_on ev_tie (ps_all s \<union> pending s)"

definition matches :: "subscription_row \<Rightarrow> event_row \<Rightarrow> bool" where
  "matches r e \<longleftrightarrow> ev_topic e = sub_topic r \<and> ev_version e = sub_version r"

definition row_spec :: "subscription_row \<Rightarrow> bool" where
  "row_spec r \<longleftrightarrow> (\<exists>entry. sub_hash r = spec_hash entry \<and> sub_topic r = en_topic entry
     \<and> i32_try_from (en_version entry) = Some (sub_version r))"

definition due_next :: "plane_state \<Rightarrow> subscription_row \<Rightarrow> event_row \<Rightarrow> bool" where
  "due_next s r ev \<longleftrightarrow> ev \<in> ps_log s (sub_id r) \<and> matches r ev \<and> sub_cursor r < ev_pos ev
     \<and> settled s (ev_pos ev)
     \<and> (\<forall>e \<in> ps_log s (sub_id r). matches r e \<and> sub_cursor r < ev_pos e \<longrightarrow> ev_pos ev \<le> ev_pos e)"

definition checkpoint_ok :: "plane_state \<Rightarrow> subscription_row \<Rightarrow> bool" where
  "checkpoint_ok s r \<longleftrightarrow>
     (sub_cursor r = ps_start s (sub_id r) \<or> settled s (sub_cursor r))
     \<and> ps_start s (sub_id r) \<le> sub_cursor r
     \<and> set (events (ps_db s)) \<subseteq> ps_log s (sub_id r)
     \<and> {e \<in> ps_log s (sub_id r). matches r e \<and> sub_cursor r < ev_pos e} \<subseteq> set (events (ps_db s))
     \<and> sorted_wrt (<) (map ev_pos (ps_done s (sub_id r)))
     \<and> set (ps_done s (sub_id r)) = {e \<in> ps_log s (sub_id r). matches r e
          \<and> ps_start s (sub_id r) < ev_pos e \<and> ev_pos e \<le> sub_cursor r}
     \<and> (\<forall>ev x. ps_claims s (sub_id r) = Some (ev, x) \<longrightarrow> due_next s r ev)"

definition plane_inv :: "plane_state \<Rightarrow> bool" where
  "plane_inv s \<longleftrightarrow> log_ok s \<and> distinct (map sub_id (subs (ps_db s)))
     \<and> (\<forall>r \<in> set (subs (ps_db s)). row_spec r
          \<and> (sub_id r \<notin> ps_retired s \<longrightarrow> sub_status r \<noteq> Retired \<and> checkpoint_ok s r))"

section \<open>Invariant preservation\<close>

lemma plane_invD:
  assumes "plane_inv s" and "r \<in> set (subs (ps_db s))" and "sub_id r \<notin> ps_retired s"
  shows "checkpoint_ok s r" and "sub_status r \<noteq> Retired" and "log_ok s"
  using assms by (auto simp: plane_inv_def)

lemma settled_mono:
  assumes "settled s p" and "generation s \<le> generation s'"
    and "ps_next_xid s \<le> ps_next_xid s'"
    and "\<And>y. y \<in> dom (ps_open s') \<Longrightarrow> y \<in> dom (ps_open s) \<or> ps_next_xid s \<le> y"
  shows "settled s' p"
proof (cases "pos_gen p < generation s'")
  case True
  then show ?thesis by (simp add: settled_def)
next
  case False
  with assms(1,2) have p: "pos_gen p = generation s'" "pos_xid p < ps_next_xid s"
      "\<forall>y \<in> dom (ps_open s). pos_xid p < y"
    by (auto simp: settled_def)
  then have "\<forall>y \<in> dom (ps_open s'). pos_xid p < y"
    using assms(4) by (meson less_le_trans)
  with p assms(3) show ?thesis by (simp add: settled_def)
qed

lemma settled_below:
  assumes "settled s p" and "ps_open s x = Some rows" and "e \<in> set rows" and "log_ok s"
  shows "p < ev_pos e"
proof -
  have "ev_gen e = generation s" and "ev_xid e = x"
    using assms by (auto simp: log_ok_def)
  with assms show ?thesis
    by (cases p) (auto simp: settled_def ev_pos_def dom_def)
qed

lemma checkpoint_ok_mono:
  assumes ok: "checkpoint_ok s r"
    and settled: "\<And>p. settled s p \<Longrightarrow> settled s' p"
    and row: "sub_id r' = sub_id r" "sub_topic r' = sub_topic r" "sub_version r' = sub_version r"
      "sub_cursor r' = sub_cursor r"
    and ghosts: "ps_start s' (sub_id r) = ps_start s (sub_id r)"
      "ps_log s' (sub_id r) = ps_log s (sub_id r)" "ps_done s' (sub_id r) = ps_done s (sub_id r)"
    and events: "set (events (ps_db s')) = set (events (ps_db s))"
    and claims: "ps_claims s' (sub_id r) = ps_claims s (sub_id r) \<or> ps_claims s' (sub_id r) = None"
  shows "checkpoint_ok s' r'"
proof -
  have m: "matches r' = matches r"
    by (simp add: matches_def fun_eq_iff row)
  have "due_next s r ev \<Longrightarrow> due_next s' r' ev" for ev
    using settled by (auto simp: due_next_def row m ghosts)
  then have "\<forall>ev x. ps_claims s' (sub_id r) = Some (ev, x) \<longrightarrow> due_next s' r' ev"
    using claims ok unfolding checkpoint_ok_def by (metis option.distinct(1))
  moreover have "sub_cursor r = ps_start s (sub_id r) \<or> settled s' (sub_cursor r)"
    using ok settled unfolding checkpoint_ok_def by blast
  ultimately show ?thesis
    using ok unfolding checkpoint_ok_def row m ghosts events by blast
qed

text \<open>Steps that keep every checkpoint: the log may only grow in what is open.\<close>

lemma plane_inv_frame:
  assumes inv: "plane_inv s" and log: "log_ok s'"
    and settled: "\<And>p. settled s p \<Longrightarrow> settled s' p"
    and subs: "subs (ps_db s') = map f (subs (ps_db s))"
    and f: "\<And>r. sub_id (f r) = sub_id r \<and> sub_topic (f r) = sub_topic r \<and> sub_version (f r) = sub_version r
         \<and> sub_cursor (f r) = sub_cursor r \<and> sub_hash (f r) = sub_hash r"
    and status: "\<And>r. sub_id r \<notin> ps_retired s' \<Longrightarrow> sub_status r \<noteq> Retired \<Longrightarrow> sub_status (f r) \<noteq> Retired"
    and ghosts: "ps_start s' = ps_start s" "ps_log s' = ps_log s" "ps_done s' = ps_done s"
      "ps_retired s \<subseteq> ps_retired s'"
    and events: "set (events (ps_db s')) = set (events (ps_db s))"
    and claims: "\<And>sid. ps_claims s' sid = ps_claims s sid \<or> ps_claims s' sid = None"
  shows "plane_inv s'"
proof -
  have ids: "map sub_id (subs (ps_db s')) = map sub_id (subs (ps_db s))"
    by (simp add: subs f comp_def)
  have "row_spec (f r) = row_spec r" for r
    by (simp add: row_spec_def f)
  moreover have "checkpoint_ok s r \<Longrightarrow> checkpoint_ok s' (f r)" for r
    by (rule checkpoint_ok_mono [where s = s and r = r]) (use settled f ghosts events claims in auto)
  ultimately show ?thesis
    using inv log status ghosts(4) unfolding plane_inv_def ids
    by (auto simp: subs f)
qed

lemma next_event_due:
  assumes inv: "plane_inv s" and r: "r \<in> set (subs (ps_db s))" "sub_id r \<notin> ps_retired s"
    and m: "frontier m s"
    and ev: "next_event m (sub_topic r) (sub_version r) (sub_cursor r) (ps_db s) = Some ev"
  shows "due_next s r ev"
proof -
  let ?el = "eligible m (sub_topic r) (sub_version r) (sub_cursor r) (ps_db s)"
  have ok: "checkpoint_ok s r" and log: "log_ok s" using plane_invD [OF inv r] by auto
  have in_db: "ev \<in> set (events (ps_db s))" and el: "?el ev"
    and least: "\<And>e. e \<in> set (events (ps_db s)) \<Longrightarrow> ?el e \<Longrightarrow> ev_pos ev \<le> ev_pos e"
    using sql_first_Some [OF ev [unfolded next_event_def]] by auto
  have gen: "ev_gen e \<le> generation s" if "e \<in> set (events (ps_db s))" for e
    using that log by (auto simp: log_ok_def)
  have el_iff: "?el e \<longleftrightarrow> matches r e \<and> sub_cursor r < ev_pos e \<and> (ev_gen e < generation s \<or> ev_xid e < m)" for e
    using log by (auto simp: eligible_def matches_def generation_def log_ok_def split: option.splits)
  have "settled s (ev_pos ev)"
  proof (cases "ev_gen ev < generation s")
    case True
    then show ?thesis by (simp add: settled_def ev_pos_def)
  next
    case False
    then have "ev_gen ev = generation s" and "ev_xid ev < m"
      using el gen [OF in_db] unfolding el_iff by auto
    moreover have "m \<le> ps_next_xid s" and "\<forall>y \<in> dom (ps_open s). m \<le> y"
      using m by (auto simp: frontier_def)
    ultimately show ?thesis
      unfolding settled_def ev_pos_def by (simp add: dom_def) (meson less_le_trans)
  qed
  moreover have "ev_pos ev \<le> ev_pos e"
    if "e \<in> ps_log s (sub_id r)" "matches r e" "sub_cursor r < ev_pos e" for e
  proof (cases "?el e")
    case True
    then show ?thesis using least that ok by (auto simp: checkpoint_ok_def)
  next
    case False
    have "e \<in> set (events (ps_db s))" using that ok by (auto simp: checkpoint_ok_def)
    with False that gen have "ev_gen e = generation s" "m \<le> ev_xid e"
      unfolding el_iff by force+
    with el gen [OF in_db] show ?thesis
      unfolding el_iff by (auto simp: ev_pos_def)
  qed
  moreover have "ev \<in> ps_log s (sub_id r)"
    using in_db ok unfolding checkpoint_ok_def by blast
  ultimately show ?thesis
    using el unfolding el_iff due_next_def by blast
qed

lemma same_pos_eq:
  assumes "log_ok s" and "e \<in> ps_all s" and "e' \<in> ps_all s" and "ev_pos e = ev_pos e'"
  shows "e = e'"
proof -
  have "inj_on ev_tie (ps_all s \<union> pending s)" using assms(1) by (simp add: log_ok_def)
  moreover have "ev_tie e = ev_tie e'" using assms(4) by (simp add: ev_pos_def)
  ultimately show ?thesis using assms(2,3) by (meson UnI1 inj_onD)
qed

lemma advance_interval:
  fixes pos :: "'e \<Rightarrow> 'p::linorder"
  assumes "st \<le> c" and "c < pos v" and "v \<in> L" and "M v"
    and "\<And>e. e \<in> L \<Longrightarrow> M e \<Longrightarrow> c < pos e \<Longrightarrow> pos e \<le> pos v \<Longrightarrow> e = v"
  shows "{e \<in> L. M e \<and> st < pos e \<and> pos e \<le> c} \<union> {v} = {e \<in> L. M e \<and> st < pos e \<and> pos e \<le> pos v}"
proof (rule set_eqI)
  fix e
  show "e \<in> {e \<in> L. M e \<and> st < pos e \<and> pos e \<le> c} \<union> {v} \<longleftrightarrow> e \<in> {e \<in> L. M e \<and> st < pos e \<and> pos e \<le> pos v}"
    using assms by (cases "pos e \<le> c") auto
qed

text \<open>The only step a checkpoint makes: onto the event due next.\<close>

lemma checkpoint_ok_advance:
  assumes ok: "checkpoint_ok s r" and log: "log_ok s" and due: "due_next s r ev"
    and row: "sub_id r' = sub_id r" "sub_topic r' = sub_topic r" "sub_version r' = sub_version r"
      "sub_cursor r' = ev_pos ev"
    and s': "\<And>p. settled s p \<Longrightarrow> settled s' p" "ps_start s' = ps_start s" "ps_log s' = ps_log s"
      "ps_done s' (sub_id r) = ps_done s (sub_id r) @ [ev]" "ps_claims s' (sub_id r) = None"
      "set (events (ps_db s')) = set (events (ps_db s))"
  shows "checkpoint_ok s' r'"
proof -
  let ?log = "ps_log s (sub_id r)" and ?start = "ps_start s (sub_id r)"
  have m: "matches r' = matches r" by (simp add: matches_def fun_eq_iff row)
  have ev: "ev \<in> ?log" "matches r ev" "sub_cursor r < ev_pos ev" "settled s (ev_pos ev)"
    and least: "\<And>e. e \<in> ?log \<Longrightarrow> matches r e \<Longrightarrow> sub_cursor r < ev_pos e \<Longrightarrow> ev_pos ev \<le> ev_pos e"
    using due by (auto simp: due_next_def)
  have sub: "?log \<subseteq> ps_all s" using log by (auto simp: log_ok_def)
  have start: "?start \<le> sub_cursor r" and
    don: "set (ps_done s (sub_id r)) = {e \<in> ?log. matches r e \<and> ?start < ev_pos e \<and> ev_pos e \<le> sub_cursor r}"
    using ok by (auto simp: checkpoint_ok_def)
  have uniq: "e = ev" if "e \<in> ?log" "matches r e" "sub_cursor r < ev_pos e" "ev_pos e \<le> ev_pos ev" for e
  proof -
    have "ev_pos e = ev_pos ev" using that least by (meson antisym)
    then show ?thesis
      using same_pos_eq [OF log, of e ev] sub ev(1) that(1) by blast
  qed
  have "set (ps_done s (sub_id r) @ [ev])
      = {e \<in> ?log. matches r e \<and> ?start < ev_pos e \<and> ev_pos e \<le> ev_pos ev}"
    unfolding set_append list.set don
    by (rule advance_interval [where pos = ev_pos and M = "matches r", OF start ev(3) ev(1) ev(2)]) (rule uniq)
  moreover have "sorted_wrt (<) (map ev_pos (ps_done s (sub_id r) @ [ev]))"
  proof -
    have "sorted_wrt (<) (map ev_pos (ps_done s (sub_id r)))"
      using ok by (simp add: checkpoint_ok_def)
    moreover have "\<forall>e \<in> set (ps_done s (sub_id r)). ev_pos e < ev_pos ev"
      unfolding don using ev(3) by (blast intro: le_less_trans)
    ultimately show ?thesis by (simp add: sorted_wrt_append)
  qed
  moreover have "{e \<in> ?log. matches r e \<and> ev_pos ev < ev_pos e} \<subseteq> set (events (ps_db s))"
    using ok ev(3) unfolding checkpoint_ok_def by (blast intro: less_trans)
  moreover have "settled s' (ev_pos ev)"
    by (rule s'(1) [OF ev(4)])
  moreover have "?start \<le> ev_pos ev"
    using ev(3) start by (blast intro: le_less_trans less_imp_le)
  moreover have "set (events (ps_db s)) \<subseteq> ?log"
    using ok by (simp add: checkpoint_ok_def)
  ultimately show ?thesis
    unfolding checkpoint_ok_def row m s'(2-6) by (intro conjI) simp_all
qed


subsection \<open>The log\<close>

lemma generation_cong: "plane_meta (ps_db s') = plane_meta (ps_db s) \<Longrightarrow> generation s' = generation s"
  by (simp add: generation_def)

lemma log_ok_frame:
  assumes "log_ok s" and meta: "plane_meta (ps_db s') = plane_meta (ps_db s)"
    and "set (events (ps_db s')) \<subseteq> set (events (ps_db s))"
    and "ps_all s' = ps_all s" and "\<And>sid. ps_log s' sid \<subseteq> ps_all s"
    and opn: "\<And>x rows. ps_open s' x = Some rows \<Longrightarrow> ps_open s x = Some rows \<or> (x < ps_next_xid s' \<and> rows = [])"
    and "ps_next_xid s \<le> ps_next_xid s'" and "next_tie (ps_db s) \<le> next_tie (ps_db s')"
  shows "log_ok s'"
proof -
  have sub: "pending s' \<subseteq> pending s"
  proof
    fix e assume "e \<in> pending s'"
    then obtain x rows where "ps_open s' x = Some rows" "e \<in> set rows"
      by (auto simp: pending_def ran_def)
    with opn [of x rows] show "e \<in> pending s"
      by (auto simp: pending_def ran_def)
  qed
  have inj: "inj_on ev_tie (ps_all s \<union> pending s')"
    using assms(1) sub unfolding log_ok_def by (meson Un_mono inj_on_subset order_refl)
  have tie: "\<forall>e \<in> ps_all s \<union> pending s'. ev_tie e < next_tie (ps_db s')"
    using assms(1,8) sub unfolding log_ok_def by (meson Un_mono less_le_trans order_refl subsetD)
  have "x < ps_next_xid s' \<and> (\<forall>e \<in> set rows. ev_xid e = x \<and> ev_gen e = generation s)"
    if "ps_open s' x = Some rows" for x rows
    using opn [OF that] assms(1,7) unfolding log_ok_def by (fastforce dest: less_le_trans)
  then show ?thesis
    using assms(1,3-5) inj tie
    unfolding log_ok_def generation_cong [OF meta] meta assms(4) by blast
qed

lemma log_ok_commit:
  assumes "log_ok s" and x: "ps_open s x = Some rows"
  shows "log_ok (end_tx x (commit_rows rows s))"
proof -
  let ?s = "end_tx x (commit_rows rows s)"
  have gen: "generation ?s = generation s"
    by (simp add: generation_def end_tx_def commit_rows_def)
  have "set rows \<subseteq> pending s"
    using x by (auto simp: pending_def ran_def)
  moreover have "pending ?s \<subseteq> pending s"
    by (auto simp: pending_def ran_def end_tx_def commit_rows_def split: if_splits)
  ultimately have sub: "ps_all ?s \<union> pending ?s \<subseteq> ps_all s \<union> pending s"
    by (auto simp: end_tx_def commit_rows_def)
  have inj: "inj_on ev_tie (ps_all ?s \<union> pending ?s)"
    using assms(1) sub unfolding log_ok_def by (meson inj_on_subset)
  have tie: "\<forall>e \<in> ps_all ?s \<union> pending ?s. ev_tie e < next_tie (ps_db s)"
    using assms(1) sub unfolding log_ok_def by blast
  have "\<forall>e \<in> set rows. ev_gen e \<le> generation s"
    using assms by (simp add: log_ok_def)
  with inj tie show ?thesis
    using assms(1) unfolding log_ok_def gen
    by (auto simp: end_tx_def commit_rows_def)
qed

lemma append_eventD:
  assumes "append_event tx eid topic version payload db = Ok (eid', db')"
  shows "\<exists>m row. plane_meta db = Some m \<and> ev_gen row = meta_generation m \<and> ev_xid row = xact_id tx
    \<and> ev_tie row = next_tie db \<and> events db' = events db @ [row] \<and> next_tie db' = next_tie db + 1
    \<and> plane_meta db' = plane_meta db \<and> subs db' = subs db \<and> eid' = ev_id row"
  using assms by (auto simp: append_event_def split: option.splits if_splits)

lemma log_ok_append:
  assumes ok: "log_ok s" and x: "ps_open s x = Some rows" "xact_id tx = x"
    and app: "append_event tx eid topic version payload
           ((ps_db s)\<lparr>events := events (ps_db s) @ rows\<rparr>) = Ok (eid, view)"
  shows "log_ok (s\<lparr>ps_open := (ps_open s)(x \<mapsto> drop (length (events (ps_db s))) (events view)),
                   ps_db := (ps_db s)\<lparr>next_tie := next_tie view\<rparr>\<rparr>)" (is "log_ok ?s")
proof -
  obtain m row where row: "plane_meta (ps_db s) = Some m" "ev_gen row = meta_generation m"
      "ev_xid row = x" "ev_tie row = next_tie (ps_db s)" "events view = events (ps_db s) @ rows @ [row]"
      "next_tie view = next_tie (ps_db s) + 1"
    using append_eventD [OF app] x(2) by auto
  have gen: "generation ?s = generation s" "ev_gen row = generation s"
    using row by (auto simp: generation_def)
  have sub: "pending ?s \<subseteq> insert row (pending s)"
    using x(1) row(5) by (auto simp: pending_def ran_def split: if_splits)
  have old: "\<forall>e \<in> ps_all s \<union> pending s. ev_tie e < next_tie (ps_db s)"
    and inj: "inj_on ev_tie (ps_all s \<union> pending s)"
    using ok by (auto simp: log_ok_def)
  have "inj_on ev_tie (insert row (ps_all s \<union> pending s))"
    using inj old row(4) by (auto simp: inj_on_insert)
  then have "inj_on ev_tie (ps_all s \<union> pending ?s)"
    by (rule inj_on_subset) (use sub in auto)
  moreover have "\<forall>e \<in> ps_all s \<union> pending ?s. ev_tie e < next_tie view"
  proof
    fix e assume "e \<in> ps_all s \<union> pending ?s"
    with sub have "e = row \<or> e \<in> ps_all s \<union> pending s" by blast
    then show "ev_tie e < next_tie view"
      using old row(4,6) by (metis less_add_one less_trans)
  qed
  moreover have "y < ps_next_xid s \<and> (\<forall>e \<in> set rs. ev_xid e = y \<and> ev_gen e = generation s)"
    if "ps_open ?s y = Some rs" for y rs
    using that ok x(1) row(3,5) gen(2) by (cases "y = x") (auto simp: log_ok_def)
  ultimately show ?thesis
    using ok unfolding log_ok_def gen(1) by auto
qed

lemma bump_generationD:
  "bump_generation identity db = Ok (g, db') \<Longrightarrow>
     \<exists>m ident. plane_meta db = Some m \<and> g = meta_generation m + 1
       \<and> db' = db\<lparr>plane_meta := Some \<lparr>meta_generation = g, meta_identity = ident\<rparr>\<rparr>"
  by (auto simp: bump_generation_def Let_def split: sum.splits option.splits if_splits)

lemma log_ok_bump:
  assumes ok: "log_ok s" and none: "\<forall>rows \<in> ran (ps_open s). rows = []"
    and b: "bump_generation identity (ps_db s) = Ok (g, db')"
  shows "log_ok (s\<lparr>ps_db := db'\<rparr>)" and "generation (s\<lparr>ps_db := db'\<rparr>) = generation s + 1"
proof -
  obtain m ident where m: "plane_meta (ps_db s) = Some m" "g = meta_generation m + 1"
      "db' = (ps_db s)\<lparr>plane_meta := Some \<lparr>meta_generation = g, meta_identity = ident\<rparr>\<rparr>"
    using bump_generationD [OF b] by blast
  show gen: "generation (s\<lparr>ps_db := db'\<rparr>) = generation s + 1"
    using m by (simp add: generation_def)
  have opn: "x < ps_next_xid s \<and> (\<forall>e \<in> set rows. ev_xid e = x \<and> ev_gen e = generation s + 1)"
    if "ps_open s x = Some rows" for x rows
  proof -
    from none that have "rows = []" by (auto simp: ran_def)
    with ok that show ?thesis by (simp add: log_ok_def)
  qed
  have all: "ev_gen e \<le> generation s + 1" if "e \<in> ps_all s" for e
  proof -
    from ok that have "ev_gen e \<le> generation s" by (simp add: log_ok_def)
    then show ?thesis by simp
  qed
  have "pending (s\<lparr>ps_db := db'\<rparr>) = pending s"
    by (simp add: pending_def)
  with ok opn all show "log_ok (s\<lparr>ps_db := db'\<rparr>)"
    unfolding log_ok_def gen by (simp add: m(3))
qed

subsection \<open>Transactions\<close>

lemma plane_inv_commit:
  assumes inv: "plane_inv s" and x: "ps_open s x = Some rows"
  shows "plane_inv (end_tx x (commit_rows rows s))" (is "plane_inv ?s")
proof -
  have log: "log_ok s" using inv by (simp add: plane_inv_def)
  have fields: "subs (ps_db ?s) = subs (ps_db s)" "ps_retired ?s = ps_retired s"
      "ps_start ?s = ps_start s" "ps_done ?s = ps_done s" "ps_claims ?s = ps_claims s"
      "ps_log ?s sid = ps_log s sid \<union> set rows" "set (events (ps_db ?s)) = set (events (ps_db s)) \<union> set rows" for sid
    by (simp_all add: end_tx_def commit_rows_def)
  have settled: "settled ?s p" if "settled s p" for p
    using that by (rule settled_mono) (auto simp: end_tx_def commit_rows_def generation_def split: if_splits)
  have below: "p < ev_pos e" if "settled s p" "e \<in> set rows" for p e
    by (rule settled_below [OF that(1) x that(2) log])
  have due: "due_next ?s r ev" if d: "due_next s r ev" for r ev
  proof -
    have "ev_pos ev \<le> ev_pos e" if "e \<in> set rows" for e
      using below [OF _ that] d by (auto simp: due_next_def intro: less_imp_le)
    then show ?thesis
      using d settled unfolding due_next_def fields by blast
  qed
  have "checkpoint_ok ?s r" if ok: "checkpoint_ok s r" for r
  proof -
    have claims: "\<forall>ev y. ps_claims s (sub_id r) = Some (ev, y) \<longrightarrow> due_next ?s r ev"
      using ok due by (simp add: checkpoint_ok_def)
    have "\<not> (ps_start s (sub_id r) < ev_pos e \<and> ev_pos e \<le> sub_cursor r)" if "e \<in> set rows" for e
      using ok below [OF _ that, of "sub_cursor r"] unfolding checkpoint_ok_def by (metis not_le)
    then have don: "set (ps_done s (sub_id r)) = {e \<in> ps_log s (sub_id r) \<union> set rows. matches r e
          \<and> ps_start s (sub_id r) < ev_pos e \<and> ev_pos e \<le> sub_cursor r}"
      using ok unfolding checkpoint_ok_def by blast
    have "sub_cursor r = ps_start s (sub_id r) \<or> settled ?s (sub_cursor r)"
      using ok settled unfolding checkpoint_ok_def by blast
    moreover have "{e \<in> ps_log s (sub_id r) \<union> set rows. matches r e \<and> sub_cursor r < ev_pos e}
        \<subseteq> set (events (ps_db s)) \<union> set rows"
      and "set (events (ps_db s)) \<union> set rows \<subseteq> ps_log s (sub_id r) \<union> set rows"
      using ok unfolding checkpoint_ok_def by blast+
    ultimately show ?thesis
      using ok claims don unfolding checkpoint_ok_def fields by simp
  qed
  then show ?thesis
    using inv log_ok_commit [OF log x] unfolding plane_inv_def fields by blast
qed

lemma plane_inv_claims:
  assumes inv: "plane_inv s"
    and sub: "\<And>sid. c sid = ps_claims s sid \<or> c sid = None"
    and opn: "\<And>y rows. op y = Some rows \<Longrightarrow> ps_open s y = Some rows"
  shows "plane_inv (s\<lparr>ps_open := op, ps_claims := c\<rparr>)" (is "plane_inv ?s")
proof (rule plane_inv_frame [OF inv, where f = "\<lambda>r. r"])
  have log: "log_ok s" using inv by (simp add: plane_inv_def)
  show "log_ok ?s"
    by (rule log_ok_frame [OF log]) (use log opn in \<open>auto simp: log_ok_def\<close>)
  show "settled ?s p" if "settled s p" for p
    using that by (rule settled_mono) (use opn in \<open>auto simp: generation_def\<close>)
qed (use sub in auto)

lemma plane_inv_end_tx:
  assumes "plane_inv s"
  shows "plane_inv (end_tx x s)"
proof -
  have "plane_inv (s\<lparr>ps_open := (ps_open s)(x := None), ps_claims := ps_claims s\<rparr>)"
    by (rule plane_inv_claims [OF assms]) (auto split: if_splits)
  then show ?thesis by (simp add: end_tx_def)
qed

lemma plane_inv_release:
  assumes "plane_inv s"
  shows "plane_inv (release sid x s)"
proof -
  have "plane_inv (s\<lparr>ps_open := (ps_open s)(x := None), ps_claims := (ps_claims s)(sid := None)\<rparr>)"
    by (rule plane_inv_claims [OF assms]) (auto split: if_splits)
  then show ?thesis by (simp add: release_def end_tx_def)
qed

text \<open>An update of subscription rows that leaves cursors and specs alone.\<close>

lemma plane_inv_update:
  assumes inv: "plane_inv s"
    and f: "\<And>r. sub_id (f r) = sub_id r \<and> sub_topic (f r) = sub_topic r \<and> sub_version (f r) = sub_version r
         \<and> sub_cursor (f r) = sub_cursor r \<and> sub_hash (f r) = sub_hash r"
    and status: "\<And>r. p r \<Longrightarrow> sub_id r \<notin> R \<Longrightarrow> sub_status r \<noteq> Retired \<Longrightarrow> sub_status (f r) \<noteq> Retired"
    and R: "ps_retired s \<subseteq> R"
  shows "plane_inv (s\<lparr>ps_db := (ps_db s)\<lparr>subs := sql_update p f (subs (ps_db s))\<rparr>, ps_retired := R\<rparr>)"
    (is "plane_inv ?s")
proof (rule plane_inv_frame [OF inv, where f = "\<lambda>r. if p r then f r else r"])
  have log: "log_ok s" using inv by (simp add: plane_inv_def)
  show "log_ok ?s"
    by (rule log_ok_frame [OF log]) (use log in \<open>auto simp: log_ok_def\<close>)
  show "settled ?s q" if "settled s q" for q
    using that by (rule settled_mono) (auto simp: generation_def)
qed (use f status R in \<open>auto simp: sql_update_def\<close>)

lemma plane_inv_update_sub:
  assumes "plane_inv s"
    and "\<And>r. sub_id (f r) = sub_id r \<and> sub_topic (f r) = sub_topic r \<and> sub_version (f r) = sub_version r
         \<and> sub_cursor (f r) = sub_cursor r \<and> sub_hash (f r) = sub_hash r"
    and "\<And>r. sub_status r \<noteq> Retired \<Longrightarrow> sub_status (f r) \<noteq> Retired"
  shows "plane_inv (s\<lparr>ps_db := update_sub sid f (ps_db s)\<rparr>)"
  using plane_inv_update [of s f "\<lambda>r. sub_id r = sid" "ps_retired s"] assms
  by (simp add: update_sub_def)

lemma plane_inv_record_failure:
  assumes "plane_inv s"
  shows "plane_inv (s\<lparr>ps_db := record_failure now sid n msg cur claimed (ps_db s)\<rparr>)"
  unfolding record_failure_def Let_def
  using plane_inv_update [of s _ _ "ps_retired s"] assms by simp

lemma plane_inv_advance:
  assumes inv: "plane_inv s"
    and due: "\<And>r. r \<in> set (subs (ps_db s)) \<Longrightarrow> sub_id r = sid \<Longrightarrow> sid \<notin> ps_retired s \<Longrightarrow> due_next s r ev"
    and f: "\<And>r. sub_id (f r) = sub_id r \<and> sub_topic (f r) = sub_topic r \<and> sub_version (f r) = sub_version r
         \<and> sub_cursor (f r) = ev_pos ev \<and> sub_hash (f r) = sub_hash r"
    and status: "\<And>r. sub_status r \<noteq> Retired \<Longrightarrow> sub_status (f r) \<noteq> Retired"
  shows "plane_inv (stepped sid ev (s\<lparr>ps_db := update_sub sid f (ps_db s),
                                     ps_claims := (ps_claims s)(sid := None)\<rparr>))" (is "plane_inv ?s")
proof -
  have log: "log_ok s" using inv by (simp add: plane_inv_def)
  have "log_ok ?s"
    by (rule log_ok_frame [OF log]) (use log in \<open>auto simp: log_ok_def stepped_def update_sub_def\<close>)
  moreover have settled: "settled ?s q" if "settled s q" for q
    using that by (rule settled_mono) (auto simp: generation_def stepped_def update_sub_def)
  define g where "g = (\<lambda>r. if sub_id r = sid then f r else r)"
  have g: "sub_id (g r) = sub_id r" "sub_status r \<noteq> Retired \<Longrightarrow> sub_status (g r) \<noteq> Retired" for r
    by (simp_all add: g_def f status)
  have subs: "subs (ps_db ?s) = map g (subs (ps_db s))"
    by (simp add: stepped_def update_sub_def sql_update_def g_def)
  have ids: "map sub_id (subs (ps_db ?s)) = map sub_id (subs (ps_db s))"
    by (simp add: subs g(1))
  have "row_spec (g r) = row_spec r" for r
    by (simp add: row_spec_def g_def f)
  moreover have "checkpoint_ok ?s (g r)"
    if r: "r \<in> set (subs (ps_db s))" "sub_id r \<notin> ps_retired s" for r
  proof (cases "sub_id r = sid")
    case True
    have "checkpoint_ok ?s (f r)"
      by (rule checkpoint_ok_advance [OF plane_invD(1) [OF inv r] log])
        (use True r due f settled in \<open>auto simp: stepped_def update_sub_def\<close>)
    with True show ?thesis by (simp add: g_def)
  next
    case False
    have "checkpoint_ok ?s r"
      by (rule checkpoint_ok_mono [OF plane_invD(1) [OF inv r]])
        (use False settled in \<open>auto simp: stepped_def update_sub_def\<close>)
    with False show ?thesis by (simp add: g_def)
  qed
  moreover have "ps_retired ?s = ps_retired s" by (simp add: stepped_def)
  ultimately have rows: "row_spec (g r) \<and> (sub_id (g r) \<notin> ps_retired ?s \<longrightarrow>
      sub_status (g r) \<noteq> Retired \<and> checkpoint_ok ?s (g r))" if "r \<in> set (subs (ps_db s))" for r
    using inv that unfolding plane_inv_def by (simp add: g)
  show ?thesis
    unfolding plane_inv_def ids
  proof (intro conjI ballI)
    show "log_ok ?s" by fact
    show "distinct (map sub_id (subs (ps_db s)))" using inv by (simp add: plane_inv_def)
  qed (use rows in \<open>auto simp: subs\<close>)
qed

lemma plane_inv_deliver:
  assumes inv: "plane_inv s" and claim: "ps_claims s sid = Some (ev, x)" and x: "ps_open s x = Some rows"
  shows "plane_inv (stepped sid ev (release sid x
              ((commit_rows rows s)\<lparr>ps_db := advance_cursor now sid (ev_pos ev) (ps_db (commit_rows rows s))\<rparr>)))"
proof -
  let ?t = "end_tx x (commit_rows rows s)"
  let ?f = "\<lambda>r. r\<lparr>sub_cursor := ev_pos ev, sub_failures := 0, sub_next_attempt := None, sub_error := None,
            sub_updated := now\<rparr>"
  have t: "plane_inv ?t" by (rule plane_inv_commit [OF inv x])
  have "ps_claims ?t sid = Some (ev, x)" "ps_retired ?t = ps_retired s"
    by (simp_all add: end_tx_def commit_rows_def claim)
  then have due: "due_next ?t r ev"
    if "r \<in> set (subs (ps_db ?t))" "sub_id r = sid" "sid \<notin> ps_retired ?t" for r
    using plane_invD(1) [OF t that(1)] that(2,3) unfolding checkpoint_ok_def by blast
  have "plane_inv (stepped sid ev (?t\<lparr>ps_db := update_sub sid ?f (ps_db ?t),
      ps_claims := (ps_claims ?t)(sid := None)\<rparr>))"
    by (rule plane_inv_advance [OF t due]) auto
  moreover have "stepped sid ev (?t\<lparr>ps_db := update_sub sid ?f (ps_db ?t), ps_claims := (ps_claims ?t)(sid := None)\<rparr>)
      = stepped sid ev (release sid x
          ((commit_rows rows s)\<lparr>ps_db := advance_cursor now sid (ev_pos ev) (ps_db (commit_rows rows s))\<rparr>))"
    by (rule plane_state.equality)
      (simp_all add: release_def end_tx_def commit_rows_def advance_cursor_def update_sub_def stepped_def)
  ultimately show ?thesis by simp
qed

lemma find_subD: "find_sub sid db = Some r \<Longrightarrow> r \<in> set (subs db) \<and> sub_id r = sid"
  unfolding find_sub_def by (auto dest: sql_find_Some)

lemma find_sub_unique:
  assumes "distinct (map sub_id (subs db))" and "r \<in> set (subs db)" and "sub_id r = sid"
  shows "find_sub sid db = Some r"
  unfolding find_sub_def by (rule sql_find_key [OF assms(1,2)]) (simp add: assms(3))

lemma plane_inv_skip:
  assumes inv: "plane_inv s" and free: "ps_claims s sid = None" and m: "frontier m s"
    and sk: "skip_tx now m sid reason (ps_db s) = Ok (ev, db')"
  shows "plane_inv (stepped sid ev (s\<lparr>ps_db := db'\<rparr>))"
proof -
  obtain r where r: "find_sub sid (ps_db s) = Some r"
      "next_event m (sub_topic r) (sub_version r) (sub_cursor r) (ps_db s) = Some ev"
      "db' = update_sub sid (skip_row now ev reason) (ps_db s)"
    using sk by (auto simp: skip_tx_def split: option.splits if_splits)
  have due: "due_next s q ev"
    if q: "q \<in> set (subs (ps_db s))" "sub_id q = sid" "sid \<notin> ps_retired s" for q
  proof -
    have "q = r" using find_sub_unique [OF _ q(1,2)] r(1) inv by (simp add: plane_inv_def)
    with next_event_due [OF inv q(1) _ m] q r(2) show ?thesis by simp
  qed
  have "plane_inv (stepped sid ev (s\<lparr>ps_db := update_sub sid (skip_row now ev reason) (ps_db s),
      ps_claims := (ps_claims s)(sid := None)\<rparr>))"
    by (rule plane_inv_advance [OF inv due]) (auto simp: skip_row_def)
  moreover have "(ps_claims s)(sid := None) = ps_claims s" using free by auto
  ultimately show ?thesis using r(3) by simp
qed

lemma plane_inv_claim:
  assumes inv: "plane_inv s"
    and row: "claim_due now False (en_id entry) (ps_db s) = Some row" "sub_hash row = spec_hash entry"
    and m: "frontier m s"
    and ev: "next_event m (en_topic entry) (worker_version entry) (sub_cursor row) (ps_db s) = Some ev"
  shows "plane_inv (s\<lparr>ps_claims := (ps_claims s)(en_id entry \<mapsto> (ev, x))\<rparr>)" (is "plane_inv ?s")
proof -
  have in_row: "row \<in> set (subs (ps_db s))" "sub_id row = en_id entry"
    using row(1) by (auto simp: claim_due_def dest: sql_find_Some)
  obtain e0 where "sub_hash row = spec_hash e0" "sub_topic row = en_topic e0"
      "i32_try_from (en_version e0) = Some (sub_version row)"
    using inv in_row(1) unfolding plane_inv_def row_spec_def by blast
  then have "en_topic entry = sub_topic row" "worker_version entry = sub_version row"
    using row(2) by (auto simp: spec_hash_eq_iff worker_version_def)
  with ev have ev': "next_event m (sub_topic row) (sub_version row) (sub_cursor row) (ps_db s) = Some ev"
    by simp
  have due: "due_next s r ev" if r: "r \<in> set (subs (ps_db s))" "sub_id r = en_id entry" "sub_id r \<notin> ps_retired s" for r
  proof -
    have "r = row"
      using find_sub_unique [OF _ in_row] find_sub_unique [OF _ r(1,2)] inv by (simp add: plane_inv_def)
    with next_event_due [OF inv in_row(1) _ m ev'] r(3) show ?thesis by simp
  qed
  have d: "due_next ?s = due_next s"
    by (simp add: due_next_def settled_def generation_def fun_eq_iff)
  have "checkpoint_ok ?s r" if r: "r \<in> set (subs (ps_db s))" "sub_id r \<notin> ps_retired s" for r
    using plane_invD(1) [OF inv r] due [OF r(1) _ r(2)]
    unfolding checkpoint_ok_def d by (auto simp: settled_def generation_def)
  moreover have "log_ok ?s = log_ok s"
    by (simp add: log_ok_def pending_def generation_def)
  ultimately show ?thesis
    using inv unfolding plane_inv_def by auto
qed

lemma plane_inv_gc:
  assumes inv: "plane_inv s" and gc: "gc_batch now topic version days (ps_db s) = (n, db')"
  shows "plane_inv (s\<lparr>ps_db := db'\<rparr>)" (is "plane_inv ?s")
proof -
  obtain es where db': "db' = (ps_db s)\<lparr>events := es\<rparr>"
    using gc_batch_frame(1) [OF gc] by blast
  have es: "set es \<subseteq> set (events (ps_db s))" using gc_batchD(1) [OF gc] db' by simp
  have log: "log_ok s" using inv by (simp add: plane_inv_def)
  have "log_ok ?s"
    by (rule log_ok_frame [OF log]) (use log es in \<open>auto simp: log_ok_def db'\<close>)
  moreover have d: "due_next ?s = due_next s" "settled ?s = settled s"
    by (simp_all add: due_next_def settled_def generation_def fun_eq_iff db')
  moreover have "checkpoint_ok ?s r" if r: "r \<in> set (subs (ps_db s))" "sub_id r \<notin> ps_retired s" for r
  proof -
    have ok: "checkpoint_ok s r" and st: "sub_status r \<noteq> Retired" using plane_invD [OF inv r] by auto
    have "e \<in> set es" if e: "e \<in> set (events (ps_db s))" "matches r e" "sub_cursor r < ev_pos e" for e
    proof (rule ccontr)
      assume "e \<notin> set es"
      then have "gc_candidate now topic version days (subs (ps_db s)) e"
        using gc_batchD(2) [OF gc e(1)] by (simp add: db')
      moreover have "sub_status r = Active \<or> sub_status r = Paused"
        using st by (cases "sub_status r") auto
      ultimately show False
        using r(1) e(2,3) less_imp_le [OF e(3)] unfolding gc_candidate_def blocks_gc_def matches_def by auto
    qed
    then have "{e \<in> ps_log s (sub_id r). matches r e \<and> sub_cursor r < ev_pos e} \<subseteq> set es"
      using ok unfolding checkpoint_ok_def by blast
    moreover have "set es \<subseteq> ps_log s (sub_id r)"
      using ok es unfolding checkpoint_ok_def by blast
    ultimately show ?thesis
      using ok unfolding checkpoint_ok_def d by (simp add: db')
  qed
  ultimately show ?thesis
    using inv unfolding plane_inv_def by (simp add: db')
qed

lemma insert_subscriptionD:
  assumes "insert_subscription tx entry version db = Ok db'"
  shows "plane_meta db' = plane_meta db \<and> events db' = events db \<and> next_tie db' = next_tie db
    \<and> (subs db' = subs db \<or> (find_sub (en_id entry) db = None \<and>
        (\<exists>row. subs db' = subs db @ [row] \<and> sub_id row = en_id entry \<and> sub_topic row = en_topic entry
           \<and> sub_hash row = spec_hash entry \<and> sub_version row = version \<and> sub_status row = Active)))"
  using assms by (auto simp: insert_subscription_def find_sub_def split: option.splits if_splits)

lemma reconcile_oneD:
  assumes "reconcile_one tx entry db = (verdict, db')"
  shows "plane_meta db' = plane_meta db \<and> events db' = events db \<and> next_tie db' = next_tie db
    \<and> (subs db' = subs db \<or> (find_sub (en_id entry) db = None \<and>
        (\<exists>row. subs db' = subs db @ [row] \<and> sub_id row = en_id entry \<and> sub_topic row = en_topic entry
           \<and> sub_hash row = spec_hash entry \<and> i32_try_from (en_version entry) = Some (sub_version row)
           \<and> sub_status row = Active)))"
proof (cases "i32_try_from (en_version entry)")
  case None
  with assms show ?thesis by (auto simp: reconcile_one_def Let_def)
next
  case (Some v)
  define hist where "hist = (case en_history entry of None \<Rightarrow> Ok db
      | Some h \<Rightarrow> ensure_history_contract (en_topic entry) (en_version entry) h db)"
  have frame: "plane_meta db1 = plane_meta db \<and> events db1 = events db \<and> next_tie db1 = next_tie db
      \<and> subs db1 = subs db" if "hist = Ok db1" for db1
    using that ensure_history_frame unfolding hist_def by (auto split: option.splits)
  show ?thesis
  proof (cases hist)
    case (Inl e)
    with assms Some show ?thesis by (simp add: reconcile_one_def Let_def hist_def [symmetric])
  next
    case (Inr db1)
    have "db' = db1 \<or> insert_subscription tx entry v db1 = Ok db'"
      using assms Some Inr
      by (auto simp: reconcile_one_def Let_def hist_def [symmetric] split: sum.splits option.splits if_splits)
    then show ?thesis
      using frame [OF Inr] insert_subscriptionD [of tx entry v db1 db'] Some
      by (auto simp: find_sub_def)
  qed
qed

text \<open>A database change outside the log and the checkpoints.\<close>

lemma plane_inv_db:
  assumes inv: "plane_inv s"
    and db: "plane_meta db' = plane_meta (ps_db s) \<and> events db' = events (ps_db s)
      \<and> next_tie db' = next_tie (ps_db s) \<and> subs db' = subs (ps_db s)"
  shows "plane_inv (s\<lparr>ps_db := db'\<rparr>)"
proof (rule plane_inv_frame [OF inv, where f = "\<lambda>r. r"])
  have log: "log_ok s" using inv by (simp add: plane_inv_def)
  show "log_ok (s\<lparr>ps_db := db'\<rparr>)"
    by (rule log_ok_frame [OF log]) (use log db in \<open>auto simp: log_ok_def\<close>)
  show "settled (s\<lparr>ps_db := db'\<rparr>) p" if "settled s p" for p
    using that by (rule settled_mono) (use db in \<open>auto simp: generation_def\<close>)
qed (use db in auto)

lemma plane_inv_register:
  assumes inv: "plane_inv s" and rec: "reconcile_one tx entry (ps_db s) = (verdict, db')"
  shows "plane_inv (registered entry db' s)"
proof (cases "subs db' = subs (ps_db s)")
  case True
  then have "find_sub (en_id entry) db' = find_sub (en_id entry) (ps_db s)"
    by (simp add: find_sub_def)
  then have "registered entry db' s = s\<lparr>ps_db := db'\<rparr>"
    by (simp add: registered_def split: option.splits)
  moreover have "plane_inv (s\<lparr>ps_db := db'\<rparr>)"
    by (rule plane_inv_db [OF inv]) (use reconcile_oneD [OF rec] True in blast)
  ultimately show ?thesis by simp
next
  case False
  then obtain row where new: "find_sub (en_id entry) (ps_db s) = None" "subs db' = subs (ps_db s) @ [row]"
      "sub_id row = en_id entry" "row_spec row" "sub_status row = Active"
    and db: "plane_meta db' = plane_meta (ps_db s)" "events db' = events (ps_db s)"
      "next_tie db' = next_tie (ps_db s)"
    using reconcile_oneD [OF rec] unfolding row_spec_def by metis
  let ?s = "registered entry db' s"
  have others: "sub_id r \<noteq> en_id entry" if "r \<in> set (subs (ps_db s))" for r
    using new(1) that by (auto simp: find_sub_def sql_find_None)
  have "find_sub (en_id entry) db' = Some row"
    using new by (simp add: find_sub_def sql_find_append)
  then have s: "?s = s\<lparr>ps_db := db', ps_log := (ps_log s)(en_id entry := set (events db')),
      ps_done := (ps_done s)(en_id entry := []), ps_start := (ps_start s)(en_id entry := sub_cursor row),
      ps_claims := (ps_claims s)(en_id entry := None)\<rparr>"
    using new(1) by (simp add: registered_def)
  have log: "log_ok s" using inv by (simp add: plane_inv_def)
  have "log_ok ?s"
    unfolding s by (rule log_ok_frame [OF log]) (use log db in \<open>auto simp: log_ok_def\<close>)
  moreover have "settled ?s p" if "settled s p" for p
    using that unfolding s by (rule settled_mono) (use db in \<open>auto simp: generation_def\<close>)
  then have "checkpoint_ok ?s r" if "r \<in> set (subs (ps_db s))" "sub_id r \<notin> ps_retired s" for r
    using others [OF that(1)] db unfolding s
    by (intro checkpoint_ok_mono [OF plane_invD(1) [OF inv that]]) auto
  moreover have "checkpoint_ok ?s row"
    by (auto simp: checkpoint_ok_def s new(3))
  moreover have "distinct (map sub_id (subs db'))"
  proof -
    have "sub_id row \<notin> sub_id ` set (subs (ps_db s))" using others new(3) by force
    with inv show ?thesis by (simp add: new(2) plane_inv_def)
  qed
  ultimately show ?thesis
    using inv new(2,4,5) unfolding plane_inv_def by (auto simp: s)
qed

lemma plane_inv_begin:
  assumes inv: "plane_inv s"
  shows "plane_inv (s\<lparr>ps_open := (ps_open s)(ps_next_xid s \<mapsto> []), ps_next_xid := Suc (ps_next_xid s)\<rparr>)"
    (is "plane_inv ?s")
proof (rule plane_inv_frame [OF inv, where f = "\<lambda>r. r"])
  have log: "log_ok s" using inv by (simp add: plane_inv_def)
  show "log_ok ?s"
    by (rule log_ok_frame [OF log]) (use log in \<open>auto simp: log_ok_def split: if_splits\<close>)
  show "settled ?s p" if "settled s p" for p
    using that by (rule settled_mono) (auto simp: generation_def)
qed auto

lemma plane_inv_append:
  assumes inv: "plane_inv s" and x: "ps_open s x = Some rows" "xact_id tx = x"
    and app: "append_event tx eid topic version payload
           ((ps_db s)\<lparr>events := events (ps_db s) @ rows\<rparr>) = Ok (eid, view)"
  shows "plane_inv (s\<lparr>ps_open := (ps_open s)(x \<mapsto> drop (length (events (ps_db s))) (events view)),
                      ps_db := (ps_db s)\<lparr>next_tie := next_tie view\<rparr>\<rparr>)" (is "plane_inv ?s")
proof (rule plane_inv_frame [OF inv, where f = "\<lambda>r. r"])
  have log: "log_ok s" using inv by (simp add: plane_inv_def)
  show "log_ok ?s" by (rule log_ok_append [OF log x app])
  show "settled ?s p" if "settled s p" for p
    using that by (rule settled_mono) (use x in \<open>auto simp: generation_def split: if_splits\<close>)
qed auto

lemma plane_inv_bump:
  assumes inv: "plane_inv s" and none: "\<forall>rows \<in> ran (ps_open s). rows = []"
    and b: "bump_generation identity (ps_db s) = Ok (g, db')"
  shows "plane_inv (s\<lparr>ps_db := db'\<rparr>)"
proof (rule plane_inv_frame [OF inv, where f = "\<lambda>r. r"])
  have log: "log_ok s" using inv by (simp add: plane_inv_def)
  show "log_ok (s\<lparr>ps_db := db'\<rparr>)" by (rule log_ok_bump(1) [OF log none b])
  show "settled (s\<lparr>ps_db := db'\<rparr>) p" if "settled s p" for p
    using that by (rule settled_mono) (use log_ok_bump(2) [OF log none b] in auto)
qed (use bump_generationD [OF b] in auto)

lemmas plane_inv_steps =
  plane_inv_begin plane_inv_append plane_inv_commit plane_inv_end_tx plane_inv_bump plane_inv_register
  plane_inv_claim plane_inv_deliver plane_inv_release plane_inv_record_failure plane_inv_skip plane_inv_gc

lemma plane_step_inv: "plane_step s s' \<Longrightarrow> plane_inv s \<Longrightarrow> plane_inv s'"
proof (induction rule: plane_step.induct)
  case (history topic v h s db')
  then show ?case by (rule plane_inv_db [rotated, OF ensure_history_frame])
next
  case (op_retry s sid now)
  then show ?case by (intro plane_inv_update_sub) (auto simp: retry_row_def)
next
  case (op_pause s sid now)
  then show ?case by (intro plane_inv_update_sub) (auto simp: set_state_row_def)
next
  case (op_resume s sid now)
  then show ?case by (intro plane_inv_update_sub) (auto simp: resume_row_def)
next
  case (op_retire s sid now)
  then show ?case
    using plane_inv_update [of s "set_state_row Retired now" "\<lambda>r. sub_id r = sid" "insert sid (ps_retired s)"]
    by (auto simp: update_sub_def set_state_row_def)
next
  case (lost s sid ev x)
  then show ?case by (blast intro: plane_inv_release)
qed (blast intro: plane_inv_steps)+

lemma plane_init_inv: "plane_init s \<Longrightarrow> plane_inv s"
  by (auto simp: plane_init_def plane_inv_def log_ok_def pending_def)

interpretation plane_sys: invariant_system plane_init plane_step plane_inv
  by unfold_locales (auto intro: plane_init_inv plane_step_inv)


lemma reachable_checkpoint:
  assumes "plane_init s0" and "plane_step\<^sup>*\<^sup>* s0 s"
    and "find_sub sid (ps_db s) = Some r" and "sid \<notin> ps_retired s"
  shows "checkpoint_ok s r" and "sub_id r = sid"
proof -
  have "plane_inv s" using plane_sys.reachable_inv assms(1,2) by blast
  then show "checkpoint_ok s r" and "sub_id r = sid"
    using find_subD [OF assms(3)] assms(4) by (auto intro: plane_invD)
qed

section \<open>A run\<close>

definition demo_entry :: sub_entry where
  "demo_entry = \<lparr>en_id = ''s'', en_start = Genesis, en_topic = ''t'', en_version = 1, en_history = None\<rparr>"

definition demo_tx :: pg_tx where
  "demo_tx = \<lparr>xact_id = 5, xact_now = 0\<rparr>"

definition demo_row :: event_row where
  "demo_row = \<lparr>ev_gen = 1, ev_xid = 5, ev_tie = 1, ev_id = ''e'', ev_topic = ''t'', ev_version = 1,
     ev_payload = ''{}'', ev_created = 0\<rparr>"

definition demo_init :: plane_state where
  "demo_init = \<lparr>ps_db = \<lparr>plane_meta = Some \<lparr>meta_generation = 1, meta_identity = ''c''\<rparr>, events = [],
       next_tie = 1, notifications = [], subs = [], histories = []\<rparr>,
     ps_open = Map.empty, ps_next_xid = 5, ps_claims = Map.empty, ps_all = {}, ps_log = (\<lambda>_. {}),
     ps_done = (\<lambda>_. []), ps_start = (\<lambda>_. Position 0 0 0), ps_retired = {}\<rparr>"

definition demo_registered :: plane_state where
  "demo_registered = registered demo_entry (snd (reconcile_one demo_tx demo_entry (ps_db demo_init))) demo_init"

definition demo_appended :: plane_state where
  "demo_appended = demo_registered\<lparr>ps_open := [5 \<mapsto> [demo_row]], ps_next_xid := 6,
     ps_db := (ps_db demo_registered)\<lparr>next_tie := 2\<rparr>\<rparr>"

definition demo_claimed :: plane_state where
  "demo_claimed = (end_tx 5 (commit_rows [demo_row] demo_appended))\<lparr>ps_open := [6 \<mapsto> []],
     ps_next_xid := 7, ps_claims := [''s'' \<mapsto> (demo_row, 6)]\<rparr>"

definition demo_delivered :: plane_state where
  "demo_delivered = stepped ''s'' demo_row (release ''s'' 6 ((commit_rows [] demo_claimed)
     \<lparr>ps_db := advance_cursor 3 ''s'' (ev_pos demo_row) (ps_db (commit_rows [] demo_claimed))\<rparr>))"

lemmas demo_defs = demo_entry_def demo_tx_def demo_row_def demo_init_def demo_registered_def
  demo_appended_def demo_claimed_def demo_delivered_def

lemma demo_registered_eq: "demo_registered = demo_init\<lparr>
     ps_db := (ps_db demo_init)\<lparr>subs := [\<lparr>sub_id = ''s'', sub_topic = ''t'', sub_version = 1,
        sub_status = Active, sub_cursor = Position 0 0 0, sub_next_attempt = None, sub_failures = 0,
        sub_error = None, sub_hash = spec_hash demo_entry, sub_start_kind = ''genesis'', sub_updated = 0\<rparr>]\<rparr>\<rparr>"
  by (rule plane_state.equality)
    (simp_all add: demo_defs registered_def reconcile_one_def insert_subscription_def i32_try_from_def
      i32_max_def initial_cursor_def start_kind_def find_sub_def Let_def fun_eq_iff)

lemma demo_append: "plane_step\<^sup>*\<^sup>* demo_registered demo_appended"
proof -
  let ?s = "demo_registered\<lparr>ps_open := (ps_open demo_registered)(ps_next_xid demo_registered \<mapsto> []),
      ps_next_xid := Suc (ps_next_xid demo_registered)\<rparr>"
  let ?view = "(ps_db ?s)\<lparr>events := [demo_row], next_tie := 2, notifications := [''t'']\<rparr>"
  have "plane_step ?s (?s\<lparr>ps_open := (ps_open ?s)(5 \<mapsto> drop (length (events (ps_db ?s))) (events ?view)),
      ps_db := (ps_db ?s)\<lparr>next_tie := next_tie ?view\<rparr>\<rparr>)"
    by (rule plane_step.append_row [where rows = "[]" and tx = demo_tx and eid = "''e''" and topic = "''t''"
          and version = 1 and payload = "''{}''"])
      (simp_all add: demo_registered_eq demo_init_def demo_tx_def demo_row_def append_event_def)
  moreover have "?s\<lparr>ps_open := (ps_open ?s)(5 \<mapsto> drop (length (events (ps_db ?s))) (events ?view)),
      ps_db := (ps_db ?s)\<lparr>next_tie := next_tie ?view\<rparr>\<rparr> = demo_appended"
    by (rule plane_state.equality) (simp_all add: demo_appended_def demo_registered_eq demo_init_def)
  ultimately show ?thesis
    using plane_step.begin_tx [of demo_registered] by simp
qed

lemma demo_claim: "plane_step\<^sup>*\<^sup>* demo_appended demo_claimed"
proof -
  let ?c = "end_tx 5 (commit_rows [demo_row] demo_appended)"
  let ?b = "?c\<lparr>ps_open := (ps_open ?c)(ps_next_xid ?c \<mapsto> []), ps_next_xid := Suc (ps_next_xid ?c)\<rparr>"
  let ?row = "\<lparr>sub_id = ''s'', sub_topic = ''t'', sub_version = 1, sub_status = Active,
      sub_cursor = Position 0 0 0, sub_next_attempt = None, sub_failures = 0, sub_error = None,
      sub_hash = spec_hash demo_entry, sub_start_kind = ''genesis'', sub_updated = 0\<rparr>"
  have db: "ps_db ?b = (ps_db demo_registered)\<lparr>events := [demo_row], next_tie := 2, notifications := [''t'']\<rparr>"
    by (simp add: end_tx_def commit_rows_def demo_appended_def demo_registered_eq demo_init_def demo_row_def)
  have "plane_step demo_appended ?c"
    by (rule plane_step.commit_tx) (simp_all add: demo_appended_def demo_registered_eq demo_init_def idle_def)
  moreover have "plane_step ?c ?b" by (rule plane_step.begin_tx)
  moreover have "plane_step ?b (?b\<lparr>ps_claims := (ps_claims ?b)(en_id demo_entry \<mapsto> (demo_row, 6))\<rparr>)"
  proof (rule plane_step.claim [where now = 1 and row = ?row and m = 6])
    show "claim_due 1 False (en_id demo_entry) (ps_db ?b) = Some ?row"
      unfolding db by (simp add: claim_due_def demo_registered_eq demo_entry_def)
    show "next_event 6 (en_topic demo_entry) (worker_version demo_entry) (sub_cursor ?row) (ps_db ?b) = Some demo_row"
      unfolding db by (simp add: next_event_def sql_first_def eligible_def demo_entry_def demo_row_def
          worker_version_def i32_try_from_def i32_max_def ev_pos_def)
  qed (simp_all add: frontier_def idle_def end_tx_def commit_rows_def demo_appended_def demo_registered_eq
      demo_init_def)
  moreover have "?b\<lparr>ps_claims := (ps_claims ?b)(en_id demo_entry \<mapsto> (demo_row, 6))\<rparr> = demo_claimed"
    by (rule plane_state.equality) (simp_all add: demo_claimed_def end_tx_def commit_rows_def
        demo_appended_def demo_registered_eq demo_init_def demo_entry_def fun_eq_iff)
  ultimately show ?thesis
    by (simp add: converse_rtranclp_into_rtranclp)
qed

lemma demo_run: "plane_step\<^sup>*\<^sup>* demo_init demo_delivered"
proof -
  have "plane_step demo_init demo_registered"
    unfolding demo_registered_def by (rule plane_step.register) (rule prod.collapse [symmetric])
  moreover have "plane_step demo_claimed demo_delivered"
    unfolding demo_delivered_def by (rule plane_step.deliver) (simp_all add: demo_claimed_def)
  ultimately show ?thesis
    using demo_append demo_claim by (meson converse_rtranclp_into_rtranclp rtranclp.rtrancl_into_rtrancl rtranclp_trans)
qed

lemma demo_init_ok: "plane_init demo_init"
  by (simp add: plane_init_def demo_init_def)

lemma demo_sub: "\<exists>r. find_sub ''s'' (ps_db demo_delivered) = Some r \<and> sub_topic r = ''t'' \<and> sub_version r = 1
    \<and> sub_cursor r = Position 1 5 1"
  by (simp add: demo_delivered_def demo_claimed_def demo_appended_def demo_registered_eq demo_init_def
      stepped_def release_def end_tx_def commit_rows_def advance_cursor_def find_sub_def ev_pos_def demo_row_def)

lemma demo_done: "ps_done demo_delivered ''s'' = [demo_row]" "''s'' \<notin> ps_retired demo_delivered"
  by (simp_all add: demo_delivered_def demo_claimed_def demo_appended_def demo_registered_eq demo_init_def
      stepped_def release_def end_tx_def commit_rows_def)





end
