(* ===== verification/Opsapi.thy ===== *)
theory Opsapi
  imports Swarog_Prelude
begin

text \<open>
  The operation vocabulary every service answers with (\<open>core/opsapi/src/lib.rs\<close>): the status
  taxonomy, the typed error, the HTTP mapping and the caller's verified identity.
\<close>

datatype status =
  Status_ok | Not_found | Forbidden | Invalid | Unavailable | Internal | Unauthorized | Conflict

record op_error =
  err_status :: status
  err_msg :: string

definition op_err :: "status \<Rightarrow> string \<Rightarrow> op_error" where
  "op_err s msg = \<lparr>err_status = s, err_msg = msg\<rparr>"

definition http :: "status \<Rightarrow> nat" where
  "http s = (case s of
     Status_ok \<Rightarrow> 200 | Not_found \<Rightarrow> 404 | Forbidden \<Rightarrow> 403 | Invalid \<Rightarrow> 400 | Unavailable \<Rightarrow> 503
   | Internal \<Rightarrow> 500 | Unauthorized \<Rightarrow> 401 | Conflict \<Rightarrow> 409)"

definition is_definitive_answer :: "status \<Rightarrow> bool" where
  "is_definitive_answer s = (case s of Not_found \<Rightarrow> True | Invalid \<Rightarrow> True | _ \<Rightarrow> False)"

definition status_of :: "op_error option \<Rightarrow> status" where
  "status_of e = (case e of None \<Rightarrow> Status_ok | Some e \<Rightarrow> err_status e)"

text \<open>\<open>Identity\<close> is opaque; the empty id is no identity.\<close>

datatype identity = Identity "string option"

definition identity_none :: identity where
  "identity_none = Identity None"

definition identity_player :: "string \<Rightarrow> identity" where
  "identity_player pid = (if pid = [] then Identity None else Identity (Some pid))"

definition player_id :: "identity \<Rightarrow> string option" where
  "player_id i = (case i of Identity p \<Rightarrow> p)"

lemma op_err_sel [simp]: "err_status (op_err s m) = s" "err_msg (op_err s m) = m"
  by (simp_all add: op_err_def)

lemma op_err_eq [simp]: "op_err s m = op_err s' m' \<longleftrightarrow> s = s' \<and> m = m'"
  by (simp add: op_err_def)

lemma http_inj: "http s = http s' \<longleftrightarrow> s = s'"
  by (cases s; cases s') (simp_all add: http_def)

end
