(* ===== verification/Wallet_Store.thy ===== *)
theory Wallet_Store
  imports Event_Worker Opsapi
begin

text \<open>
  The wallet's tables and the statements on them (\<open>modules/wallet/src/lib.rs\<close>, DDL, and
  \<open>modules/wallet/src/store.rs\<close>). The \<open>uuid\<close> input function, the clock, fresh ids, and
  which statement the connection fails on are the environment of a call.
\<close>

section \<open>Tables\<close>

record currency_row =
  cur_code :: string
  cur_name :: string
  cur_kind :: string
  cur_decimals :: int

record balance_row =
  bal_player :: string
  bal_currency :: string
  bal_amount :: int
  bal_updated :: instant

record ledger_row =
  lg_seq :: int
  lg_id :: string
  lg_key :: string
  lg_player :: string
  lg_currency :: string
  lg_delta :: int
  lg_after :: int
  lg_reason :: string

record purged_row =
  pg_player :: string
  pg_handle :: string
  pg_created :: instant
  pg_swept :: "instant option"

record wallet_db =
  currencies :: "currency_row list"
  balances :: "balance_row list"
  ledger :: "ledger_row list"
  next_seq :: int
  purged :: "purged_row list"

datatype wallet_stmt =
  W_begin | W_purged | W_ledger | W_existing | W_update | W_known | W_insert | W_stamp | W_commit
| W_read | W_plant | W_due | W_erase | W_reown | W_swept

record changed =
  ch_player :: string
  ch_currency :: string
  ch_delta :: int
  ch_after :: int
  ch_reason :: string
  ch_ledger :: string

text \<open>
  \<open>we_text\<close> is the text of a database error, \<open>we_encode\<close> the JSON encoder, \<open>we_json\<close> the \<open>jsonb\<close> input;
  \<open>we_interim\<close> is what other sessions commit between the tombstone check of a movement and its
  ledger insert.
\<close>

record wallet_env =
  we_uuid :: "string \<Rightarrow> string option"
  we_tx :: pg_tx
  we_ledger_id :: string
  we_event_id :: string
  we_text :: "sql_error \<Rightarrow> string"
  we_bus_text :: "bus_error \<Rightarrow> string"
  we_transport :: bool
  we_encode :: "changed \<Rightarrow> string option"
  we_json :: "string \<Rightarrow> string option"
  we_fault :: "wallet_stmt \<Rightarrow> bool"
  we_commit_applied :: bool
  we_interim :: "wallet_db store \<Rightarrow> wallet_db store"

definition max_balance :: int where "max_balance = 1000000000000000"

section \<open>Error classification\<close>

definition is_out_of_range :: "sql_error \<Rightarrow> bool" where
  "is_out_of_range e = (case e of Sqlstate c k \<Rightarrow> c = ''23514'' \<and> k = Some ''balances_amount_check'')"

definition is_unknown_currency :: "sql_error \<Rightarrow> bool" where
  "is_unknown_currency e = (case e of Sqlstate c k \<Rightarrow> c = ''23503'' \<and> k = Some ''balances_currency_fkey'')"

definition is_invalid_uuid :: "sql_error \<Rightarrow> bool" where
  "is_invalid_uuid e = (case e of Sqlstate c k \<Rightarrow> c = ''22P02'')"

datatype balance_error = Unknown_currency | Out_of_range | Balance_sql sql_error

section \<open>Movements\<close>

definition insert_ledger_tx ::
    "wallet_env \<Rightarrow> string \<Rightarrow> string \<Rightarrow> string \<Rightarrow> int \<Rightarrow> string \<Rightarrow> wallet_db
       \<Rightarrow> (sql_error, (string \<times> string) option \<times> wallet_db) result" where
  "insert_ledger_tx env key player currency delta reason db =
     (if we_fault env W_ledger then Err conn_lost
      else case we_uuid env player of
        None \<Rightarrow> Err bad_uuid
      | Some u \<Rightarrow>
          if sql_find (\<lambda>l. lg_key l = key) (ledger db) \<noteq> None
          then Ok (None, db\<lparr>next_seq := next_seq db + 1\<rparr>)
          else if sql_find (\<lambda>l. lg_id l = we_ledger_id env) (ledger db) \<noteq> None
          then Err (Sqlstate ''23505'' (Some ''ledger_pkey''))
          else Ok (Some (we_ledger_id env, u),
            db\<lparr>ledger := ledger db @
                 [\<lparr>lg_seq = next_seq db, lg_id = we_ledger_id env, lg_key = key, lg_player = u,
                   lg_currency = currency, lg_delta = delta, lg_after = 0, lg_reason = reason\<rparr>],
               next_seq := next_seq db + 1\<rparr>))"

definition is_player_purged_tx :: "wallet_env \<Rightarrow> string \<Rightarrow> wallet_db \<Rightarrow> (sql_error, bool) result" where
  "is_player_purged_tx env player db =
     (if we_fault env W_purged then Err conn_lost
      else case we_uuid env player of
        None \<Rightarrow> Err bad_uuid
      | Some u \<Rightarrow> Ok (sql_find (\<lambda>p. pg_player p = u) (purged db) \<noteq> None))"

record existing_movement =
  ex_player :: string
  ex_currency :: string
  ex_delta :: int
  ex_reason :: string
  ex_after :: int

definition existing_ledger_tx ::
    "wallet_env \<Rightarrow> string \<Rightarrow> wallet_db \<Rightarrow> (sql_error, existing_movement option) result" where
  "existing_ledger_tx env key db =
     (if we_fault env W_existing then Err conn_lost
      else Ok (map_option (\<lambda>l. \<lparr>ex_player = lg_player l, ex_currency = lg_currency l,
               ex_delta = lg_delta l, ex_reason = lg_reason l, ex_after = lg_after l\<rparr>)
             (sql_find (\<lambda>l. lg_key l = key) (ledger db))))"

definition currency_exists_tx :: "wallet_env \<Rightarrow> string \<Rightarrow> wallet_db \<Rightarrow> (sql_error, bool) result" where
  "currency_exists_tx env code db =
     (if we_fault env W_known then Err conn_lost
      else Ok (sql_find (\<lambda>c. cur_code c = code) (currencies db) \<noteq> None))"

text \<open>The bounds every write of \<open>balances.amount\<close> meets: the \<open>bigint\<close> range, then the CHECK.\<close>

definition check_amount :: "int \<Rightarrow> sql_error option" where
  "check_amount a =
     (if a < i64_min \<or> a > i64_max then Some (Sqlstate ''22003'' None)
      else if a < 0 \<or> a > max_balance then Some (Sqlstate ''23514'' (Some ''balances_amount_check''))
      else None)"

definition set_amount :: "instant \<Rightarrow> string \<Rightarrow> string \<Rightarrow> int \<Rightarrow> wallet_db \<Rightarrow> wallet_db" where
  "set_amount now u currency a db = db\<lparr>balances := sql_update
     (\<lambda>b. bal_player b = u \<and> bal_currency b = currency)
     (\<lambda>b. b\<lparr>bal_amount := a, bal_updated := now\<rparr>) (balances db)\<rparr>"

definition apply_balance_tx ::
    "wallet_env \<Rightarrow> string \<Rightarrow> string \<Rightarrow> int \<Rightarrow> wallet_db \<Rightarrow> (balance_error, int \<times> wallet_db) result" where
  "apply_balance_tx env player currency delta db =
     (if we_fault env W_update then Err (Balance_sql conn_lost)
      else case we_uuid env player of
        None \<Rightarrow> Err (Balance_sql bad_uuid)
      | Some u \<Rightarrow>
          (case sql_find (\<lambda>b. bal_player b = u \<and> bal_currency b = currency) (balances db) of
             Some b \<Rightarrow>
               (case check_amount (bal_amount b + delta) of
                  Some e \<Rightarrow> Err (Balance_sql e)
                | None \<Rightarrow> Ok (bal_amount b + delta,
                            set_amount (xact_now (we_tx env)) u currency (bal_amount b + delta) db))
           | None \<Rightarrow>
               if delta < 0 then
                 (case currency_exists_tx env currency db of
                    Inl e \<Rightarrow> Err (Balance_sql e)
                  | Inr known \<Rightarrow> Err (if known then Out_of_range else Unknown_currency))
               else if we_fault env W_insert then Err (Balance_sql conn_lost)
               else case check_amount delta of
                 Some e \<Rightarrow> Err (Balance_sql e)
               | None \<Rightarrow>
                   if sql_find (\<lambda>c. cur_code c = currency) (currencies db) = None
                   then Err (Balance_sql (Sqlstate ''23503'' (Some ''balances_currency_fkey'')))
                   else Ok (delta, db\<lparr>balances := balances db @
                     [\<lparr>bal_player = u, bal_currency = currency, bal_amount = delta,
                       bal_updated = xact_now (we_tx env)\<rparr>]\<rparr>)))"

definition set_balance_after_tx ::
    "wallet_env \<Rightarrow> string \<Rightarrow> int \<Rightarrow> wallet_db \<Rightarrow> (sql_error, wallet_db) result" where
  "set_balance_after_tx env ledger_id after db =
     (if we_fault env W_stamp then Err conn_lost
      else Ok (db\<lparr>ledger := sql_update (\<lambda>l. lg_id l = ledger_id)
                  (\<lambda>l. l\<lparr>lg_after := after, lg_seq := next_seq db\<rparr>) (ledger db),
                  next_seq := next_seq db + 1\<rparr>))"

section \<open>Deleted players\<close>

definition purge_sentinel :: string where
  "purge_sentinel = ''00000000-0000-0000-0000-000000000000''"

definition purge_player_tx :: "wallet_env \<Rightarrow> string \<Rightarrow> wallet_db \<Rightarrow> (sql_error, wallet_db) result" where
  "purge_player_tx env player db =
     (if we_fault env W_erase then Err conn_lost
      else case we_uuid env player of
        None \<Rightarrow> Err bad_uuid
      | Some u \<Rightarrow>
          if we_fault env W_reown then Err conn_lost
          else Ok (db\<lparr>balances := sql_delete (\<lambda>b. bal_player b = u) (balances db),
                      ledger := sql_update (\<lambda>l. lg_player l = u)
                        (\<lambda>l. l\<lparr>lg_player := purge_sentinel\<rparr>) (ledger db)\<rparr>))"

definition plant_purged_player_tx ::
    "wallet_env \<Rightarrow> string \<Rightarrow> string \<Rightarrow> wallet_db \<Rightarrow> (sql_error, wallet_db) result" where
  "plant_purged_player_tx env player handle db =
     (if we_fault env W_plant then Err conn_lost
      else case we_uuid env player of
        None \<Rightarrow> Err bad_uuid
      | Some u \<Rightarrow>
          if sql_find (\<lambda>p. pg_player p = u) (purged db) \<noteq> None then Ok db
          else Ok (db\<lparr>purged := purged db @
            [\<lparr>pg_player = u, pg_handle = handle, pg_created = xact_now (we_tx env), pg_swept = None\<rparr>]\<rparr>))"

section \<open>Reads and the catalog\<close>

definition list_balances :: "wallet_env \<Rightarrow> string \<Rightarrow> wallet_db \<Rightarrow> (sql_error, (string \<times> int) list) result" where
  "list_balances env player db =
     (if we_fault env W_read then Err conn_lost
      else case we_uuid env player of
        None \<Rightarrow> Ok []
      | Some u \<Rightarrow> Ok (map (\<lambda>b. (bal_currency b, bal_amount b))
                   (sort_key bal_currency (filter (\<lambda>b. bal_player b = u) (balances db)))))"

definition list_currencies :: "wallet_env \<Rightarrow> wallet_db \<Rightarrow> (sql_error, currency_row list) result" where
  "list_currencies env db =
     (if we_fault env W_read then Err conn_lost else Ok (sort_key cur_code (currencies db)))"

definition max_recent_ledger :: int where "max_recent_ledger = 200"

record ledger_page =
  lp_rows :: "ledger_row list"
  lp_truncated :: bool

definition recent_ledger :: "wallet_env \<Rightarrow> string \<Rightarrow> int \<Rightarrow> wallet_db \<Rightarrow> (sql_error, ledger_page) result" where
  "recent_ledger env player n db =
     (let limit = max 1 (min n max_recent_ledger) in
      if we_fault env W_read then Err conn_lost
      else case we_uuid env player of
        None \<Rightarrow> Ok \<lparr>lp_rows = [], lp_truncated = False\<rparr>
      | Some u \<Rightarrow>
          let rows = take (nat (limit + 1))
                (sort_key (\<lambda>l. - lg_seq l) (filter (\<lambda>l. lg_player l = u) (ledger db)))
          in Ok \<lparr>lp_rows = take (nat limit) rows, lp_truncated = int (length rows) > limit\<rparr>)"

definition pending_purges :: "wallet_env \<Rightarrow> wallet_db \<Rightarrow> (sql_error, nat \<times> instant option) result" where
  "pending_purges env db =
     (if we_fault env W_read then Err conn_lost
      else let due = filter (\<lambda>p. pg_swept p = None) (purged db)
           in Ok (length due, case map pg_created due of [] \<Rightarrow> None | t # ts \<Rightarrow> Some (fold min ts t)))"

datatype on_conflict = Overwrite | Skip

definition currency_check :: "string \<Rightarrow> string \<Rightarrow> string \<Rightarrow> int \<Rightarrow> sql_error option" where
  "currency_check code name kind decimals =
     (if length code > 32 then Some (Sqlstate ''23514'' (Some ''currencies_code_len_check''))
      else if decimals < 0 \<or> decimals > 18 then Some (Sqlstate ''23514'' (Some ''currencies_decimals_range_check''))
      else if length name > 64 then Some (Sqlstate ''23514'' (Some ''currencies_display_name_len_check''))
      else if length kind > 32 then Some (Sqlstate ''23514'' (Some ''currencies_kind_len_check''))
      else None)"

definition write_currency_tx ::
    "wallet_env \<Rightarrow> string \<Rightarrow> string \<Rightarrow> string \<Rightarrow> int \<Rightarrow> on_conflict \<Rightarrow> wallet_db \<Rightarrow> (sql_error, wallet_db) result" where
  "write_currency_tx env code name kind decimals oc db =
     (if we_fault env W_insert then Err conn_lost
      else case currency_check code name kind decimals of
        Some e \<Rightarrow> Err e
      | None \<Rightarrow>
          let new = \<lparr>cur_code = code, cur_name = name, cur_kind = kind, cur_decimals = decimals\<rparr> in
          if sql_find (\<lambda>c. cur_code c = code) (currencies db) = None
          then Ok (db\<lparr>currencies := currencies db @ [new]\<rparr>)
          else (case oc of
            Skip \<Rightarrow> Ok db
          | Overwrite \<Rightarrow> Ok (db\<lparr>currencies := sql_update (\<lambda>c. cur_code c = code) (\<lambda>_. new) (currencies db)\<rparr>)))"

end
