(* ===== verification/Wallet_Service.thy ===== *)
theory Wallet_Service
  imports Wallet_Store
begin

text \<open>
  The movement authority of the wallet (\<open>modules/wallet/src/service.rs\<close>): input validation, the
  identity of a replayed movement, \<open>apply_on\<close> on a caller-owned transaction and the pool-path
  wrapper behind \<open>credit\<close> and \<open>debit\<close>. The state is the wallet's tables next to the event
  plane's, because the \<open>wallet.changed\<close> event is appended by the same transaction.
\<close>

section \<open>Movements and their validation\<close>

record movement =
  mv_key :: string
  mv_player :: string
  mv_currency :: string
  mv_amount :: int
  mv_reason :: string

definition max_idempotency_key_bytes :: nat where "max_idempotency_key_bytes = 128"
definition max_currency_code_bytes :: nat where "max_currency_code_bytes = 32"
definition max_reason_bytes :: nat where "max_reason_bytes = 256"
definition max_movement_amount :: int where "max_movement_amount = 1000000000000"

definition validate_movement :: "movement \<Rightarrow> (op_error, unit) result" where
  "validate_movement m =
     (if mv_key m = [] then Err (op_err Invalid ''idempotency_key is required'')
      else if length (mv_key m) > max_idempotency_key_bytes
        then Err (op_err Invalid ''idempotency_key exceeds 128 bytes'')
      else if trim (mv_player m) = [] then Err (op_err Invalid ''player_id is required'')
      else if mv_currency m = [] then Err (op_err Invalid ''currency is required'')
      else if length (mv_currency m) > max_currency_code_bytes
        then Err (op_err Invalid ''currency exceeds 32 bytes'')
      else if length (mv_reason m) > max_reason_bytes
        then Err (op_err Invalid ''reason exceeds 256 bytes'')
      else if mv_amount m < 1 \<or> mv_amount m > max_movement_amount
        then Err (op_err Invalid ''amount must be within 1..=1000000000000'')
      else Ok ())"

definition movement_error :: "wallet_env \<Rightarrow> sql_error \<Rightarrow> op_error" where
  "movement_error env e =
     (if is_out_of_range e
      then op_err Conflict ''movement rejected: insufficient funds or balance ceiling exceeded''
      else if is_unknown_currency e then op_err Invalid ''unknown currency''
      else if is_invalid_uuid e then op_err Invalid ''player_id is not a valid uuid''
      else op_err Internal (we_text env e))"

definition balance_error :: "wallet_env \<Rightarrow> balance_error \<Rightarrow> op_error" where
  "balance_error env e = (case e of
     Unknown_currency \<Rightarrow> op_err Invalid ''unknown currency''
   | Out_of_range \<Rightarrow> op_err Conflict ''movement rejected: insufficient funds or balance ceiling exceeded''
   | Balance_sql e \<Rightarrow> movement_error env e)"

section \<open>The identity of a movement\<close>

definition hex32 :: "string \<Rightarrow> string option" where
  "hex32 s = (let hex = map to_ascii_lowercase (filter is_ascii_hexdigit s)
              in if length hex = 32 then Some hex else None)"

text \<open>The byte loop of \<open>is_uuid_text\<close>, with its digit count and hyphen flag.\<close>

fun uuid_bytes :: "nat \<Rightarrow> bool \<Rightarrow> string \<Rightarrow> bool" where
  "uuid_bytes digits after_hyphen [] = True"
| "uuid_bytes digits after_hyphen (b # bs) =
     (if is_ascii_hexdigit b then uuid_bytes (Suc digits) False bs
      else if b = CHR ''-'' \<and> \<not> after_hyphen \<and> digits mod 4 = 0 \<and> 1 \<le> digits \<and> digits < 32
        then uuid_bytes digits True bs
      else False)"

definition is_uuid_text :: "string \<Rightarrow> bool" where
  "is_uuid_text s = (if hex32 s = None then False else uuid_bytes 0 False s)"

definition player_id_eq :: "string \<Rightarrow> string \<Rightarrow> bool" where
  "player_id_eq a b = (case (hex32 a, hex32 b) of (Some x, Some y) \<Rightarrow> x = y | _ \<Rightarrow> a = b)"

definition same_movement :: "existing_movement \<Rightarrow> movement \<Rightarrow> int \<Rightarrow> bool" where
  "same_movement ex m delta \<longleftrightarrow> ex_delta ex = delta \<and> ex_currency ex = mv_currency m
     \<and> ex_reason ex = mv_reason m \<and> player_id_eq (ex_player ex) (mv_player m)"

section \<open>The movement authority\<close>

datatype outcome = Applied int | Duplicate int | Conflicting | Purged

definition changed_contract :: event_contract where
  "changed_contract = \<lparr>ct_topic = ''wallet.changed'', ct_version = 1, ct_history = MinRetention 30\<rparr>"

type_synonym wallet_store = "wallet_db store"

definition with_domain :: "'d store \<Rightarrow> 'd \<Rightarrow> 'd store" where
  "with_domain st d = st\<lparr>domain := d\<rparr>"

definition apply_on ::
    "wallet_env \<Rightarrow> movement \<Rightarrow> int \<Rightarrow> wallet_store \<Rightarrow> (op_error, outcome \<times> wallet_store) result" where
  "apply_on env m sign st0 =
     (case validate_movement m of
        Inl e \<Rightarrow> Err e
      | Inr _ \<Rightarrow>
     (case is_player_purged_tx env (mv_player m) (domain st0) of
        Inl e \<Rightarrow> Err (movement_error env e)
      | Inr True \<Rightarrow> Ok (Purged, st0)
      | Inr False \<Rightarrow>
     (let st = we_interim env st0; delta = sign * mv_amount m in
      case insert_ledger_tx env (mv_key m) (mv_player m) (mv_currency m) delta (mv_reason m) (domain st) of
        Inl e \<Rightarrow> Err (movement_error env e)
      | Inr (None, db1) \<Rightarrow>
          (case existing_ledger_tx env (mv_key m) db1 of
             Inl e \<Rightarrow> Err (movement_error env e)
           | Inr None \<Rightarrow> Err (op_err Internal ''conflicting ledger row disappeared'')
           | Inr (Some ex) \<Rightarrow>
               if same_movement ex m delta then Ok (Duplicate (ex_after ex), with_domain st db1)
               else Ok (Conflicting, with_domain st db1))
      | Inr (Some (ledger_id, canonical), db1) \<Rightarrow>
          (case apply_balance_tx env (mv_player m) (mv_currency m) delta db1 of
             Inl e \<Rightarrow> Err (balance_error env e)
           | Inr (balance, db2) \<Rightarrow>
               (case set_balance_after_tx env ledger_id balance db2 of
                  Inl e \<Rightarrow> Err (movement_error env e)
                | Inr db3 \<Rightarrow>
                    (case emit_tx (we_transport env) (we_json env) (we_tx env) (we_event_id env) PgConnection
                            changed_contract
                            (we_encode env \<lparr>ch_player = canonical, ch_currency = mv_currency m, ch_delta = delta,
                               ch_after = balance, ch_reason = mv_reason m, ch_ledger = ledger_id\<rparr>)
                            (plane st) of
                       Inl e \<Rightarrow> Err (op_err Internal (we_bus_text env e))
                     | Inr plane' \<Rightarrow> Ok (Applied balance, \<lparr>plane = plane', domain = db3\<rparr>)))))))"

text \<open>
  The pool path: the answer, and the committed state. What other sessions committed stays when
  the movement's own transaction is rolled back; a failed \<open>COMMIT\<close> may have been applied.
\<close>

definition apply_movement ::
    "wallet_env \<Rightarrow> movement \<Rightarrow> int \<Rightarrow> wallet_store \<Rightarrow> (op_error, int) result \<times> wallet_store" where
  "apply_movement env m sign st =
     (case validate_movement m of
        Inl e \<Rightarrow> (Err e, st)
      | Inr _ \<Rightarrow>
          if we_fault env W_begin then (Err (op_err Internal (we_text env conn_lost)), st)
          else let base = we_interim env st in
          case apply_on env m sign st of
            Inr (Applied balance, st') \<Rightarrow>
              if we_fault env W_commit then (Err (op_err Internal (we_text env conn_lost)),
                if we_commit_applied env then st' else base)
              else (Ok balance, st')
          | Inr (Duplicate balance, _) \<Rightarrow> (Ok balance, base)
          | Inr (Conflicting, _) \<Rightarrow>
              (Err (op_err Conflict ''idempotency_key already records a different movement''), base)
          | Inr (Purged, _) \<Rightarrow> (Err (op_err Conflict ''player has been deleted''), base)
          | Inl e \<Rightarrow> (Err e, base))"

definition credit where "credit env m st = apply_movement env m 1 st"
definition debit where "debit env m st = apply_movement env m (-1) st"

definition wallet_balances ::
    "wallet_env \<Rightarrow> string \<Rightarrow> wallet_store \<Rightarrow> (op_error, (string \<times> int) list) result" where
  "wallet_balances env player st = (case list_balances env player (domain st) of
     Inl e \<Rightarrow> Err (op_err Internal (we_text env e)) | Inr bs \<Rightarrow> Ok bs)"

definition wallet_currencies :: "wallet_env \<Rightarrow> wallet_store \<Rightarrow> (op_error, currency_row list) result" where
  "wallet_currencies env st = (case list_currencies env (domain st) of
     Inl e \<Rightarrow> Err (op_err Internal (we_text env e)) | Inr cs \<Rightarrow> Ok cs)"

definition my_balances ::
    "wallet_env \<Rightarrow> identity \<Rightarrow> wallet_store \<Rightarrow> (op_error, (string \<times> int) list) result" where
  "my_balances env caller st = (case player_id caller of
     None \<Rightarrow> Err (op_err Invalid ''missing player identity'')
   | Some pid \<Rightarrow> wallet_balances env pid st)"

section \<open>The audited ledger\<close>

definition total :: "string \<Rightarrow> string \<Rightarrow> ledger_row list \<Rightarrow> int" where
  "total u c rows = sum_list (map lg_delta (filter (\<lambda>l. lg_player l = u \<and> lg_currency l = c) rows))"

definition amount_of :: "string \<Rightarrow> string \<Rightarrow> wallet_db \<Rightarrow> int" where
  "amount_of u c db = (case sql_find (\<lambda>b. bal_player b = u \<and> bal_currency b = c) (balances db) of
     None \<Rightarrow> 0 | Some b \<Rightarrow> bal_amount b)"

fun audited :: "ledger_row list \<Rightarrow> ledger_row list \<Rightarrow> bool" where
  "audited before [] = True"
| "audited before (l # rows) \<longleftrightarrow>
     (lg_player l \<noteq> purge_sentinel \<longrightarrow>
        lg_after l = total (lg_player l) (lg_currency l) (before @ [l]))
     \<and> audited (before @ [l]) rows"

definition wallet_inv :: "wallet_db \<Rightarrow> bool" where
  "wallet_inv db \<longleftrightarrow>
     distinct (map (\<lambda>b. (bal_player b, bal_currency b)) (balances db))
     \<and> (\<forall>b \<in> set (balances db). 0 \<le> bal_amount b \<and> bal_amount b \<le> max_balance
          \<and> bal_currency b \<in> cur_code ` set (currencies db))
     \<and> distinct (map lg_key (ledger db)) \<and> distinct (map lg_id (ledger db))
     \<and> sorted_wrt (<) (map lg_seq (ledger db)) \<and> (\<forall>l \<in> set (ledger db). lg_seq l < next_seq db)
     \<and> (\<forall>u c. u \<noteq> purge_sentinel \<longrightarrow> amount_of u c db = total u c (ledger db))
     \<and> audited [] (ledger db)
     \<and> distinct (map pg_player (purged db))"

section \<open>Balances\<close>

abbreviation bal_key :: "balance_row \<Rightarrow> string \<times> string" where
  "bal_key b \<equiv> (bal_player b, bal_currency b)"

definition balances_ok :: "wallet_db \<Rightarrow> bool" where
  "balances_ok db \<longleftrightarrow> distinct (map bal_key (balances db))
     \<and> (\<forall>b \<in> set (balances db). 0 \<le> bal_amount b \<and> bal_amount b \<le> max_balance
          \<and> bal_currency b \<in> cur_code ` set (currencies db))"

lemma check_amount_None: "check_amount a = None \<longleftrightarrow> 0 \<le> a \<and> a \<le> max_balance"
  by (auto simp: check_amount_def i64_min_def i64_max_def max_balance_def)

lemma amount_of_set_amount:
  assumes "sql_find (\<lambda>b. bal_player b = u \<and> bal_currency b = c) (balances db) = Some b"
  shows "amount_of u' c' (set_amount now u c a db) = (if u' = u \<and> c' = c then a else amount_of u' c' db)"
  using assms sql_find_Some [OF assms]
  by (auto simp: amount_of_def set_amount_def sql_find_update split: option.splits dest!: sql_find_Some)

lemma amount_of_append:
  assumes "sql_find (\<lambda>b. bal_player b = u \<and> bal_currency b = c) (balances db) = None"
  shows "amount_of u' c' (db\<lparr>balances := balances db @ [\<lparr>bal_player = u, bal_currency = c, bal_amount = a,
      bal_updated = now\<rparr>]\<rparr>) = (if u' = u \<and> c' = c then a else amount_of u' c' db)"
  using assms by (auto simp: amount_of_def sql_find_append split: option.splits)

lemma balances_ok_set_amount:
  assumes "balances_ok db" and "0 \<le> a" and "a \<le> max_balance"
  shows "balances_ok (set_amount now u c a db)"
  using assms by (auto simp: balances_ok_def set_amount_def map_sql_update set_sql_update)

lemma balances_ok_append:
  assumes "balances_ok db" and "0 \<le> a" and "a \<le> max_balance"
    and "sql_find (\<lambda>b. bal_player b = u \<and> bal_currency b = c) (balances db) = None"
    and "sql_find (\<lambda>x. cur_code x = c) (currencies db) \<noteq> None"
  shows "balances_ok (db\<lparr>balances := balances db @ [\<lparr>bal_player = u, bal_currency = c, bal_amount = a,
      bal_updated = now\<rparr>]\<rparr>)"
  using assms by (auto simp: balances_ok_def sql_find_None)

lemma apply_balance_tx_Ok:
  assumes "apply_balance_tx env p c d db = Ok (b, db')"
  shows "\<exists>u bs. we_uuid env p = Some u \<and> b = amount_of u c db + d \<and> 0 \<le> b \<and> b \<le> max_balance
    \<and> db' = db\<lparr>balances := bs\<rparr> \<and> (balances_ok db \<longrightarrow> balances_ok db')
    \<and> (\<forall>u' c'. amount_of u' c' db' = (if u' = u \<and> c' = c then b else amount_of u' c' db))"
proof -
  obtain u where u: "we_uuid env p = Some u"
    using assms by (auto simp: apply_balance_tx_def split: if_splits option.splits)
  show ?thesis
  proof (cases "sql_find (\<lambda>b. bal_player b = u \<and> bal_currency b = c) (balances db)")
    case (Some r)
    then have b: "b = bal_amount r + d" "check_amount b = None"
      and db': "db' = set_amount (xact_now (we_tx env)) u c b db"
      using assms u by (auto simp: apply_balance_tx_def split: if_splits option.splits)
    have "amount_of u c db = bal_amount r" using Some by (simp add: amount_of_def)
    moreover have "\<exists>bs. db' = db\<lparr>balances := bs\<rparr>" by (auto simp: db' set_amount_def)
    ultimately show ?thesis
      using u b db' amount_of_set_amount [OF Some] balances_ok_set_amount
      by (auto simp: check_amount_None)
  next
    case None
    then have b: "b = d" "check_amount d = None" "sql_find (\<lambda>x. cur_code x = c) (currencies db) \<noteq> None"
      and db': "db' = db\<lparr>balances := balances db @ [\<lparr>bal_player = u, bal_currency = c, bal_amount = d,
        bal_updated = xact_now (we_tx env)\<rparr>]\<rparr>"
      using assms u by (auto simp: apply_balance_tx_def split: if_splits option.splits sum.splits)
    have "amount_of u c db = 0" using None by (simp add: amount_of_def)
    then show ?thesis
      using u b db' amount_of_append [OF None] balances_ok_append [OF _ _ _ None b(3)]
      by (auto simp: check_amount_None)
  qed
qed

section \<open>The ledger\<close>

lemma total_append [simp]: "total u c (xs @ ys) = total u c xs + total u c ys"
  by (simp add: total_def)

lemma total_single [simp]: "total u c [l] = (if lg_player l = u \<and> lg_currency l = c then lg_delta l else 0)"
  by (simp add: total_def)

lemma total_Nil [simp]: "total u c [] = 0"
  by (simp add: total_def)

lemma audited_append: "audited before (xs @ ys) \<longleftrightarrow> audited before xs \<and> audited (before @ xs) ys"
  by (induction xs arbitrary: before) auto

definition ledger_ok :: "wallet_db \<Rightarrow> bool" where
  "ledger_ok db \<longleftrightarrow> distinct (map lg_key (ledger db)) \<and> distinct (map lg_id (ledger db))
     \<and> sorted_wrt (<) (map lg_seq (ledger db)) \<and> (\<forall>l \<in> set (ledger db). lg_seq l < next_seq db)
     \<and> (\<forall>u c. u \<noteq> purge_sentinel \<longrightarrow> amount_of u c db = total u c (ledger db))
     \<and> audited [] (ledger db)"

lemma wallet_inv_split: "wallet_inv db \<longleftrightarrow> balances_ok db \<and> ledger_ok db \<and> distinct (map pg_player (purged db))"
  by (auto simp: wallet_inv_def balances_ok_def ledger_ok_def)

text \<open>What an applied movement does to the wallet's tables, in one step.\<close>

definition moved ::
    "movement \<Rightarrow> int \<Rightarrow> string \<Rightarrow> string \<Rightarrow> int \<Rightarrow> wallet_db \<Rightarrow> wallet_db \<Rightarrow> bool" where
  "moved m delta u ledger_id b db db' \<longleftrightarrow>
     b = amount_of u (mv_currency m) db + delta \<and> 0 \<le> b \<and> b \<le> max_balance
     \<and> sql_find (\<lambda>l. lg_key l = mv_key m) (ledger db) = None
     \<and> sql_find (\<lambda>l. lg_id l = ledger_id) (ledger db) = None
     \<and> ledger db' = ledger db @ [\<lparr>lg_seq = next_seq db + 1, lg_id = ledger_id, lg_key = mv_key m, lg_player = u,
          lg_currency = mv_currency m, lg_delta = delta, lg_after = b, lg_reason = mv_reason m\<rparr>]
     \<and> next_seq db' = next_seq db + 2 \<and> purged db' = purged db \<and> currencies db' = currencies db
     \<and> (balances_ok db \<longrightarrow> balances_ok db')
     \<and> (\<forall>u' c'. amount_of u' c' db' = (if u' = u \<and> c' = mv_currency m then b else amount_of u' c' db))"

lemma moved_inv:
  assumes "moved m delta u i b db db'" and "wallet_inv db"
  shows "wallet_inv db'"
proof -
  have ok: "balances_ok db" "ledger_ok db" "distinct (map pg_player (purged db))"
    using assms(2) by (auto simp: wallet_inv_split)
  have "ledger_ok db'"
    using assms(1) ok(2)
    by (auto simp: moved_def ledger_ok_def sql_find_None sorted_wrt_append audited_append)
  then show ?thesis
    using assms(1) ok by (auto simp: wallet_inv_split moved_def)
qed

lemma insert_ledger_tx_Some:
  assumes "insert_ledger_tx env key p c d reason db = Ok (Some (i, u), db1)"
  shows "we_uuid env p = Some u \<and> i = we_ledger_id env
    \<and> sql_find (\<lambda>l. lg_key l = key) (ledger db) = None \<and> sql_find (\<lambda>l. lg_id l = we_ledger_id env) (ledger db) = None
    \<and> db1 = db\<lparr>ledger := ledger db @ [\<lparr>lg_seq = next_seq db, lg_id = i, lg_key = key, lg_player = u,
         lg_currency = c, lg_delta = d, lg_after = 0, lg_reason = reason\<rparr>], next_seq := next_seq db + 1\<rparr>"
  using assms by (auto simp: insert_ledger_tx_def split: if_splits option.splits)

text \<open>The successful movement, taken apart into its three statements.\<close>

lemma movement_moved:
  assumes ins: "insert_ledger_tx env (mv_key m) (mv_player m) (mv_currency m) d (mv_reason m) db = Ok (Some (i, u), db1)"
    and bal: "apply_balance_tx env (mv_player m) (mv_currency m) d db1 = Ok (b, db2)"
    and stamp: "set_balance_after_tx env i b db2 = Ok db3"
  shows "we_uuid env (mv_player m) = Some u \<and> i = we_ledger_id env \<and> moved m d u i b db db3"
proof -
  note l = insert_ledger_tx_Some [OF ins]
  define row where "row = \<lparr>lg_seq = next_seq db, lg_id = i, lg_key = mv_key m, lg_player = u,
      lg_currency = mv_currency m, lg_delta = d, lg_after = 0, lg_reason = mv_reason m\<rparr>"
  have db1: "db1 = db\<lparr>ledger := ledger db @ [row], next_seq := next_seq db + 1\<rparr>"
    using l by (simp add: row_def)
  have amt1: "amount_of u' c' db1 = amount_of u' c' db" for u' c'
    by (simp add: db1 amount_of_def)
  have ok1: "balances_ok db1 = balances_ok db"
    by (simp add: db1 balances_ok_def)
  obtain bs where b: "b = amount_of u (mv_currency m) db + d" "0 \<le> b" "b \<le> max_balance"
      "db2 = db1\<lparr>balances := bs\<rparr>" "balances_ok db \<longrightarrow> balances_ok db2"
      "\<And>u' c'. amount_of u' c' db2 = (if u' = u \<and> c' = mv_currency m then b else amount_of u' c' db)"
    using apply_balance_tx_Ok [OF bal] l amt1 ok1 by auto
  have db3: "db3 = db2\<lparr>ledger := ledger db @ [row\<lparr>lg_after := b, lg_seq := next_seq db + 1\<rparr>],
      next_seq := next_seq db + 2\<rparr>"
    using stamp l by (auto simp: set_balance_after_tx_def b(4) db1 sql_update_fresh row_def split: if_splits)
  have "amount_of u' c' db3 = amount_of u' c' db2" for u' c'
    by (simp add: db3 amount_of_def)
  moreover have "balances_ok db3 = balances_ok db2"
    by (simp add: db3 balances_ok_def)
  moreover have "ledger db3 = ledger db @ [row\<lparr>lg_after := b, lg_seq := next_seq db + 1\<rparr>]"
      "next_seq db3 = next_seq db + 2" "purged db3 = purged db" "currencies db3 = currencies db"
    by (simp_all add: db3 b(4) db1)
  ultimately show ?thesis
    using l b(1-3,5,6) unfolding moved_def row_def by simp
qed

lemma apply_on_Applied:
  assumes "apply_on env m sign st0 = Ok (Applied b, st')"
  shows "\<exists>u. we_uuid env (mv_player m) = Some u \<and> validate_movement m = Ok ()
    \<and> moved m (sign * mv_amount m) u (we_ledger_id env) b (domain (we_interim env st0)) (domain st')
    \<and> emit_tx (we_transport env) (we_json env) (we_tx env) (we_event_id env) PgConnection changed_contract
        (we_encode env \<lparr>ch_player = u, ch_currency = mv_currency m, ch_delta = sign * mv_amount m,
           ch_after = b, ch_reason = mv_reason m, ch_ledger = we_ledger_id env\<rparr>)
        (plane (we_interim env st0)) = Ok (plane st')"
  using assms
  by (auto simp: apply_on_def Let_def split: sum.splits option.splits bool.splits prod.splits if_splits
      dest: movement_moved)

lemma insert_ledger_tx_None:
  assumes "insert_ledger_tx env key p c d reason db = Ok (None, db1)"
  shows "db1 = db\<lparr>next_seq := next_seq db + 1\<rparr> \<and> sql_find (\<lambda>l. lg_key l = key) (ledger db) \<noteq> None"
  using assms by (auto simp: insert_ledger_tx_def split: if_splits option.splits)

lemma apply_on_other:
  assumes "apply_on env m sign st0 = Ok (out, st')" and "\<And>b. out \<noteq> Applied b"
  shows "st' = st0 \<or> st' = with_domain (we_interim env st0)
    ((domain (we_interim env st0))\<lparr>next_seq := next_seq (domain (we_interim env st0)) + 1\<rparr>)"
  using assms
  by (auto simp: apply_on_def Let_def split: sum.splits option.splits bool.splits prod.splits if_splits
      dest: insert_ledger_tx_None)

lemma wallet_inv_next_seq:
  assumes "wallet_inv db"
  shows "wallet_inv (db\<lparr>next_seq := next_seq db + 1\<rparr>)"
proof -
  have "amount_of u c (db\<lparr>next_seq := next_seq db + 1\<rparr>) = amount_of u c db" for u c
    by (simp add: amount_of_def)
  moreover have "\<forall>l \<in> set (ledger db). lg_seq l < next_seq db + 1"
    using assms by (force simp: wallet_inv_def)
  ultimately show ?thesis
    using assms by (simp add: wallet_inv_def)
qed

lemma apply_on_inv:
  assumes "apply_on env m sign st0 = Ok (out, st')" and "wallet_inv (domain st0)"
    and "wallet_inv (domain (we_interim env st0))"
  shows "wallet_inv (domain st')"
proof (cases out)
  case (Applied b)
  with apply_on_Applied [of env m sign st0 b st'] assms moved_inv show ?thesis by blast
qed (use apply_on_other [OF assms(1)] assms wallet_inv_next_seq in \<open>auto simp: with_domain_def\<close>)

lemma apply_movement_state:
  "(snd (apply_movement env m sign st) = st) \<or> (snd (apply_movement env m sign st) = we_interim env st)
    \<or> (\<exists>b. apply_on env m sign st = Ok (Applied b, snd (apply_movement env m sign st)))"
  by (auto simp: apply_movement_def Let_def split: sum.splits outcome.splits)

lemma apply_movement_inv:
  assumes "wallet_inv (domain st)" and "wallet_inv (domain (we_interim env st))"
  shows "wallet_inv (domain (snd (apply_movement env m sign st)))"
  using apply_movement_state [of env m sign st] apply_on_inv assms by metis

section \<open>The abstract wallet\<close>

text \<open>
  What the wallet promises, over maps: a balance per player and currency, the movement each key
  recorded, the catalog and the deleted players.
\<close>

record wallet_spec =
  sp_balance :: "string \<times> string \<rightharpoonup> int"
  sp_keys :: "string \<rightharpoonup> existing_movement"
  sp_codes :: "string set"
  sp_purged :: "string set"

definition spec_move :: "string \<Rightarrow> movement \<Rightarrow> int \<Rightarrow> int \<Rightarrow> wallet_spec \<Rightarrow> wallet_spec" where
  "spec_move u m delta b s = s\<lparr>sp_balance := (sp_balance s)((u, mv_currency m) \<mapsto> b),
     sp_keys := (sp_keys s)(mv_key m \<mapsto> \<lparr>ex_player = u, ex_currency = mv_currency m, ex_delta = delta,
        ex_reason = mv_reason m, ex_after = b\<rparr>)\<rparr>"

definition spec_apply ::
    "(string \<Rightarrow> string option) \<Rightarrow> movement \<Rightarrow> int \<Rightarrow> wallet_spec \<Rightarrow> (op_error, int) result \<times> wallet_spec" where
  "spec_apply uuid_in m delta s =
     (case validate_movement m of
        Inl e \<Rightarrow> (Err e, s)
      | Inr _ \<Rightarrow>
     (case uuid_in (mv_player m) of
        None \<Rightarrow> (Err (op_err Invalid ''player_id is not a valid uuid''), s)
      | Some u \<Rightarrow>
          if u \<in> sp_purged s then (Err (op_err Conflict ''player has been deleted''), s)
          else case sp_keys s (mv_key m) of
            Some ex \<Rightarrow>
              if ex = \<lparr>ex_player = u, ex_currency = mv_currency m, ex_delta = delta,
                       ex_reason = mv_reason m, ex_after = ex_after ex\<rparr>
              then (Ok (ex_after ex), s)
              else (Err (op_err Conflict ''idempotency_key already records a different movement''), s)
          | None \<Rightarrow>
              (case sp_balance s (u, mv_currency m) of
                 None \<Rightarrow>
                   if mv_currency m \<notin> sp_codes s then (Err (op_err Invalid ''unknown currency''), s)
                   else if delta < 0
                     then (Err (op_err Conflict ''movement rejected: insufficient funds or balance ceiling exceeded''), s)
                   else (Ok delta, spec_move u m delta delta s)
               | Some a \<Rightarrow>
                   if 0 \<le> a + delta \<and> a + delta \<le> max_balance then (Ok (a + delta), spec_move u m delta (a + delta) s)
                   else (Err (op_err Conflict ''movement rejected: insufficient funds or balance ceiling exceeded''), s))))"

definition wallet_abs :: "wallet_db \<Rightarrow> wallet_spec" where
  "wallet_abs db = \<lparr>
     sp_balance = (\<lambda>(u, c). map_option bal_amount
        (sql_find (\<lambda>b. bal_player b = u \<and> bal_currency b = c) (balances db))),
     sp_keys = (\<lambda>k. map_option (\<lambda>l. \<lparr>ex_player = lg_player l, ex_currency = lg_currency l,
        ex_delta = lg_delta l, ex_reason = lg_reason l, ex_after = lg_after l\<rparr>)
        (sql_find (\<lambda>l. lg_key l = k) (ledger db))),
     sp_codes = cur_code ` set (currencies db),
     sp_purged = pg_player ` set (purged db)\<rparr>"

lemma wallet_abs_sel:
  "sp_balance (wallet_abs db) (u, c) = map_option bal_amount
     (sql_find (\<lambda>b. bal_player b = u \<and> bal_currency b = c) (balances db))"
  "sp_keys (wallet_abs db) k = map_option (\<lambda>l. \<lparr>ex_player = lg_player l, ex_currency = lg_currency l,
     ex_delta = lg_delta l, ex_reason = lg_reason l, ex_after = lg_after l\<rparr>)
     (sql_find (\<lambda>l. lg_key l = k) (ledger db))"
  "sp_codes (wallet_abs db) = cur_code ` set (currencies db)"
  "sp_purged (wallet_abs db) = pg_player ` set (purged db)"
  by (simp_all add: wallet_abs_def)

text \<open>
  The documented \<open>uuid\<close> type: input keeps the 32 digits and answers the canonical text, which
  reads back as itself, the nil uuid included; two inputs with the same digits are one value.
\<close>

definition uuid_contract :: "(string \<Rightarrow> string option) \<Rightarrow> bool" where
  "uuid_contract uuid_in \<longleftrightarrow>
     (\<forall>s u. uuid_in s = Some u \<longrightarrow> uuid_in u = Some u \<and> hex32 u = hex32 s \<and> hex32 s \<noteq> None)
     \<and> uuid_in purge_sentinel = Some purge_sentinel
     \<and> (\<forall>s s' u u'. uuid_in s = Some u \<and> uuid_in s' = Some u' \<and> hex32 s = hex32 s' \<longrightarrow> u = u')"

definition quiet :: "wallet_env \<Rightarrow> wallet_store \<Rightarrow> bool" where
  "quiet env st \<longleftrightarrow> (\<forall>s. \<not> we_fault env s) \<and> we_interim env st = st
     \<and> (\<forall>c. \<exists>p. emit_tx (we_transport env) (we_json env) (we_tx env) (we_event_id env) PgConnection
              changed_contract (we_encode env c) (plane st) = Ok p)
     \<and> sql_find (\<lambda>l. lg_id l = we_ledger_id env) (ledger (domain st)) = None"

lemma player_id_eq_canonical:
  assumes "uuid_contract f" and "f p = Some p" and "f s = Some u"
  shows "player_id_eq p s \<longleftrightarrow> p = u"
proof -
  have hex: "hex32 p \<noteq> None" "hex32 u = hex32 s" "hex32 s \<noteq> None"
    using assms unfolding uuid_contract_def by blast+
  have "hex32 p = hex32 s \<Longrightarrow> p = u"
    using assms unfolding uuid_contract_def by blast
  with hex show ?thesis
    by (auto simp: player_id_eq_def split: option.splits)
qed

lemma balance_find_update:
  assumes "sql_find (\<lambda>b. bal_player b = u \<and> bal_currency b = c) (balances db) = Some r"
  shows "map_option bal_amount (sql_find (\<lambda>b. bal_player b = u' \<and> bal_currency b = c') (balances (set_amount now u c a db)))
    = (if u' = u \<and> c' = c then Some a
       else map_option bal_amount (sql_find (\<lambda>b. bal_player b = u' \<and> bal_currency b = c') (balances db)))"
  using assms sql_find_Some [OF assms]
  by (auto simp: set_amount_def sql_find_update option.map_comp comp_def intro!: option.map_cong dest!: sql_find_Some)

lemma wallet_abs_moved:
  assumes key: "sql_find (\<lambda>l. lg_key l = mv_key m) (ledger db) = None"
    and l: "ledger db' = ledger db @ [\<lparr>lg_seq = q, lg_id = i, lg_key = mv_key m, lg_player = u,
      lg_currency = mv_currency m, lg_delta = d, lg_after = b, lg_reason = mv_reason m\<rparr>]"
    and b: "\<And>u' c'. map_option bal_amount (sql_find (\<lambda>b. bal_player b = u' \<and> bal_currency b = c') (balances db'))
      = (if u' = u \<and> c' = mv_currency m then Some b
         else map_option bal_amount (sql_find (\<lambda>b. bal_player b = u' \<and> bal_currency b = c') (balances db)))"
    and s: "currencies db' = currencies db" "purged db' = purged db"
  shows "wallet_abs db' = spec_move u m d b (wallet_abs db)"
proof -
  have "sql_find (\<lambda>l. lg_key l = k) (ledger db') = (if k = mv_key m then Some (last (ledger db'))
      else sql_find (\<lambda>l. lg_key l = k) (ledger db))" for k
    using key by (auto simp: l sql_find_append split: option.splits)
  then show ?thesis
    by (auto simp: wallet_abs_def spec_move_def b s fun_eq_iff l)
qed

lemma balance_find_append:
  assumes "sql_find (\<lambda>b. bal_player b = u \<and> bal_currency b = c) bs = None"
  shows "map_option bal_amount (sql_find (\<lambda>b. bal_player b = u' \<and> bal_currency b = c')
      (bs @ [\<lparr>bal_player = u, bal_currency = c, bal_amount = a, bal_updated = now\<rparr>]))
    = (if u' = u \<and> c' = c then Some a
       else map_option bal_amount (sql_find (\<lambda>b. bal_player b = u' \<and> bal_currency b = c') bs))"
  using assms by (auto simp: sql_find_append split: option.splits)

lemma validate_amount: "validate_movement m = Ok x \<Longrightarrow> 1 \<le> mv_amount m \<and> mv_amount m \<le> max_movement_amount"
  by (auto simp: validate_movement_def split: if_splits)

text \<open>An insert that claims its key, in a quiet environment: what follows is decided by the balance.\<close>

definition claimed_db :: "wallet_env \<Rightarrow> movement \<Rightarrow> int \<Rightarrow> string \<Rightarrow> wallet_db \<Rightarrow> wallet_db" where
  "claimed_db env m delta u db = db\<lparr>ledger := ledger db @ [\<lparr>lg_seq = next_seq db, lg_id = we_ledger_id env,
     lg_key = mv_key m, lg_player = u, lg_currency = mv_currency m, lg_delta = delta, lg_after = 0,
     lg_reason = mv_reason m\<rparr>], next_seq := next_seq db + 1\<rparr>"

definition settled_db :: "wallet_env \<Rightarrow> movement \<Rightarrow> int \<Rightarrow> string \<Rightarrow> int \<Rightarrow> wallet_db \<Rightarrow> wallet_db \<Rightarrow> wallet_db" where
  "settled_db env m delta u b db db2 = db2\<lparr>ledger := ledger db @
     [\<lparr>lg_seq = next_seq db + 1, lg_id = we_ledger_id env, lg_key = mv_key m, lg_player = u,
       lg_currency = mv_currency m, lg_delta = delta, lg_after = b, lg_reason = mv_reason m\<rparr>],
     next_seq := next_seq db + 2\<rparr>"

definition claims_key :: "wallet_env \<Rightarrow> movement \<Rightarrow> string \<Rightarrow> wallet_store \<Rightarrow> bool" where
  "claims_key env m u st \<longleftrightarrow> quiet env st \<and> validate_movement m = Ok () \<and> we_uuid env (mv_player m) = Some u
     \<and> sql_find (\<lambda>p. pg_player p = u) (purged (domain st)) = None \<and> sql_find (\<lambda>l. lg_key l = mv_key m) (ledger (domain st)) = None"

lemma claims_keyD:
  assumes "claims_key env m u st"
  shows "\<not> we_fault env s" "we_interim env st = st" "validate_movement m = Ok ()" "we_uuid env (mv_player m) = Some u"
    "u \<notin> pg_player ` set (purged (domain st))" "sql_find (\<lambda>l. lg_key l = mv_key m) (ledger (domain st)) = None"
  using assms by (auto simp: claims_key_def quiet_def sql_find_None)

lemma claimed_db_sel [simp]:
  "balances (claimed_db env m d u db) = balances db" "currencies (claimed_db env m d u db) = currencies db"
  "purged (claimed_db env m d u db) = purged db"
  by (simp_all add: claimed_db_def)

lemma apply_on_claimed:
  assumes c: "claims_key env m u st" and d: "d = sign * mv_amount m" and db1: "db1 = claimed_db env m d u (domain st)"
  shows "(\<forall>e. apply_balance_tx env (mv_player m) (mv_currency m) d db1 = Err e \<longrightarrow>
      apply_on env m sign st = Err (balance_error env e)) \<and>
    (\<forall>b db2. apply_balance_tx env (mv_player m) (mv_currency m) d db1 = Ok (b, db2) \<longrightarrow>
      (\<exists>p. apply_on env m sign st = Ok (Applied b, \<lparr>plane = p, domain = settled_db env m d u b (domain st) db2\<rparr>)))"
proof -
  note k = claims_keyD [OF c]
  have id: "sql_find (\<lambda>l. lg_id l = we_ledger_id env) (ledger (domain st)) = None" using c by (simp add: claims_key_def quiet_def)
  have ins: "insert_ledger_tx env (mv_key m) (mv_player m) (mv_currency m) d (mv_reason m) (domain st)
      = Ok (Some (we_ledger_id env, u), db1)"
    using k id by (simp add: insert_ledger_tx_def db1 claimed_db_def)
  have pg: "is_player_purged_tx env (mv_player m) (domain st) = Ok False"
    using k c by (simp add: is_player_purged_tx_def claims_key_def)
  have stamp: "set_balance_after_tx env (we_ledger_id env) b (db1\<lparr>balances := bs\<rparr>) = Ok (settled_db env m d u b (domain st) (db1\<lparr>balances := bs\<rparr>))"
    for b bs using k id by (simp add: set_balance_after_tx_def db1 claimed_db_def settled_db_def sql_update_fresh)
  obtain p where p: "\<And>c. emit_tx (we_transport env) (we_json env) (we_tx env) (we_event_id env) PgConnection
      changed_contract (we_encode env c) (plane st) = Ok (p c)"
    using c unfolding claims_key_def quiet_def by metis
  show ?thesis
    using stamp ins by (auto simp: apply_on_def k pg d Let_def p dest!: apply_balance_tx_Ok)
qed

text \<open>The movement answers and changes the tables as the specification does.\<close>

definition refined :: "wallet_env \<Rightarrow> movement \<Rightarrow> int \<Rightarrow> wallet_store \<Rightarrow> bool" where
  "refined env m sign st \<longleftrightarrow>
     fst (apply_movement env m sign st) = fst (spec_apply (we_uuid env) m (sign * mv_amount m) (wallet_abs (domain st)))
     \<and> wallet_abs (domain (snd (apply_movement env m sign st)))
       = snd (spec_apply (we_uuid env) m (sign * mv_amount m) (wallet_abs (domain st)))"

lemma spec_claimed:
  assumes "claims_key env m u st"
  shows "spec_apply (we_uuid env) m d (wallet_abs (domain st)) =
    (case sp_balance (wallet_abs (domain st)) (u, mv_currency m) of
       None \<Rightarrow> if mv_currency m \<notin> cur_code ` set (currencies (domain st)) then (Err (op_err Invalid ''unknown currency''), wallet_abs (domain st))
         else if d < 0 then (Err (op_err Conflict ''movement rejected: insufficient funds or balance ceiling exceeded''), wallet_abs (domain st))
         else (Ok d, spec_move u m d d (wallet_abs (domain st)))
     | Some a \<Rightarrow> if 0 \<le> a + d \<and> a + d \<le> max_balance then (Ok (a + d), spec_move u m d (a + d) (wallet_abs (domain st)))
         else (Err (op_err Conflict ''movement rejected: insufficient funds or balance ceiling exceeded''), wallet_abs (domain st)))"
  using claims_keyD(3-6) [OF assms] unfolding spec_apply_def by (simp add: wallet_abs_sel)

lemma claimed_fails:
  assumes c: "claims_key env m u st" and d: "d = sign * mv_amount m"
    and "apply_balance_tx env (mv_player m) (mv_currency m) d (claimed_db env m d u (domain st)) = Err e"
    and "spec_apply (we_uuid env) m d (wallet_abs (domain st)) = (Err (balance_error env e), wallet_abs (domain st))"
  shows "refined env m sign st"
  using apply_on_claimed [OF c d refl] claims_keyD(1-3) [OF c] assms(3,4) by (simp add: refined_def apply_movement_def d)

lemma claimed_succeeds:
  assumes c: "claims_key env m u st" and d: "d = sign * mv_amount m"
    and bal: "apply_balance_tx env (mv_player m) (mv_currency m) d (claimed_db env m d u (domain st))
      = Ok (b, (claimed_db env m d u (domain st))\<lparr>balances := bs\<rparr>)"
    and spec: "spec_apply (we_uuid env) m d (wallet_abs (domain st)) = (Ok b, spec_move u m d b (wallet_abs (domain st)))"
    and bs: "\<And>u' c'. map_option bal_amount (sql_find (\<lambda>b. bal_player b = u' \<and> bal_currency b = c') bs)
      = (if u' = u \<and> c' = mv_currency m then Some b
         else map_option bal_amount (sql_find (\<lambda>b. bal_player b = u' \<and> bal_currency b = c') (balances (domain st))))"
  shows "refined env m sign st"
proof -
  let ?db = "settled_db env m d u b (domain st) ((claimed_db env m d u (domain st))\<lparr>balances := bs\<rparr>)"
  obtain p where a: "apply_on env m sign st = Ok (Applied b, \<lparr>plane = p, domain = ?db\<rparr>)"
    using apply_on_claimed [OF c d refl] bal by blast
  have "wallet_abs ?db = spec_move u m d b (wallet_abs (domain st))"
    by (rule wallet_abs_moved [OF claims_keyD(6) [OF c]]) (simp_all add: settled_db_def bs)
  then show ?thesis using a spec claims_keyD(1-3) [OF c] by (simp add: refined_def apply_movement_def d)
qed

lemma delta_bounds:
  assumes "validate_movement m = Ok ()" "sign = 1 \<or> sign = -1"
  shows "- max_movement_amount \<le> sign * mv_amount m \<and> sign * mv_amount m \<le> max_movement_amount"
  using validate_amount [OF assms(1)] assms(2) by (auto simp: max_movement_amount_def)

lemma refines_existing:
  assumes c: "claims_key env m u st" and sign: "sign = 1 \<or> sign = -1" and bok: "balances_ok (domain st)"
    and r: "sql_find (\<lambda>b. bal_player b = u \<and> bal_currency b = mv_currency m) (balances (domain st)) = Some r"
  shows "refined env m sign st"
proof -
  define d where d: "d = sign * mv_amount m"
  let ?db = "domain st" and ?c = "mv_currency m"
  let ?db1 = "claimed_db env m d u ?db"
  note k = claims_keyD [OF c]
  have sp: "sp_balance (wallet_abs ?db) (u, ?c) = Some (bal_amount r)" using r by (simp add: wallet_abs_sel)
  note spec = spec_claimed [OF c, of d]
  show ?thesis
  proof (cases "0 \<le> bal_amount r + d \<and> bal_amount r + d \<le> max_balance")
    case True
    have "set_amount now u ?c a ?db1 = ?db1\<lparr>balances := balances (set_amount now u ?c a ?db)\<rparr>" for now a
      by (simp add: set_amount_def)
    moreover have "check_amount (bal_amount r + d) = None" using True by (simp add: check_amount_None)
    ultimately have bal: "apply_balance_tx env (mv_player m) ?c d ?db1 = Ok (bal_amount r + d,
        ?db1\<lparr>balances := balances (set_amount (xact_now (we_tx env)) u ?c (bal_amount r + d) ?db)\<rparr>)"
      using r k by (simp add: apply_balance_tx_def)
    show ?thesis by (rule claimed_succeeds [OF c d bal]) (use True sp spec balance_find_update [OF r] in simp_all)
  next
    case False
    have "0 \<le> bal_amount r \<and> bal_amount r \<le> max_balance" using bok sql_find_Some [OF r] by (auto simp: balances_ok_def)
    then have "check_amount (bal_amount r + d) = Some (Sqlstate ''23514'' (Some ''balances_amount_check''))"
      using False delta_bounds [OF k(3) sign] d by (auto simp: check_amount_def i64_min_def i64_max_def max_balance_def max_movement_amount_def)
    then have bal: "apply_balance_tx env (mv_player m) ?c d ?db1 = Err (Balance_sql (Sqlstate ''23514'' (Some ''balances_amount_check'')))"
      using r k by (simp add: apply_balance_tx_def)
    show ?thesis
      by (rule claimed_fails [OF c d bal]) (use False sp spec in \<open>auto simp: balance_error_def movement_error_def is_out_of_range_def\<close>)
  qed
qed

lemma refines_first:
  assumes c: "claims_key env m u st" and sign: "sign = 1 \<or> sign = -1"
    and none: "sql_find (\<lambda>b. bal_player b = u \<and> bal_currency b = mv_currency m) (balances (domain st)) = None"
  shows "refined env m sign st"
proof -
  define d where d: "d = sign * mv_amount m"
  let ?db = "domain st" and ?c = "mv_currency m"
  let ?db1 = "claimed_db env m d u ?db"
  note k = claims_keyD [OF c]
  have sp: "sp_balance (wallet_abs ?db) (u, ?c) = None" using none by (simp add: wallet_abs_sel)
  note spec = spec_claimed [OF c, of d]
  consider "d < 0" | "0 \<le> d" "?c \<in> cur_code ` set (currencies ?db)" | "0 \<le> d" "?c \<notin> cur_code ` set (currencies ?db)" by linarith
  then show ?thesis
  proof cases
    case 1
    then have bal: "apply_balance_tx env (mv_player m) ?c d ?db1
        = Err (if ?c \<in> cur_code ` set (currencies ?db) then Out_of_range else Unknown_currency)"
      using none k by (simp add: apply_balance_tx_def currency_exists_tx_def sql_find_mem)
    show ?thesis by (rule claimed_fails [OF c d bal]) (use 1 sp spec in \<open>auto simp: balance_error_def\<close>)
  next
    case 2
    have "check_amount d = None" using 2(1) delta_bounds [OF k(3) sign] d by (auto simp: check_amount_None max_balance_def max_movement_amount_def)
    then have bal: "apply_balance_tx env (mv_player m) ?c d ?db1 = Ok (d, ?db1\<lparr>balances := balances ?db @
        [\<lparr>bal_player = u, bal_currency = ?c, bal_amount = d, bal_updated = xact_now (we_tx env)\<rparr>]\<rparr>)"
      using none k 2 by (simp add: apply_balance_tx_def sql_find_mem)
    show ?thesis by (rule claimed_succeeds [OF c d bal]) (use 2 sp spec balance_find_append [OF none] in simp_all)
  next
    case 3
    have "check_amount d = None" using 3(1) delta_bounds [OF k(3) sign] d by (auto simp: check_amount_None max_balance_def max_movement_amount_def)
    then have bal: "apply_balance_tx env (mv_player m) ?c d ?db1 = Err (Balance_sql (Sqlstate ''23503'' (Some ''balances_currency_fkey'')))"
      using none k 3 by (simp add: apply_balance_tx_def sql_find_mem)
    show ?thesis
      by (rule claimed_fails [OF c d bal])
        (use 3 sp spec in \<open>auto simp: balance_error_def movement_error_def is_out_of_range_def is_unknown_currency_def\<close>)
  qed
qed

text \<open>A movement under a key that is already recorded.\<close>

lemma refines_recorded:
  assumes q: "quiet env st" "uuid_contract (we_uuid env)" "validate_movement m = Ok ()" "we_uuid env (mv_player m) = Some u"
    and alive: "u \<notin> pg_player ` set (purged (domain st))"
    and l: "sql_find (\<lambda>l. lg_key l = mv_key m) (ledger (domain st)) = Some l"
    and canon: "\<forall>l \<in> set (ledger (domain st)). we_uuid env (lg_player l) = Some (lg_player l)"
  shows "refined env m sign st"
proof -
  have nf: "\<not> we_fault env s" "we_interim env st = st" for s using q(1) by (simp_all add: quiet_def)
  have pg: "is_player_purged_tx env (mv_player m) (domain st) = Ok False"
    using nf(1) q(4) alive by (auto simp: is_player_purged_tx_def sql_find_mem)
  have "we_uuid env (lg_player l) = Some (lg_player l)" using sql_find_Some [OF l] canon by blast
  from player_id_eq_canonical [OF q(2) this q(4)] show ?thesis
    using l q(3,4) nf pg alive
    by (auto simp: refined_def apply_movement_def spec_apply_def apply_on_def Let_def wallet_abs_sel insert_ledger_tx_def
        existing_ledger_tx_def same_movement_def)
qed

text \<open>
  C5. The wallet implements its abstract contract: without faults, \<open>credit\<close> and \<open>debit\<close> answer on every
  branch, and change the tables, exactly as the specification over maps does; validation,
  malformed ids, deleted players, replays and key conflicts, unknown currencies, insufficient
  funds and the ceiling included, and no other error can occur.
\<close>

theorem wallet_refines_spec:
  assumes "quiet env st" and "uuid_contract (we_uuid env)" and "sign = 1 \<or> sign = -1"
    and "wallet_inv (domain st)"
    and "\<forall>l \<in> set (ledger (domain st)). we_uuid env (lg_player l) = Some (lg_player l)"
  shows "fst (apply_movement env m sign st) = fst (spec_apply (we_uuid env) m (sign * mv_amount m) (wallet_abs (domain st)))
    \<and> wallet_abs (domain (snd (apply_movement env m sign st)))
      = snd (spec_apply (we_uuid env) m (sign * mv_amount m) (wallet_abs (domain st)))"
proof -
  have nf: "\<not> we_fault env s" "we_interim env st = st" for s using assms(1) by (simp_all add: quiet_def)
  consider (bad) e where "validate_movement m = Err e" | (id) "validate_movement m = Ok ()" "we_uuid env (mv_player m) = None"
    | (gone) u where "validate_movement m = Ok ()" "we_uuid env (mv_player m) = Some u" "u \<in> pg_player ` set (purged (domain st))"
    | (known) u l where "validate_movement m = Ok ()" "we_uuid env (mv_player m) = Some u" "u \<notin> pg_player ` set (purged (domain st))"
        "sql_find (\<lambda>l. lg_key l = mv_key m) (ledger (domain st)) = Some l"
    | (fresh) u where "claims_key env m u st"
    using assms(1) by (cases "validate_movement m"; cases "we_uuid env (mv_player m)"; cases "sql_find (\<lambda>l. lg_key l = mv_key m) (ledger (domain st))")
      (auto simp: claims_key_def sql_find_None)
  then have "refined env m sign st"
  proof cases
    case bad
    then show ?thesis by (simp add: refined_def apply_movement_def spec_apply_def)
  next
    case id
    then show ?thesis using nf by (simp add: refined_def apply_movement_def spec_apply_def apply_on_def is_player_purged_tx_def Let_def
        movement_error_def is_out_of_range_def is_unknown_currency_def is_invalid_uuid_def)
  next
    case (gone u)
    then have "is_player_purged_tx env (mv_player m) (domain st) = Ok True" using nf(1) by (simp add: is_player_purged_tx_def sql_find_mem)
    with gone show ?thesis using nf by (simp add: refined_def apply_movement_def spec_apply_def apply_on_def Let_def wallet_abs_sel)
  next
    case (known u l)
    then show ?thesis using refines_recorded assms(1,2,5) by blast
  next
    case (fresh u)
    then show ?thesis using refines_existing refines_first assms(3,4)
      by (cases "sql_find (\<lambda>b. bal_player b = u \<and> bal_currency b = mv_currency m) (balances (domain st))") (auto simp: wallet_inv_split)
  qed
  then show ?thesis by (simp add: refined_def)
qed

end
