(* ===== verification/Wallet_Projection.thy ===== *)
theory Wallet_Projection
  imports Wallet_Service
begin

text \<open>
  The wallet's durable handlers (\<open>modules/wallet/src/projection.rs\<close> and the subscriptions of
  \<open>modules/wallet/src/lib.rs\<close>): the starter grant on registration and promotion, the tombstone
  on deletion and the scheduled purge sweep, each on the delivery transaction it is handed. The JSON
  decoders of the payloads are arguments.
\<close>

section \<open>The starter grant\<close>

definition starter_reason :: string where "starter_reason = ''starter-grant''"

definition starter_movement :: "string \<Rightarrow> string \<Rightarrow> int \<Rightarrow> movement" where
  "starter_movement player currency amount =
     \<lparr>mv_key = ''starter:'' @ player, mv_player = player, mv_currency = currency, mv_amount = amount,
      mv_reason = starter_reason\<rparr>"

text \<open>\<open>spec\<close> is what the config reader answers for the two starter knobs.\<close>

definition grant_starter ::
    "wallet_env \<Rightarrow> string \<times> int \<Rightarrow> string \<Rightarrow> wallet_store \<Rightarrow> (op_error + sql_error, wallet_store) result" where
  "grant_starter env spec player st =
     (case spec of (currency, amount) \<Rightarrow>
        if currency = [] \<or> amount \<le> 0 then Ok st
        else if amount > max_movement_amount then Ok st
        else if \<not> is_uuid_text player then Ok st
        else case currency_exists_tx env currency (domain st) of
          Inl e \<Rightarrow> Err (Inr e)
        | Inr False \<Rightarrow> Ok st
        | Inr True \<Rightarrow>
            (case apply_on env (starter_movement player currency amount) 1 st of
               Inl e \<Rightarrow> Err (Inl e)
             | Inr (_, st') \<Rightarrow> Ok st'))"

section \<open>The purge sweep\<close>

definition purge_batch :: nat where "purge_batch = 256"

definition purge_floor :: string where "purge_floor = ''00000000-0000-0000-0000-000000000000''"

text \<open>
  \<open>locked\<close> are the tombstones other transactions hold, \<open>spent k\<close> whether the budget is used up after
  the \<open>k\<close>-th player of the fire.
\<close>

definition due_purges :: "(string \<Rightarrow> bool) \<Rightarrow> string \<Rightarrow> wallet_db \<Rightarrow> string list" where
  "due_purges locked watermark db =
     take purge_batch (map pg_player (sort_key pg_player
       (filter (\<lambda>p. pg_swept p = None \<and> watermark \<le> pg_player p \<and> \<not> locked (pg_player p)) (purged db))))"

definition stamp_swept :: "wallet_env \<Rightarrow> string \<Rightarrow> wallet_db \<Rightarrow> (sql_error, wallet_db) result" where
  "stamp_swept env player db =
     (if we_fault env W_swept then Err conn_lost
      else case we_uuid env player of
        None \<Rightarrow> Err bad_uuid
      | Some u \<Rightarrow> Ok (db\<lparr>purged := sql_update (\<lambda>p. pg_player p = u)
                    (\<lambda>p. p\<lparr>pg_swept := Some (xact_now (we_tx env))\<rparr>) (purged db)\<rparr>))"

fun sweep_players ::
    "wallet_env \<Rightarrow> (nat \<Rightarrow> bool) \<Rightarrow> nat \<Rightarrow> string list \<Rightarrow> wallet_db \<Rightarrow> (sql_error, bool \<times> nat \<times> wallet_db) result" where
  "sweep_players env spent k [] db = Ok (False, k, db)"
| "sweep_players env spent k (player # rest) db =
     (case purge_player_tx env player db of
        Inl e \<Rightarrow> Err e
      | Inr db1 \<Rightarrow>
          (case stamp_swept env player db1 of
             Inl e \<Rightarrow> Err e
           | Inr db2 \<Rightarrow> if spent k then Ok (True, Suc k, db2) else sweep_players env spent (Suc k) rest db2))"

text \<open>The batch loop; \<open>None\<close> is the fuel running out.\<close>

fun sweep_batches ::
    "nat \<Rightarrow> wallet_env \<Rightarrow> (string \<Rightarrow> bool) \<Rightarrow> (nat \<Rightarrow> bool) \<Rightarrow> nat \<Rightarrow> string \<Rightarrow> wallet_db
       \<Rightarrow> (sql_error, wallet_db) result option" where
  "sweep_batches 0 env locked spent k watermark db = None"
| "sweep_batches (Suc fuel) env locked spent k watermark db =
     (if we_fault env W_due then Some (Err conn_lost)
      else let due = due_purges locked watermark db in
      case sweep_players env spent k due db of
        Inl e \<Rightarrow> Some (Err e)
      | Inr (True, _, db') \<Rightarrow> Some (Ok db')
      | Inr (False, k', db') \<Rightarrow>
          if length due < purge_batch then Some (Ok db')
          else sweep_batches fuel env locked spent k' (if due = [] then watermark else last due) db')"

definition sweep_purged_players ::
    "wallet_env \<Rightarrow> (string \<Rightarrow> bool) \<Rightarrow> (nat \<Rightarrow> bool) \<Rightarrow> wallet_db \<Rightarrow> (sql_error, wallet_db) result option" where
  "sweep_purged_players env locked spent db =
     sweep_batches (Suc (length (purged db))) env locked spent 0 purge_floor db"

section \<open>The subscriptions\<close>

definition guest_provider :: string where "guest_provider = ''guest''"

definition on_player_registered ::
    "wallet_env \<Rightarrow> string \<times> int \<Rightarrow> (string \<Rightarrow> (string \<times> string) option) \<Rightarrow> (op_error + sql_error \<Rightarrow> string)
       \<Rightarrow> wallet_db tx_handler" where
  "on_player_registered env spec decode text eid payload st =
     (case decode payload of
        None \<Rightarrow> Failed ''codec''
      | Some (player, provider) \<Rightarrow>
          if provider = guest_provider then Handled st
          else (case grant_starter env spec player st of Inl e \<Rightarrow> Failed (text e) | Inr st' \<Rightarrow> Handled st'))"

definition on_player_promoted ::
    "wallet_env \<Rightarrow> string \<times> int \<Rightarrow> (string \<Rightarrow> string option) \<Rightarrow> (op_error + sql_error \<Rightarrow> string)
       \<Rightarrow> wallet_db tx_handler" where
  "on_player_promoted env spec decode text eid payload st =
     (case decode payload of
        None \<Rightarrow> Failed ''codec''
      | Some player \<Rightarrow>
          (case grant_starter env spec player st of Inl e \<Rightarrow> Failed (text e) | Inr st' \<Rightarrow> Handled st'))"

definition on_player_deleted ::
    "wallet_env \<Rightarrow> (string \<Rightarrow> (string \<times> string) option) \<Rightarrow> wallet_db tx_handler" where
  "on_player_deleted env decode eid payload st =
     (case decode payload of
        None \<Rightarrow> Failed ''codec''
      | Some (player, handle) \<Rightarrow>
          (case plant_purged_player_tx env player handle (domain st) of
             Inl e \<Rightarrow> Failed (we_text env e)
           | Inr db \<Rightarrow> Handled (with_domain st db)))"

definition player_purge_schedule :: string where "player_purge_schedule = ''player-purge''"

definition on_scheduler_fired ::
    "wallet_env \<Rightarrow> (string \<Rightarrow> bool) \<Rightarrow> (nat \<Rightarrow> bool) \<Rightarrow> (string \<Rightarrow> string option) \<Rightarrow> wallet_db tx_handler" where
  "on_scheduler_fired env locked spent decode eid payload st =
     (case decode payload of
        None \<Rightarrow> Failed ''codec''
      | Some name \<Rightarrow>
          if name \<noteq> player_purge_schedule then Handled st
          else (case sweep_purged_players env locked spent (domain st) of
                  None \<Rightarrow> Timed_out
                | Some (Inl e) \<Rightarrow> Failed (we_text env e)
                | Some (Inr db) \<Rightarrow> Handled (with_domain st db)))"

section \<open>Erasing a player\<close>

definition reown :: "string set \<Rightarrow> ledger_row \<Rightarrow> ledger_row" where
  "reown D l = (if lg_player l \<in> D then l\<lparr>lg_player := purge_sentinel\<rparr> else l)"

text \<open>What the sweep of a set of players leaves.\<close>

definition erased :: "instant \<Rightarrow> string set \<Rightarrow> wallet_db \<Rightarrow> wallet_db" where
  "erased now D db = db\<lparr>balances := sql_delete (\<lambda>b. bal_player b \<in> D) (balances db),
     ledger := map (reown D) (ledger db),
     purged := sql_update (\<lambda>p. pg_player p \<in> D) (\<lambda>p. p\<lparr>pg_swept := Some now\<rparr>) (purged db)\<rparr>"

lemma reown_sel [simp]:
  "lg_key (reown D l) = lg_key l" "lg_id (reown D l) = lg_id l" "lg_seq (reown D l) = lg_seq l"
  "lg_currency (reown D l) = lg_currency l" "lg_delta (reown D l) = lg_delta l" "lg_after (reown D l) = lg_after l"
  "lg_reason (reown D l) = lg_reason l"
  "lg_player (reown D l) = (if lg_player l \<in> D then purge_sentinel else lg_player l)"
  by (simp_all add: reown_def)

lemma total_reown:
  "u \<noteq> purge_sentinel \<Longrightarrow> total u c (map (reown D) rows) = (if u \<in> D then 0 else total u c rows)"
  by (induction rows) (auto simp: total_def)

lemma audited_reown: "audited before rows \<Longrightarrow> audited (map (reown D) before) (map (reown D) rows)"
proof (induction rows arbitrary: before)
  case (Cons l rows)
  have "audited (map (reown D) (before @ [l])) (map (reown D) rows)"
    using Cons by (simp del: map_append)
  moreover have "lg_after l = total (lg_player l) (lg_currency l) (map (reown D) (before @ [l]))"
    if "lg_player l \<noteq> purge_sentinel" "lg_player l \<notin> D"
    using Cons.prems that total_reown [of "lg_player l" "lg_currency l" D "before @ [l]"] by simp
  ultimately show ?case by auto
qed simp

lemma amount_of_erased:
  "amount_of u c (erased now D db) = (if u \<in> D then 0 else amount_of u c db)"
proof -
  have "sql_find (\<lambda>b. bal_player b = u \<and> bal_currency b = c) (sql_delete (\<lambda>b. bal_player b \<in> D) bs)
      = (if u \<in> D then None else sql_find (\<lambda>b. bal_player b = u \<and> bal_currency b = c) bs)" for bs :: "balance_row list"
    by (induction bs) auto
  then show ?thesis by (simp add: amount_of_def erased_def)
qed

lemma erased_inv:
  assumes "wallet_inv db"
  shows "wallet_inv (erased now D db)"
proof -
  have "balances_ok (erased now D db)"
    using assms by (auto simp: wallet_inv_split balances_ok_def erased_def sql_delete_def distinct_map
        intro: inj_on_subset)
  moreover have "ledger_ok (erased now D db)"
    using assms audited_reown [of "[]" "ledger db" D]
    by (auto simp: wallet_inv_split ledger_ok_def amount_of_erased)
      (auto simp: erased_def total_reown comp_def)
  moreover have "distinct (map pg_player (purged (erased now D db)))"
    using assms by (simp add: wallet_inv_split erased_def map_sql_update)
  ultimately show ?thesis by (simp add: wallet_inv_split)
qed

lemma erased_compose:
  "erased now D (erased now E db) = erased now (D \<union> E) db"
proof -
  have "reown D (reown E l) = reown (D \<union> E) l" for l
    by (simp add: reown_def)
  moreover have "sql_delete (\<lambda>b. bal_player b \<in> D) (sql_delete (\<lambda>b. bal_player b \<in> E) bs)
      = sql_delete (\<lambda>b. bal_player b \<in> D \<union> E) bs" for bs :: "balance_row list"
    by (induction bs) auto
  moreover have "sql_update (\<lambda>p. pg_player p \<in> D) (\<lambda>p. p\<lparr>pg_swept := Some now\<rparr>)
        (sql_update (\<lambda>p. pg_player p \<in> E) (\<lambda>p. p\<lparr>pg_swept := Some now\<rparr>) ps)
      = sql_update (\<lambda>p. pg_player p \<in> D \<union> E) (\<lambda>p. p\<lparr>pg_swept := Some now\<rparr>) ps" for ps :: "purged_row list"
    by (induction ps) auto
  ultimately show ?thesis by (simp add: erased_def comp_def)
qed

lemma erased_empty: "erased now {} db = db"
proof -
  have "reown {} = (\<lambda>l. l)" by (simp add: reown_def fun_eq_iff)
  then show ?thesis by (simp add: erased_def sql_delete_def sql_update_none)
qed

lemma purge_and_stamp:
  assumes "purge_player_tx env p db = Ok db1" and "stamp_swept env p db1 = Ok db2"
  shows "\<exists>u. we_uuid env p = Some u \<and> db2 = erased (xact_now (we_tx env)) {u} db"
proof -
  have "sql_update (\<lambda>l. lg_player l = u) (\<lambda>l. l\<lparr>lg_player := purge_sentinel\<rparr>) rows = map (reown {u}) rows" for u and rows :: "ledger_row list"
    by (induction rows) (auto simp: reown_def)
  then show ?thesis
    using assms by (auto simp: purge_player_tx_def stamp_swept_def erased_def split: if_splits option.splits)
qed

lemma sweep_players_erased:
  assumes "sweep_players env spent k due db = Ok (stop, k', db')"
    and "\<forall>p \<in> set due. we_uuid env p = Some p"
  shows "\<exists>D. db' = erased (xact_now (we_tx env)) D db \<and> D \<subseteq> set due \<and> (\<not> stop \<longrightarrow> D = set due)"
  using assms
proof (induction due arbitrary: k db)
  case Nil
  then show ?case by (auto simp: erased_empty)
next
  case (Cons p due)
  let ?now = "xact_now (we_tx env)"
  obtain db1 db2 where one: "purge_player_tx env p db = Ok db1" "stamp_swept env p db1 = Ok db2"
    using Cons.prems(1) by (auto split: sum.splits)
  have db2: "db2 = erased ?now {p} db"
    using purge_and_stamp [OF one] Cons.prems(2) by auto
  show ?case
  proof (cases "spent k")
    case True
    with Cons.prems(1) one db2 show ?thesis by auto
  next
    case False
    then have "sweep_players env spent (Suc k) due db2 = Ok (stop, k', db')"
      using Cons.prems(1) one by simp
    then obtain D where D: "db' = erased ?now D db2" "D \<subseteq> set due" "\<not> stop \<longrightarrow> D = set due"
      using Cons.IH Cons.prems(2) by fastforce
    then have "db' = erased ?now (insert p D) db"
      by (simp add: db2 erased_compose)
    with D show ?thesis by (intro exI [of _ "insert p D"]) auto
  qed
qed

lemma sweep_players_no_fault:
  assumes "\<forall>s. \<not> we_fault env s" and "\<forall>k. \<not> spent k" and "\<forall>p \<in> set due. we_uuid env p = Some p"
  shows "\<exists>k' db'. sweep_players env spent k due db = Ok (False, k', db')"
  using assms(3)
  by (induction due arbitrary: k db) (auto simp: assms(1,2) purge_player_tx_def stamp_swept_def)

section \<open>The sweep\<close>

definition unswept :: "wallet_db \<Rightarrow> purged_row list" where
  "unswept db = filter (\<lambda>p. pg_swept p = None) (purged db)"

definition purged_canonical :: "wallet_env \<Rightarrow> wallet_db \<Rightarrow> bool" where
  "purged_canonical env db \<longleftrightarrow> (\<forall>p \<in> set (purged db). we_uuid env (pg_player p) = Some (pg_player p))"

lemma erased_purged: "map pg_player (purged (erased now D db)) = map pg_player (purged db)"
  by (simp add: erased_def map_sql_update)

lemma purged_canonical_erased [simp]: "purged_canonical env (erased now D db) = purged_canonical env db"
proof -
  have "purged_canonical env d \<longleftrightarrow> (\<forall>u \<in> set (map pg_player (purged d)). we_uuid env u = Some u)" for d
    by (auto simp: purged_canonical_def)
  then show ?thesis by (simp only: erased_purged)
qed

lemma unswept_erased: "unswept (erased now D db) = filter (\<lambda>p. pg_player p \<notin> D) (unswept db)"
proof -
  have "filter (\<lambda>p. pg_swept p = None) (sql_update (\<lambda>p. pg_player p \<in> D) (\<lambda>p. p\<lparr>pg_swept := Some now\<rparr>) ps)
      = filter (\<lambda>p. pg_player p \<notin> D) (filter (\<lambda>p. pg_swept p = None) ps)" for ps :: "purged_row list"
    by (induction ps) auto
  then show ?thesis by (simp add: unswept_def erased_def)
qed

lemma due_purges_sub: "set (due_purges locked w db) \<subseteq> pg_player ` set (unswept db)"
  by (auto simp: due_purges_def unswept_def dest!: in_set_takeD)

lemma due_purges_canonical:
  "purged_canonical env db \<Longrightarrow> \<forall>p \<in> set (due_purges locked w db). we_uuid env p = Some p"
  using due_purges_sub [of locked w db] by (auto simp: purged_canonical_def unswept_def)

lemma sweep_batches_erased:
  assumes "sweep_batches fuel env locked spent k w db = Some (Ok db')" and "purged_canonical env db"
  shows "\<exists>D. db' = erased (xact_now (we_tx env)) D db \<and> D \<subseteq> pg_player ` set (purged db)"
  using assms
proof (induction fuel arbitrary: k w db)
  case (Suc fuel)
  let ?due = "due_purges locked w db" and ?now = "xact_now (we_tx env)"
  obtain stop k' db1 where s: "sweep_players env spent k ?due db = Ok (stop, k', db1)"
    using Suc.prems(1) by (auto simp: Let_def split: if_splits sum.splits)
  obtain D where D: "db1 = erased ?now D db" "D \<subseteq> set ?due"
    using sweep_players_erased [OF s due_purges_canonical [OF Suc.prems(2)]] by blast
  have sub: "D \<subseteq> pg_player ` set (purged db)"
    using D(2) due_purges_sub [of locked w db] by (auto simp: unswept_def)
  show ?case
  proof (cases "stop \<or> length ?due < purge_batch")
    case True
    then have "db' = db1" using Suc.prems(1) s by (auto simp: Let_def split: if_splits bool.splits)
    with D sub show ?thesis by blast
  next
    case False
    then have "sweep_batches fuel env locked spent k' (if ?due = [] then w else last ?due) db1 = Some (Ok db')"
      using Suc.prems(1) s by (simp add: Let_def split: if_splits)
    then obtain E where E: "db' = erased ?now E db1" "E \<subseteq> pg_player ` set (purged db1)"
      using Suc.IH Suc.prems(2) D(1) by fastforce
    moreover have "pg_player ` set (purged db1) = pg_player ` set (purged db)"
      using erased_purged [of ?now D db] by (metis D(1) list.set_map)
    ultimately show ?thesis
      using D(1) sub by (intro exI [of _ "E \<union> D"]) (auto simp: erased_compose)
  qed
qed simp

lemma sweep_batches_returns:
  assumes "length (unswept db) < fuel" and "purged_canonical env db"
  shows "\<exists>r. sweep_batches fuel env locked spent k w db = Some r"
  using assms
proof (induction fuel arbitrary: k w db)
  case (Suc fuel)
  let ?due = "due_purges locked w db" and ?now = "xact_now (we_tx env)"
  show ?case
  proof (cases "sweep_players env spent k ?due db")
    case (Inr r)
    obtain stop k' db1 where r: "r = (stop, k', db1)" by (metis prod_cases3)
    show ?thesis
    proof (cases "stop \<or> length ?due < purge_batch")
      case False
      then have db1: "db1 = erased ?now (set ?due) db"
        using sweep_players_erased [OF _ due_purges_canonical [OF Suc.prems(2)]] Inr r by blast
      have "?due \<noteq> []" using False by (auto simp: purge_batch_def)
      then obtain p where p: "p \<in> set (unswept db)" "pg_player p \<in> set ?due"
        using due_purges_sub [of locked w db] by (metis hd_in_set imageE subsetD)
      then have "length (unswept db1) < length (unswept db)"
        unfolding db1 unswept_erased by (intro length_filter_less) auto
      then have "\<exists>r. sweep_batches fuel env locked spent k' (if ?due = [] then w else last ?due) db1 = Some r"
        using Suc.IH [of db1] Suc.prems by (simp add: db1)
      with False Inr r show ?thesis by (auto simp: Let_def)
    qed (use Inr r in \<open>auto simp: Let_def split: bool.splits\<close>)
  qed (simp add: Let_def)
qed simp

lemma sorted_take_drop_le:
  assumes "sorted xs" and "x \<in> set xs" and "x \<notin> set (take n xs)" and "take n xs \<noteq> []"
  shows "last (take n xs) \<le> x"
proof -
  have "x \<in> set (drop n xs)" using assms(2,3) by (metis Un_iff append_take_drop_id set_append)
  moreover have "sorted (take n xs @ drop n xs)" using assms(1) by simp
  ultimately show ?thesis
    using assms(4) last_in_set unfolding sorted_append by blast
qed

lemma sweep_batches_complete:
  assumes "length (unswept db) < fuel" and "purged_canonical env db"
    and nf: "\<forall>s. \<not> we_fault env s" and ns: "\<forall>k. \<not> spent k"
    and "\<forall>p \<in> set (unswept db). w \<le> pg_player p"
  shows "sweep_batches fuel env (\<lambda>_. False) spent k w db
    = Some (Ok (erased (xact_now (we_tx env)) (pg_player ` set (unswept db)) db))"
  using assms(1,2,5)
proof (induction fuel arbitrary: k w db)
  case (Suc fuel)
  let ?now = "xact_now (we_tx env)"
  define S where "S = map pg_player (sort_key pg_player (unswept db))"
  define due where "due = due_purges (\<lambda>_. False) w db"
  have "filter (\<lambda>p. pg_swept p = None \<and> w \<le> pg_player p) (purged db) = unswept db"
    unfolding unswept_def using Suc.prems(3) by (intro filter_cong) (auto simp: unswept_def)
  then have due: "due = take purge_batch S" by (simp add: due_def due_purges_def S_def take_map)
  have S: "set S = pg_player ` set (unswept db)" "sorted S" by (simp_all add: S_def)
  obtain k' db1 where s: "sweep_players env spent k due db = Ok (False, k', db1)"
    using sweep_players_no_fault [OF nf ns due_purges_canonical [OF Suc.prems(2)]] unfolding due_def by blast
  have db1: "db1 = erased ?now (set due) db"
    using sweep_players_erased [OF s] due_purges_canonical [OF Suc.prems(2)] unfolding due_def by blast
  show ?case
  proof (cases "length due < purge_batch")
    case True
    then have "set due = pg_player ` set (unswept db)" using S(1) by (simp add: due)
    with True s db1 nf show ?thesis by (simp add: Let_def due_def [symmetric])
  next
    case False
    then have ne: "due \<noteq> []" by (auto simp: purge_batch_def)
    have "last due \<le> pg_player p" if "p \<in> set (unswept db1)" for p
      using that sorted_take_drop_le [OF S(2), of "pg_player p" purge_batch] ne S(1)
      by (auto simp: db1 unswept_erased due)
    moreover obtain p where "p \<in> set (unswept db)" "pg_player p \<in> set due"
      using ne S(1) by (metis due hd_in_set imageE in_set_takeD)
    then have "length (unswept db1) < length (unswept db)"
      unfolding db1 unswept_erased by (intro length_filter_less) auto
    ultimately have "sweep_batches fuel env (\<lambda>_. False) spent k' (last due) db1
        = Some (Ok (erased ?now (pg_player ` set (unswept db1)) db1))"
      using Suc.IH [of db1] Suc.prems(1,2) by (simp add: db1)
    moreover have "pg_player ` set (unswept db1) \<union> set due = pg_player ` set (unswept db)"
      using S(1) by (auto simp: db1 unswept_erased due dest: in_set_takeD)
    ultimately show ?thesis
      using False s nf ne by (simp add: Let_def due_def [symmetric] db1 erased_compose)
  qed
qed simp



definition plain_uuid :: "string \<Rightarrow> string option" where
  "plain_uuid s = (if is_uuid_text s then Some (if hex32 s = hex32 purge_sentinel then purge_sentinel else the (hex32 s)) else None)"

definition wallet_calm :: "string \<Rightarrow> wallet_env" where
  "wallet_calm ledger_id = \<lparr>we_uuid = plain_uuid, we_tx = \<lparr>xact_id = 9, xact_now = 0\<rparr>, we_ledger_id = ledger_id,
     we_event_id = ledger_id, we_text = (\<lambda>_. []), we_bus_text = (\<lambda>_. []), we_transport = True,
     we_encode = (\<lambda>c. Some ''{}''), we_json = Some, we_fault = (\<lambda>_. False), we_commit_applied = False,
     we_interim = (\<lambda>s. s)\<rparr>"

definition demo_player :: string where "demo_player = ''11111111111111111111111111111111''"

definition demo_wallet :: wallet_db where
  "demo_wallet = \<lparr>currencies = [\<lparr>cur_code = ''gold'', cur_name = ''Gold'', cur_kind = ''soft'', cur_decimals = 0\<rparr>],
     balances = [], ledger = [], next_seq = 1, purged = []\<rparr>"

lemma plain_uuid_demo: "plain_uuid demo_player = Some demo_player" "purge_floor \<le> demo_player"
  by code_simp+


end
