(* ===== verification/Wallet_Run.thy ===== *)
theory Wallet_Run
  imports Wallet_Projection
begin

text \<open>
  The wallet as a system: the step relation of everything that commits on its tables
  (movements, the durable handlers, catalog edits), its invariants over all runs, idempotent
  replays, the event of a movement, the starter grant, and the race of a movement against the
  deletion of its player.
\<close>

section \<open>A concrete uuid type\<close>

lemma lower_hexdigit:
  assumes "is_ascii_hexdigit c"
  shows "is_ascii_hexdigit (to_ascii_lowercase c)" and "to_ascii_lowercase (to_ascii_lowercase c) = to_ascii_lowercase c"
proof -
  have "of_char (char_of (of_char c + 32 :: nat) :: char) = (of_char c + 32 :: nat)"
    if "of_char c \<le> (90::nat)" using that by (simp add: of_char_of)
  with assms show "is_ascii_hexdigit (to_ascii_lowercase c)"
    and "to_ascii_lowercase (to_ascii_lowercase c) = to_ascii_lowercase c"
    by (auto simp: is_ascii_hexdigit_def to_ascii_lowercase_def Let_def)
qed

lemma hex32_digits:
  assumes "hex32 s = Some h"
  shows "hex32 h = Some h" and "\<forall>c \<in> set h. is_ascii_hexdigit c"
proof -
  have h: "h = map to_ascii_lowercase (filter is_ascii_hexdigit s)" "length h = 32"
    using assms by (auto simp: hex32_def Let_def split: if_splits)
  show d: "\<forall>c \<in> set h. is_ascii_hexdigit c"
    using lower_hexdigit(1) by (auto simp: h(1))
  have "map to_ascii_lowercase h = h"
    using lower_hexdigit(2) by (simp add: h(1))
  moreover have "filter is_ascii_hexdigit h = h" using d by simp
  ultimately show "hex32 h = Some h" using h(2) by (simp add: hex32_def)
qed

lemma uuid_bytes_digits: "\<forall>c \<in> set s. is_ascii_hexdigit c \<Longrightarrow> uuid_bytes n b s"
  by (induction s arbitrary: n b) auto

lemma plain_uuid_contract: "uuid_contract plain_uuid"
proof -
  have sent: "is_uuid_text purge_sentinel" by code_simp
  have "plain_uuid u = Some u \<and> hex32 u = hex32 s \<and> hex32 s \<noteq> None" if "plain_uuid s = Some u" for s u
  proof -
    from that have t: "is_uuid_text s" by (auto simp: plain_uuid_def split: if_splits)
    then obtain h where h: "hex32 s = Some h" by (auto simp: is_uuid_text_def split: if_splits)
    show ?thesis
    proof (cases "hex32 s = hex32 purge_sentinel")
      case True
      with that t sent h show ?thesis by (simp add: plain_uuid_def)
    next
      case False
      then have u: "u = h" using that t h by (simp add: plain_uuid_def)
      have "is_uuid_text h"
        using hex32_digits [OF h] uuid_bytes_digits [of h] by (simp add: is_uuid_text_def)
      with False h u hex32_digits(1) [OF h] show ?thesis by (auto simp: plain_uuid_def)
    qed
  qed
  moreover have "plain_uuid purge_sentinel = Some purge_sentinel" using sent by (simp add: plain_uuid_def)
  moreover have "u = u'" if "plain_uuid s = Some u" "plain_uuid s' = Some u'" "hex32 s = hex32 s'" for s s' u u'
    using that by (auto simp: plain_uuid_def split: if_splits)
  ultimately show ?thesis unfolding uuid_contract_def by blast
qed

section \<open>Handlers keep the books\<close>

text \<open>A handler runs on the delivery transaction alone.\<close>

definition calm :: "wallet_env \<Rightarrow> wallet_env" where
  "calm env = env\<lparr>we_interim := (\<lambda>s. s)\<rparr>"

lemma grant_starter_inv:
  assumes "grant_starter env spec player st = Ok st'" and "wallet_inv (domain st)"
    and "wallet_inv (domain (we_interim env st))"
  shows "wallet_inv (domain st')"
  using assms apply_on_inv
  by (fastforce simp: grant_starter_def split: prod.splits if_splits sum.splits bool.splits)

lemma plant_inv:
  assumes "plant_purged_player_tx env player handle db = Ok db'" and "wallet_inv db"
  shows "wallet_inv db'"
proof -
  have "amount_of u c (db\<lparr>purged := ps\<rparr>) = amount_of u c db" for u c ps
    by (simp add: amount_of_def)
  then show ?thesis
    using assms by (auto simp: plant_purged_player_tx_def wallet_inv_def sql_find_None
        split: if_splits option.splits)
qed

interpretation registered_consumer: durable_consumer "on_player_registered (calm env) spec decode text" wallet_inv
  by unfold_locales (auto simp: on_player_registered_def calm_def split: option.splits prod.splits if_splits sum.splits
      intro: grant_starter_inv)

interpretation promoted_consumer: durable_consumer "on_player_promoted (calm env) spec decode text" wallet_inv
  by unfold_locales (auto simp: on_player_promoted_def calm_def split: option.splits sum.splits intro: grant_starter_inv)

interpretation deleted_consumer: durable_consumer "on_player_deleted env decode" wallet_inv
  by unfold_locales (auto simp: on_player_deleted_def with_domain_def split: option.splits prod.splits sum.splits
      intro: plant_inv)

lemma sweep_players_inv:
  "sweep_players env spent k due db = Ok (stop, k', db') \<Longrightarrow> wallet_inv db \<Longrightarrow> wallet_inv db'"
proof (induction due arbitrary: k db)
  case (Cons p due)
  obtain db1 db2 where one: "purge_player_tx env p db = Ok db1" "stamp_swept env p db1 = Ok db2"
    using Cons.prems(1) by (auto split: sum.splits)
  have "wallet_inv db2"
    using purge_and_stamp [OF one] erased_inv [OF Cons.prems(2)] by auto
  with Cons one show ?case by (auto split: if_splits)
qed simp

lemma sweep_batches_inv:
  "sweep_batches fuel env locked spent k w db = Some (Ok db') \<Longrightarrow> wallet_inv db \<Longrightarrow> wallet_inv db'"
proof (induction fuel arbitrary: k w db)
  case (Suc fuel)
  then show ?case
    by (auto simp: Let_def split: if_splits sum.splits bool.splits dest: sweep_players_inv)
qed simp

lemma sweep_purged_inv:
  "sweep_purged_players env locked spent db = Some (Ok db') \<Longrightarrow> wallet_inv db \<Longrightarrow> wallet_inv db'"
  unfolding sweep_purged_players_def by (rule sweep_batches_inv)

interpretation purge_consumer: durable_consumer "on_scheduler_fired env locked spent decode" wallet_inv
  by unfold_locales (auto simp: on_scheduler_fired_def with_domain_def
      split: option.splits if_splits sum.splits intro: sweep_purged_inv)

section \<open>Runs of the wallet\<close>

text \<open>
  Transactions of the wallet in any order: calls on the pool path, deliveries, catalog writes, and what
  other modules do to the plane. All of them read uuids with the same input function; what
  commits inside the window of a movement is itself a run.
\<close>

inductive wallet_step :: "(string \<Rightarrow> string option) \<Rightarrow> wallet_store \<Rightarrow> wallet_store \<Rightarrow> bool" for uuid_in where
  move: "wallet_step uuid_in st (snd (apply_movement env m sign st))"
  if "we_uuid env = uuid_in" and "(wallet_step uuid_in)\<^sup>*\<^sup>* st (we_interim env st)"
| registered: "wallet_step uuid_in st st'"
  if "we_uuid env = uuid_in" and "on_player_registered (calm env) spec decode text eid payload st = Handled st'"
| promoted: "wallet_step uuid_in st st'"
  if "we_uuid env = uuid_in" and "on_player_promoted (calm env) spec' decode' text eid payload st = Handled st'"
| deleted: "wallet_step uuid_in st st'"
  if "we_uuid env = uuid_in" and "on_player_deleted env decode eid payload st = Handled st'"
| fired: "wallet_step uuid_in st st'"
  if "we_uuid env = uuid_in" and "on_scheduler_fired env locked spent decode' eid payload st = Handled st'"
| catalog: "wallet_step uuid_in st (with_domain st db')"
  if "write_currency_tx env code name kind decimals oc (domain st) = Ok db'"
| others: "wallet_step uuid_in st (st\<lparr>plane := p\<rparr>)"

definition wallet_canonical :: "(string \<Rightarrow> string option) \<Rightarrow> wallet_db \<Rightarrow> bool" where
  "wallet_canonical uuid_in db \<longleftrightarrow> (\<forall>l \<in> set (ledger db). uuid_in (lg_player l) = Some (lg_player l))
     \<and> (\<forall>p \<in> set (purged db). uuid_in (pg_player p) = Some (pg_player p))"

text \<open>What no transaction takes back: a recorded movement, unless its player has been deleted.\<close>

definition keeps_ledger :: "wallet_db \<Rightarrow> wallet_db \<Rightarrow> bool" where
  "keeps_ledger db db' \<longleftrightarrow> pg_player ` set (purged db) \<subseteq> pg_player ` set (purged db')
     \<and> (\<forall>l \<in> set (ledger db). \<exists>l' \<in> set (ledger db'). lg_key l' = lg_key l \<and> lg_currency l' = lg_currency l
          \<and> lg_delta l' = lg_delta l \<and> lg_reason l' = lg_reason l \<and> lg_after l' = lg_after l
          \<and> (lg_player l' = lg_player l \<or> lg_player l \<in> pg_player ` set (purged db')))"

definition good_step :: "(string \<Rightarrow> string option) \<Rightarrow> wallet_store \<Rightarrow> wallet_store \<Rightarrow> bool" where
  "good_step uuid_in st st' \<longleftrightarrow> (uuid_contract uuid_in \<and> wallet_inv (domain st) \<and> wallet_canonical uuid_in (domain st) \<longrightarrow>
     wallet_inv (domain st') \<and> wallet_canonical uuid_in (domain st') \<and> keeps_ledger (domain st) (domain st'))"

lemma keeps_ledger_refl: "keeps_ledger db db"
  by (auto simp: keeps_ledger_def)

lemma keeps_ledger_trans:
  assumes "keeps_ledger a b" and "keeps_ledger b c"
  shows "keeps_ledger a c"
  unfolding keeps_ledger_def
proof (intro conjI ballI)
  show "pg_player ` set (purged a) \<subseteq> pg_player ` set (purged c)"
    using assms unfolding keeps_ledger_def by (meson subset_trans)
  fix l assume "l \<in> set (ledger a)"
  then obtain l' where l': "l' \<in> set (ledger b)" "lg_key l' = lg_key l" "lg_currency l' = lg_currency l"
      "lg_delta l' = lg_delta l" "lg_reason l' = lg_reason l" "lg_after l' = lg_after l"
      "lg_player l' = lg_player l \<or> lg_player l \<in> pg_player ` set (purged b)"
    using assms(1) unfolding keeps_ledger_def by blast
  then obtain l'' where l'': "l'' \<in> set (ledger c)" "lg_key l'' = lg_key l'" "lg_currency l'' = lg_currency l'"
      "lg_delta l'' = lg_delta l'" "lg_reason l'' = lg_reason l'" "lg_after l'' = lg_after l'"
      "lg_player l'' = lg_player l' \<or> lg_player l' \<in> pg_player ` set (purged c)"
    using assms(2) unfolding keeps_ledger_def by blast
  have "pg_player ` set (purged b) \<subseteq> pg_player ` set (purged c)"
    using assms(2) by (simp add: keeps_ledger_def)
  then have "lg_player l'' = lg_player l \<or> lg_player l \<in> pg_player ` set (purged c)"
    using l'(7) l''(7) by (metis subsetD)
  with l' l'' show "\<exists>l' \<in> set (ledger c). lg_key l' = lg_key l \<and> lg_currency l' = lg_currency l
          \<and> lg_delta l' = lg_delta l \<and> lg_reason l' = lg_reason l \<and> lg_after l' = lg_after l
          \<and> (lg_player l' = lg_player l \<or> lg_player l \<in> pg_player ` set (purged c))"
    by (intro bexI [of _ l'']) simp_all
qed

lemma good_step_refl: "good_step uuid_in st st"
  by (simp add: good_step_def keeps_ledger_refl)

lemma good_step_trans: "good_step uuid_in a b \<Longrightarrow> good_step uuid_in b c \<Longrightarrow> good_step uuid_in a c"
  unfolding good_step_def using keeps_ledger_trans by blast

lemma keeps_ledger_grow:
  assumes "ledger db' = ledger db @ new" and "purged db' = purged db @ extra"
  shows "keeps_ledger db db'"
  unfolding keeps_ledger_def assms by auto

lemma moved_good:
  assumes "moved m delta u i b (domain st) (domain st')" and "uuid_in s = Some u"
  shows "good_step uuid_in st st'"
proof -
  have "uuid_contract uuid_in \<Longrightarrow> uuid_in u = Some u"
    using assms(2) unfolding uuid_contract_def by blast
  moreover have "keeps_ledger (domain st) (domain st')"
    using assms(1) keeps_ledger_grow by (fastforce simp: moved_def)
  ultimately show ?thesis
    using moved_inv [OF assms(1)] assms(1) unfolding good_step_def wallet_canonical_def moved_def
    by auto
qed

lemma erased_keeps:
  assumes "D \<subseteq> pg_player ` set (purged db)"
  shows "keeps_ledger db (erased now D db)"
proof -
  have "pg_player ` set (purged (erased now D db)) = pg_player ` set (purged db)"
    using erased_purged [of now D db] by (metis list.set_map)
  then show ?thesis
    using assms unfolding keeps_ledger_def by (auto simp: erased_def)
qed

lemma good_rtrancl: "(\<lambda>a b. wallet_step f a b \<and> good_step f a b)\<^sup>*\<^sup>* st st' \<Longrightarrow> good_step f st st'"
  by (induction rule: rtranclp_induct) (auto intro: good_step_refl good_step_trans)

lemma good_next_seq: "good_step f st (with_domain st ((domain st)\<lparr>next_seq := next_seq (domain st) + 1\<rparr>))"
  using wallet_inv_next_seq keeps_ledger_grow [of "(domain st)\<lparr>next_seq := next_seq (domain st) + 1\<rparr>" "domain st" "[]" "[]"]
  by (auto simp: good_step_def wallet_canonical_def with_domain_def)

lemma apply_on_good:
  assumes "apply_on env m sign st = Ok (out, st')" and "we_uuid env = f" and "good_step f st (we_interim env st)"
  shows "good_step f st st'"
proof (cases "\<exists>b. out = Applied b")
  case True
  then obtain b u where "f (mv_player m) = Some u"
      "moved m (sign * mv_amount m) u (we_ledger_id env) b (domain (we_interim env st)) (domain st')"
    using apply_on_Applied [of env m sign st _ st'] assms(1,2) by blast
  then show ?thesis using moved_good good_step_trans [OF assms(3)] by blast
next
  case False
  then consider "st' = st" | "st' = with_domain (we_interim env st)
      ((domain (we_interim env st))\<lparr>next_seq := next_seq (domain (we_interim env st)) + 1\<rparr>)"
    using apply_on_other [OF assms(1)] by blast
  then show ?thesis
  proof cases
    case 1
    then show ?thesis by (simp add: good_step_refl)
  next
    case 2
    then show ?thesis using good_step_trans [OF assms(3) good_next_seq] by simp
  qed
qed

lemma apply_movement_good:
  assumes "we_uuid env = f" and "good_step f st (we_interim env st)"
  shows "good_step f st (snd (apply_movement env m sign st))"
  using apply_movement_state [of env m sign st] apply_on_good assms good_step_refl by metis

lemma grant_good:
  assumes "grant_starter (calm env) spec player st = Ok st'" and "we_uuid env = f"
  shows "good_step f st st'"
proof -
  have "we_uuid (calm env) = f" "we_interim (calm env) st = st" using assms(2) by (simp_all add: calm_def)
  then show ?thesis
    using assms(1) apply_on_good [of "calm env"] good_step_refl
    by (fastforce simp: grant_starter_def split: prod.splits if_splits sum.splits bool.splits)
qed

lemma plant_good:
  assumes "plant_purged_player_tx env player handle (domain st) = Ok db'" and "we_uuid env = f"
  shows "good_step f st (with_domain st db')"
proof -
  have "\<exists>more. ledger db' = ledger (domain st) @ [] \<and> purged db' = purged (domain st) @ more
      \<and> (uuid_contract f \<longrightarrow> (\<forall>p \<in> set more. f (pg_player p) = Some (pg_player p)))"
    using assms by (auto simp: plant_purged_player_tx_def uuid_contract_def split: if_splits option.splits)
  then show ?thesis
    using plant_inv [OF assms(1)] keeps_ledger_grow
    by (fastforce simp: good_step_def wallet_canonical_def with_domain_def)
qed

lemma sweep_good:
  assumes "sweep_purged_players env locked spent (domain st) = Some (Ok db')" and "we_uuid env = f"
  shows "good_step f st (with_domain st db')"
proof -
  have "wallet_canonical f db' \<and> keeps_ledger (domain st) db'"
    if c: "uuid_contract f" "wallet_canonical f (domain st)"
  proof -
    have "purged_canonical env (domain st)"
      using c(2) assms(2) by (auto simp: purged_canonical_def wallet_canonical_def)
    then obtain D where D: "db' = erased (xact_now (we_tx env)) D (domain st)" "D \<subseteq> pg_player ` set (purged (domain st))"
      using sweep_batches_erased [OF assms(1) [unfolded sweep_purged_players_def]] by blast
    have "f purge_sentinel = Some purge_sentinel" using c(1) by (simp add: uuid_contract_def)
    then have "wallet_canonical f db'"
      using c(2) unfolding wallet_canonical_def D(1) by (auto simp: erased_def set_sql_update)
    with erased_keeps [OF D(2)] D(1) show ?thesis by blast
  qed
  with sweep_purged_inv [OF assms(1)] show ?thesis
    by (auto simp: good_step_def with_domain_def)
qed

lemma catalog_good:
  assumes "write_currency_tx env code name kind decimals oc (domain st) = Ok db'"
  shows "good_step f st (with_domain st db')"
proof -
  have upd: "cur_code ` set (sql_update (\<lambda>c. cur_code c = code) (\<lambda>_. \<lparr>cur_code = code, cur_name = name, cur_kind = kind,
      cur_decimals = decimals\<rparr>) rows) = cur_code ` set rows" for rows
    unfolding list.set_map [symmetric] by (subst map_sql_update) simp_all
  define cs where "cs = currencies db'"
  have cs: "db' = (domain st)\<lparr>currencies := cs\<rparr>"
    using assms by (auto simp: cs_def write_currency_tx_def Let_def split: if_splits option.splits on_conflict.splits)
  have codes: "cur_code ` set (currencies (domain st)) \<subseteq> cur_code ` set cs"
    using assms by (auto simp: cs_def write_currency_tx_def Let_def upd split: if_splits option.splits on_conflict.splits)
  have "amount_of u c db' = amount_of u c (domain st)" for u c
    by (simp add: cs amount_of_def)
  moreover have "keeps_ledger (domain st) db'"
    by (rule keeps_ledger_grow [where new = "[]" and extra = "[]"]) (simp_all add: cs)
  ultimately show ?thesis
    using codes unfolding good_step_def wallet_inv_def wallet_canonical_def
    by (simp add: cs with_domain_def) blast
qed

lemma wallet_step_good: "wallet_step f st st' \<Longrightarrow> good_step f st st'"
proof (induction rule: wallet_step.induct)
  case (move env st m sign)
  then show ?case by (blast intro: apply_movement_good good_rtrancl)
next
  case (registered env)
  then show ?case
    using grant_good good_step_refl
    by (fastforce simp: on_player_registered_def split: option.splits prod.splits if_splits sum.splits)
next
  case (promoted env)
  then show ?case
    using grant_good by (fastforce simp: on_player_promoted_def split: option.splits sum.splits)
next
  case (deleted env)
  then show ?case
    using plant_good by (fastforce simp: on_player_deleted_def split: option.splits prod.splits sum.splits)
next
  case (fired env)
  then show ?case
    using sweep_good good_step_refl
    by (fastforce simp: on_scheduler_fired_def split: option.splits if_splits sum.splits)
next
  case (catalog env code name kind decimals oc st db')
  then show ?case by (rule catalog_good)
next
  case (others st p)
  then show ?case by (simp add: good_step_def keeps_ledger_refl)
qed

lemma wallet_run_good: "(wallet_step f)\<^sup>*\<^sup>* st st' \<Longrightarrow> good_step f st st'"
  by (induction rule: rtranclp_induct) (auto intro: good_step_refl good_step_trans wallet_step_good)

definition wallet_start :: "wallet_store \<Rightarrow> bool" where
  "wallet_start st \<longleftrightarrow> balances (domain st) = [] \<and> ledger (domain st) = [] \<and> purged (domain st) = []"

definition books_ok :: "(string \<Rightarrow> string option) \<Rightarrow> wallet_store \<Rightarrow> bool" where
  "books_ok uuid_in st \<longleftrightarrow> (uuid_contract uuid_in \<longrightarrow> wallet_inv (domain st) \<and> wallet_canonical uuid_in (domain st))"

interpretation wallet_sys: invariant_system wallet_start "wallet_step uuid_in" "books_ok uuid_in"
proof
  show "books_ok uuid_in st" if "wallet_start st" for st
    using that by (simp add: wallet_start_def books_ok_def wallet_inv_def wallet_canonical_def amount_of_def)
  show "books_ok uuid_in st'" if "books_ok uuid_in st" "wallet_step uuid_in st st'" for st st'
    using wallet_step_good [OF that(2)] that(1) by (auto simp: good_step_def books_ok_def)
qed

lemma audited_nth:
  assumes "audited before rows" and "i < length rows" and "lg_player (rows ! i) \<noteq> purge_sentinel"
  shows "lg_after (rows ! i) = total (lg_player (rows ! i)) (lg_currency (rows ! i)) (before @ take (Suc i) rows)"
  using assms
proof (induction rows arbitrary: before i)
  case (Cons l rows)
  then show ?case by (cases i) (auto simp: total_def)
qed simp


section \<open>Replays\<close>

definition records :: "movement \<Rightarrow> int \<Rightarrow> string \<Rightarrow> int \<Rightarrow> wallet_db \<Rightarrow> bool" where
  "records m delta u b db \<longleftrightarrow> (\<exists>l \<in> set (ledger db). lg_key l = mv_key m \<and> lg_currency l = mv_currency m
     \<and> lg_delta l = delta \<and> lg_reason l = mv_reason m \<and> lg_after l = b \<and> lg_player l = u)"

lemma records_keeps:
  "records m delta u b db \<Longrightarrow> keeps_ledger db db' \<Longrightarrow> u \<notin> pg_player ` set (purged db') \<Longrightarrow> records m delta u b db'"
  unfolding records_def keeps_ledger_def by metis

lemma apply_on_Duplicate:
  assumes "apply_on env m sign st = Ok (Duplicate b, st')" and "uuid_contract (we_uuid env)"
    and "wallet_canonical (we_uuid env) (domain (we_interim env st))"
  shows "\<exists>u. we_uuid env (mv_player m) = Some u \<and> records m (sign * mv_amount m) u b (domain (we_interim env st))"
proof -
  let ?db = "domain (we_interim env st)"
  obtain db1 ex where ins: "insert_ledger_tx env (mv_key m) (mv_player m) (mv_currency m) (sign * mv_amount m)
        (mv_reason m) ?db = Ok (None, db1)"
      and ex: "existing_ledger_tx env (mv_key m) db1 = Ok (Some ex)" "same_movement ex m (sign * mv_amount m)" "b = ex_after ex"
    using assms(1) by (auto simp: apply_on_def Let_def split: sum.splits option.splits bool.splits prod.splits if_splits)
  obtain u where u: "we_uuid env (mv_player m) = Some u"
    using ins by (auto simp: insert_ledger_tx_def split: if_splits option.splits)
  have "ledger db1 = ledger ?db" using insert_ledger_tx_None [OF ins] by simp
  then obtain l where l: "sql_find (\<lambda>l. lg_key l = mv_key m) (ledger ?db) = Some l"
      "ex = \<lparr>ex_player = lg_player l, ex_currency = lg_currency l, ex_delta = lg_delta l, ex_reason = lg_reason l,
        ex_after = lg_after l\<rparr>"
    using ex(1) by (auto simp: existing_ledger_tx_def split: if_splits)
  have "we_uuid env (lg_player l) = Some (lg_player l)"
    using sql_find_Some [OF l(1)] assms(3) by (auto simp: wallet_canonical_def)
  then have "lg_player l = u"
    using player_id_eq_canonical [OF assms(2) _ u] ex(2) l(2) by (auto simp: same_movement_def)
  with u l ex sql_find_Some [OF l(1)] show ?thesis
    unfolding records_def same_movement_def by auto
qed

lemma apply_movement_records:
  assumes "apply_movement env m sign st = (Ok b, st')" and "uuid_contract (we_uuid env)"
    and "wallet_canonical (we_uuid env) (domain (we_interim env st))"
  shows "\<exists>u. we_uuid env (mv_player m) = Some u \<and> validate_movement m = Ok () \<and> records m (sign * mv_amount m) u b (domain st')"
proof -
  have v: "validate_movement m = Ok ()"
    using assms(1) by (auto simp: apply_movement_def split: sum.splits)
  consider (app) "apply_on env m sign st = Ok (Applied b, st')"
    | (dup) s where "apply_on env m sign st = Ok (Duplicate b, s)" "st' = we_interim env st"
    using assms(1) by (auto simp: apply_movement_def Let_def split: sum.splits if_splits outcome.splits)
  then show ?thesis
  proof cases
    case app
    with apply_on_Applied [OF app] show ?thesis by (auto simp: moved_def records_def v)
  next
    case dup
    with apply_on_Duplicate [OF dup(1) assms(2,3)] v show ?thesis by blast
  qed
qed

lemma apply_movement_replay:
  assumes "records m (sign * mv_amount m) u b (domain st)" and "wallet_inv (domain st)" and "validate_movement m = Ok ()"
    and "uuid_contract (we_uuid env)" and u: "we_uuid env (mv_player m) = Some u" and "we_uuid env u = Some u"
    and alive: "u \<notin> pg_player ` set (purged (domain st))"
    and quiet: "\<forall>s. \<not> we_fault env s" "we_interim env st = st"
  shows "apply_movement env m sign st = (Ok b, st)"
proof -
  obtain l where l: "l \<in> set (ledger (domain st))" "lg_key l = mv_key m" "lg_currency l = mv_currency m"
      "lg_delta l = sign * mv_amount m" "lg_reason l = mv_reason m" "lg_after l = b" "lg_player l = u"
    using assms(1) unfolding records_def by blast
  have find: "sql_find (\<lambda>l. lg_key l = mv_key m) (ledger (domain st)) = Some l"
    using assms(2) l(1,2) by (intro sql_find_key [where key = lg_key]) (auto simp: wallet_inv_def)
  have key: "mv_key m \<in> lg_key ` set (ledger (domain st))" using l(1,2) by force
  have "player_id_eq u (mv_player m)"
    using player_id_eq_canonical [OF assms(4,6) u] by simp
  with key show ?thesis
    using assms(3) u alive quiet find l
    by (simp add: apply_movement_def apply_on_def is_player_purged_tx_def sql_find_mem insert_ledger_tx_def
        existing_ledger_tx_def same_movement_def Let_def)
qed

text \<open>
  C20. Replays are idempotent for ever: once a credit or debit has answered with a balance, repeating it
  later under the same key, after any other transactions of the wallet, answers with the same
  balance and moves nothing, as long as the player has not been deleted.
\<close>

theorem movement_replay_idempotent:
  assumes "uuid_contract (we_uuid env)" and "wallet_start st0" and "(wallet_step (we_uuid env))\<^sup>*\<^sup>* st0 st"
    and "(wallet_step (we_uuid env))\<^sup>*\<^sup>* st (we_interim env st)"
    and "apply_movement env m sign st = (Ok b, st1)" and "(wallet_step (we_uuid env))\<^sup>*\<^sup>* st1 st2"
    and "we_uuid env' = we_uuid env" and "\<forall>s. \<not> we_fault env' s" and "we_interim env' st2 = st2"
    and "\<forall>p \<in> set (purged (domain st2)). we_uuid env (mv_player m) \<noteq> Some (pg_player p)"
  shows "apply_movement env' m sign st2 = (Ok b, st2)"
proof -
  let ?f = "we_uuid env"
  have "(wallet_step ?f)\<^sup>*\<^sup>* st0 (we_interim env st)" using assms(3,4) by (rule rtranclp_trans)
  then have c: "wallet_canonical ?f (domain (we_interim env st))"
    using wallet_sys.reachable_inv [OF assms(2)] assms(1) by (auto simp: books_ok_def)
  obtain u where u: "?f (mv_player m) = Some u" "validate_movement m = Ok ()"
    and rec: "records m (sign * mv_amount m) u b (domain st1)"
    using apply_movement_records [OF assms(5,1) c] by blast
  have "wallet_step ?f st st1"
    using wallet_step.move [of env ?f st m sign] assms(4,5) by simp
  then have run: "(wallet_step ?f)\<^sup>*\<^sup>* st0 st1" using assms(3) by simp
  then have ok1: "wallet_inv (domain st1)" "wallet_canonical ?f (domain st1)"
    using wallet_sys.reachable_inv [OF assms(2)] assms(1) by (auto simp: books_ok_def)
  then have ok2: "wallet_inv (domain st2)" "keeps_ledger (domain st1) (domain st2)"
    using wallet_run_good [OF assms(6)] assms(1) by (auto simp: good_step_def)
  have alive: "u \<notin> pg_player ` set (purged (domain st2))" using assms(10) u(1) by auto
  have canon: "?f u = Some u" using assms(1) u(1) unfolding uuid_contract_def by blast
  show ?thesis
    by (rule apply_movement_replay [OF records_keeps [OF rec ok2(2) alive] ok2(1) u(2)])
      (use assms(1,7-9) u(1) canon alive in simp_all)
qed

definition demo_books :: wallet_store where
  "demo_books = \<lparr>plane = empty_plane, domain = demo_wallet\<rparr>"

definition demo_credit :: movement where
  "demo_credit = \<lparr>mv_key = ''k'', mv_player = demo_player, mv_currency = ''gold'', mv_amount = 5, mv_reason = ''gift''\<rparr>"

lemma demo_start: "wallet_start demo_books"
  by (simp add: wallet_start_def demo_books_def demo_wallet_def)

lemmas emit_eval = emit_tx_def enqueue_tx_def ensure_history_contract_def append_def append_event_def from_utf8_def
  changed_contract_def empty_plane_def policy_columns_def history_drifted_def i32_try_from_def i32_max_def Let_def

lemmas movement_eval = apply_movement_def apply_on_def is_player_purged_tx_def insert_ledger_tx_def apply_balance_tx_def
  set_balance_after_tx_def currency_exists_tx_def check_amount_def i64_min_def i64_max_def max_balance_def

lemma demo_valid: "validate_movement demo_credit = Ok ()"
  by code_simp

lemma demo_credit_result:
  "case apply_movement (wallet_calm ''l'') demo_credit 1 demo_books of (r, st) \<Rightarrow> r = Ok 5 \<and> ledger (domain st) =
    [\<lparr>lg_seq = 2, lg_id = ''l'', lg_key = ''k'', lg_player = demo_player, lg_currency = ''gold'', lg_delta = 5, lg_after = 5,
      lg_reason = ''gift''\<rparr>] \<and> purged (domain st) = []"
  using demo_valid plain_uuid_demo(1)
  by (simp add: movement_eval emit_eval wallet_calm_def demo_credit_def demo_books_def demo_wallet_def)

lemma demo_credit_answer: "fst (apply_movement (wallet_calm ''l'') demo_credit 1 demo_books) = Ok 5"
  using demo_credit_result by (simp add: split_beta)

lemmas demo_credit_state = demo_credit_result [unfolded split_beta, THEN conjunct2]

lemma demo_credit_step: "wallet_step plain_uuid demo_books (snd (apply_movement (wallet_calm l) m sign demo_books))"
  by (rule wallet_step.move) (simp_all add: wallet_calm_def)

lemma demo_quiet: "quiet (wallet_calm ''l'') demo_books"
  by (simp add: quiet_def wallet_calm_def demo_books_def demo_wallet_def emit_eval)

lemma demo_inv: "wallet_inv demo_wallet"
  by (simp add: wallet_inv_def demo_wallet_def amount_of_def)

theorem wallet_refines_spec_witness:
  "fst (apply_movement (wallet_calm ''l'') demo_credit 1 demo_books)
     = fst (spec_apply plain_uuid demo_credit 5 (wallet_abs demo_wallet))"
  using wallet_refines_spec [of "wallet_calm ''l''" demo_books 1 demo_credit] demo_quiet plain_uuid_contract demo_inv
  by (simp add: demo_books_def wallet_calm_def demo_credit_def demo_wallet_def)


theorem movement_replay_idempotent_witness:
  "let st1 = snd (apply_movement (wallet_calm ''l'') demo_credit 1 demo_books)
   in apply_movement (wallet_calm ''l2'') demo_credit 1 st1 = (Ok 5, st1)"
proof -
  let ?st1 = "snd (apply_movement (wallet_calm ''l'') demo_credit 1 demo_books)"
  have a: "apply_movement (wallet_calm ''l'') demo_credit 1 demo_books = (Ok 5, ?st1)"
    using demo_credit_answer by (metis prod.collapse)
  have f: "we_uuid (wallet_calm x) = plain_uuid" "we_interim (wallet_calm x) s = s" "\<not> we_fault (wallet_calm x) w" for x s w
    by (simp_all add: wallet_calm_def)
  show ?thesis
    using movement_replay_idempotent [of "wallet_calm ''l''" demo_books demo_books demo_credit 1 5 ?st1 ?st1 "wallet_calm ''l2''"]
      a plain_uuid_contract demo_start demo_credit_state by (simp add: f)
qed

section \<open>The event of a movement\<close>

text \<open>
  C30. Exactly one \<open>wallet.changed\<close> per movement: a movement that is applied appends exactly one event, in
  its own transaction, and that event's payload encodes this movement with its resulting
  balance and ledger id; a replay, a conflict or a deleted player's movement appends none.
\<close>

theorem movement_emits_once:
  "case apply_on env m sign st of
     Inr (Applied b, st') \<Rightarrow> (\<exists>row u p. we_uuid env (mv_player m) = Some u
        \<and> we_encode env \<lparr>ch_player = u, ch_currency = mv_currency m, ch_delta = sign * mv_amount m, ch_after = b,
             ch_reason = mv_reason m, ch_ledger = we_ledger_id env\<rparr> = Some p
        \<and> we_json env p = Some (ev_payload row) \<and> ev_topic row = ''wallet.changed'' \<and> ev_version row = 1
        \<and> ev_xid row = xact_id (we_tx env) \<and> events (plane st') = events (plane (we_interim env st)) @ [row])
   | Inr (_, st') \<Rightarrow> plane st' \<in> {plane st, plane (we_interim env st)}
   | Inl _ \<Rightarrow> True"
proof (cases "apply_on env m sign st")
  case (Inr r)
  obtain out st' where r: "apply_on env m sign st = Ok (out, st')" using Inr by (cases r) auto
  show ?thesis
  proof (cases "\<exists>b. out = Applied b")
    case True
    then obtain b where b: "out = Applied b" by blast
    from apply_on_Applied [of env m sign st b st'] r b obtain u where u: "we_uuid env (mv_player m) = Some u"
      and e: "emit_tx (we_transport env) (we_json env) (we_tx env) (we_event_id env) PgConnection changed_contract
        (we_encode env \<lparr>ch_player = u, ch_currency = mv_currency m, ch_delta = sign * mv_amount m,
           ch_after = b, ch_reason = mv_reason m, ch_ledger = we_ledger_id env\<rparr>)
        (plane (we_interim env st)) = Ok (plane st')" by blast
    show ?thesis using emit_tx_appends [OF e] u r b by (auto simp: changed_contract_def)
  next
    case False
    with apply_on_other [OF r] r show ?thesis by (auto simp: with_domain_def split: outcome.splits)
  qed
qed simp

section \<open>The starter grant\<close>

lemma uuid_bytes_length:
  "uuid_bytes d h s \<Longrightarrow> length s \<le> 2 * length (filter is_ascii_hexdigit s) + (if h then 0 else 1)"
  by (induction d h s rule: uuid_bytes.induct) (auto split: if_splits)

lemma uuid_bytes_chars:
  "uuid_bytes d h s \<Longrightarrow> c \<in> set s \<Longrightarrow> 33 \<le> (of_char c :: nat) \<and> (of_char c :: nat) < 128"
  by (induction d h s rule: uuid_bytes.induct) (auto simp: is_ascii_hexdigit_def Let_def split: if_splits)

lemma is_uuid_text_shape:
  assumes "is_uuid_text s"
  shows "trim s = s" and "s \<noteq> []" and "length s \<le> 65"
proof -
  have u: "uuid_bytes 0 False s" and n: "length (filter is_ascii_hexdigit s) = 32"
    using assms by (auto simp: is_uuid_text_def hex32_def Let_def split: if_splits)
  show ne: "s \<noteq> []" using n by auto
  show "trim s = s" by (rule trim_id) (use ne uuid_bytes_chars [OF u] in auto)
  show "length s \<le> 65" using uuid_bytes_length [OF u] n by simp
qed

lemma trim_starter: "is_uuid_text p \<Longrightarrow> trim (''starter:'' @ p) \<noteq> []"
  using trim_id [of "''starter:'' @ p"] is_uuid_text_shape [of p] uuid_bytes_chars [of 0 False p "last p"]
  by (auto simp: is_uuid_text_def split: if_splits)

lemma starter_valid:
  assumes "is_uuid_text p" and "c \<noteq> []" and "length c \<le> 32" and "0 < a" and "a \<le> max_movement_amount"
  shows "validate_movement (starter_movement p c a) = Ok ()"
  using assms is_uuid_text_shape [OF assms(1)] trim_starter [OF assms(1)]
  by (auto simp: validate_movement_def starter_movement_def starter_reason_def max_idempotency_key_bytes_def
      max_currency_code_bytes_def max_reason_bytes_def)

lemma credit_balance:
  assumes "wallet_inv db" and "balances db1 = balances db" and "currencies db1 = currencies db" and "\<And>s. \<not> we_fault env s"
    and "we_uuid env p = Some u" and "0 < a" and "a \<le> max_movement_amount" and "\<exists>r \<in> set (currencies db). cur_code r = c"
  shows "apply_balance_tx env p c a db1 =
      Err (Balance_sql (Sqlstate ''23514'' (Some ''balances_amount_check''))) \<and> max_balance < amount_of u c db + a
    \<or> (\<exists>b db2. apply_balance_tx env p c a db1 = Ok (b, db2)) \<and> amount_of u c db + a \<le> max_balance"
proof (cases "sql_find (\<lambda>b. bal_player b = u \<and> bal_currency b = c) (balances db)")
  case None
  have "sql_find (\<lambda>r. cur_code r = c) (currencies db) \<noteq> None" using assms(8) by (simp add: sql_find_mem image_iff) metis
  with None assms show ?thesis
    by (simp add: apply_balance_tx_def check_amount_def amount_of_def max_balance_def max_movement_amount_def i64_min_def i64_max_def)
next
  case (Some r)
  then have "0 \<le> bal_amount r \<and> bal_amount r \<le> max_balance" using assms(1) by (auto simp: wallet_inv_def dest: sql_find_Some)
  with Some assms show ?thesis
    by (auto simp: apply_balance_tx_def check_amount_def amount_of_def max_balance_def max_movement_amount_def i64_min_def i64_max_def)
qed

lemma apply_on_settled:
  assumes "quiet env st" and "validate_movement m = Ok ()" and "we_uuid env (mv_player m) = Some u"
    and "u \<in> pg_player ` set (purged (domain st)) \<or> mv_key m \<in> lg_key ` set (ledger (domain st))"
  shows "\<exists>r. apply_on env m sign st = Ok r"
proof -
  have q: "\<not> we_fault env s" "we_interim env st = st" for s using assms(1) by (auto simp: quiet_def)
  show ?thesis
  proof (cases "u \<in> pg_player ` set (purged (domain st))")
    case True
    then have "sql_find (\<lambda>p. pg_player p = u) (purged (domain st)) \<noteq> None" by (simp add: sql_find_mem)
    with q assms(2,3) show ?thesis by (auto simp: apply_on_def is_player_purged_tx_def)
  next
    case False
    with assms(4) have "mv_key m \<in> lg_key ` set (ledger (domain st))" by simp
    then obtain l where "sql_find (\<lambda>l. lg_key l = mv_key m) (ledger (domain st)) = Some l"
      using sql_find_mem [of lg_key "mv_key m" "ledger (domain st)"] by blast
    moreover have "sql_find (\<lambda>p. pg_player p = u) (purged (domain st)) = None" using False by (simp add: sql_find_mem)
    ultimately show ?thesis using q assms(2,3)
      by (auto simp: apply_on_def is_player_purged_tx_def insert_ledger_tx_def existing_ledger_tx_def Let_def)
  qed
qed

lemma credit_claimed:
  assumes "claims_key env m u st" "wallet_inv (domain st)" "0 < mv_amount m" "mv_amount m \<le> max_movement_amount"
    and "\<exists>r \<in> set (currencies (domain st)). cur_code r = mv_currency m"
  shows "apply_on env m 1 st = Err (op_err Conflict ''movement rejected: insufficient funds or balance ceiling exceeded'')
      \<and> max_balance < amount_of u (mv_currency m) (domain st) + mv_amount m
    \<or> (\<exists>r. apply_on env m 1 st = Ok r) \<and> amount_of u (mv_currency m) (domain st) + mv_amount m \<le> max_balance"
proof -
  note k = claims_keyD [OF assms(1)]
  let ?db1 = "claimed_db env m (mv_amount m) u (domain st)"
  have "balance_error env (Balance_sql (Sqlstate ''23514'' (Some ''balances_amount_check'')))
      = op_err Conflict ''movement rejected: insufficient funds or balance ceiling exceeded''"
    by (simp add: balance_error_def movement_error_def is_out_of_range_def)
  moreover have "apply_balance_tx env (mv_player m) (mv_currency m) (mv_amount m) ?db1
        = Err (Balance_sql (Sqlstate ''23514'' (Some ''balances_amount_check''))) \<and> max_balance < amount_of u (mv_currency m) (domain st) + mv_amount m
      \<or> (\<exists>b db2. apply_balance_tx env (mv_player m) (mv_currency m) (mv_amount m) ?db1 = Ok (b, db2))
        \<and> amount_of u (mv_currency m) (domain st) + mv_amount m \<le> max_balance"
    by (rule credit_balance [OF assms(2) claimed_db_sel(1,2) k(1,4) assms(3-5)])
  ultimately show ?thesis using apply_on_claimed [OF assms(1), of "mv_amount m" 1] by auto
qed


definition rich_wallet :: wallet_store where
  "rich_wallet = demo_books\<lparr>domain := demo_wallet\<lparr>
     balances := [\<lparr>bal_player = demo_player, bal_currency = ''gold'', bal_amount = 1000000000000000, bal_updated = 0\<rparr>],
     ledger := [\<lparr>lg_seq = 0, lg_id = ''x'', lg_key = ''x'', lg_player = demo_player, lg_currency = ''gold'',
       lg_delta = 1000000000000000, lg_after = 1000000000000000, lg_reason = []\<rparr>]\<rparr>\<rparr>"

lemma rich_wallet_ok: "quiet (wallet_calm ''l'') rich_wallet" "wallet_inv (domain rich_wallet)"
  using demo_quiet
  by (auto simp: rich_wallet_def quiet_def demo_books_def demo_wallet_def wallet_calm_def wallet_inv_def amount_of_def
      total_def max_balance_def demo_player_def purge_sentinel_def)


section \<open>Deletion against a movement in flight\<close>

text \<open>Another session deletes the player and sweeps them between the tombstone check and the ledger insert.\<close>

definition racing_env :: wallet_env where
  "racing_env = (wallet_calm ''l'')\<lparr>we_interim := (\<lambda>st.
     case on_player_deleted (wallet_calm ''d'') (\<lambda>p. Some (demo_player, ''h'')) ''e1'' [] st of
       Handled st1 \<Rightarrow>
         (case on_scheduler_fired (wallet_calm ''s'') (\<lambda>_. False) (\<lambda>_. False) (\<lambda>p. Some player_purge_schedule) ''e2'' [] st1 of
            Handled st2 \<Rightarrow> st2 | _ \<Rightarrow> st1)
     | _ \<Rightarrow> st)\<rparr>"


end
