(* ===== verification/Party_Store.thy ===== *)
theory Party_Store
  imports Event_Worker Opsapi "HOL-Library.Word"
begin

unbundle bit_operations_syntax

text \<open>
  The party module's tables (\<open>modules/party/src/lib.rs\<close>, DDL) and the statements on them
  (\<open>modules/party/src/store.rs\<close>). A column of type \<open>uuid\<close> holds the canonical text; a text argument
  passes the \<open>uuid\<close> input function, a parameter, as does the rendering of an instant. An
  environment also says which statement the connection fails on.
\<close>

section \<open>Tables\<close>

record revision_row =
  rv_player :: string
  rv_revision :: int

record party_row =
  pa_id :: string
  pa_leader :: string
  pa_revision :: int
  pa_created :: instant

record member_row =
  mb_player :: string
  mb_party :: string
  mb_ready :: string
  mb_joined :: instant
  mb_lease :: instant

record invite_row =
  iv_id :: string
  iv_party :: string
  iv_inviter :: string
  iv_invitee :: string
  iv_expires :: instant

record party_db =
  revision_seq :: int
  player_revisions :: "revision_row list"
  parties :: "party_row list"
  members :: "member_row list"
  invites :: "invite_row list"

text \<open>The statements of a request, numbered where a request repeats them, and the points where other sessions commit.\<close>

datatype party_stmt =
  P_begin nat | P_party_of nat | P_lock nat | P_again nat | P_rollback nat | P_commit nat
| P_insert_member | P_nextval | P_parties | P_revision | P_leader | P_is_member | P_count | P_remove
| P_renew | P_ready | P_invite | P_consume | P_decline | P_dissolve | P_view nat | P_snapshot | P_due | P_purge

datatype party_point = Before_read nat | Awaiting_lock nat | Before_view nat | Before_snapshot

record summary =
  su_player :: string
  su_handle :: string

record party_env =
  pe_uuid :: "string \<Rightarrow> string option"
  pe_now :: instant
  pe_clock :: instant
  pe_party_id :: string
  pe_invite_id :: string
  pe_rfc3339 :: "instant \<Rightarrow> string"
  pe_text :: "sql_error \<Rightarrow> string"
  pe_fault :: "party_stmt \<Rightarrow> bool"
  pe_commit_applied :: bool
  pe_others :: "party_point \<Rightarrow> party_db \<Rightarrow> party_db"
  pe_find_by_handle :: "string \<Rightarrow> (op_error, summary option) result"
  pe_players_by_id :: "string list \<Rightarrow> summary list option"
  pe_lease_secs :: int

definition secs :: "int \<Rightarrow> instant" where "secs n = n * 1000000"

text \<open>One statement whose uuid argument is a text.\<close>

definition statement ::
    "party_env \<Rightarrow> party_stmt \<Rightarrow> (sql_error, 'a) result \<Rightarrow> (sql_error, 'a) result" where
  "statement env st r = (if pe_fault env st then Err conn_lost else r)"

definition cast ::
    "party_env \<Rightarrow> string \<Rightarrow> (string \<Rightarrow> (sql_error, 'a) result) \<Rightarrow> (sql_error, 'a) result" where
  "cast env s f = (case pe_uuid env s of None \<Rightarrow> Err bad_uuid | Some u \<Rightarrow> f u)"

definition is_unique_violation :: "sql_error \<Rightarrow> bool" where
  "is_unique_violation e = (case e of Sqlstate c k \<Rightarrow> c = ''23505'')"

section \<open>The party lock\<close>

text \<open>FNV-1a over the normalised id, in wrapping 64-bit arithmetic.\<close>

definition fnv_step :: "64 word \<Rightarrow> char \<Rightarrow> 64 word" where
  "fnv_step h b = (h XOR of_nat (of_char b)) * 0x100000001b3"

definition party_lock_key :: "string \<Rightarrow> int" where
  "party_lock_key party_id =
     (let hex = map to_ascii_lowercase (filter is_ascii_hexdigit party_id);
          normalized = (if length hex = 32 then hex else party_id)
      in sint (foldl fnv_step 0xcbf29ce484222325 (''party.party/'' @ normalized)))"

section \<open>Views\<close>

record view_row =
  vw_party :: string
  vw_revision :: int
  vw_leader :: string
  vw_members :: "string list"
  vw_readies :: "string list"
  vw_lease :: string

record invite_answer =
  ia_id :: string
  ia_party :: string
  ia_inviter :: string
  ia_expires :: string

text \<open>The roster in the order of the aggregates: \<open>ORDER BY m.joined_at, m.player_id\<close>.\<close>

definition roster :: "string \<Rightarrow> party_db \<Rightarrow> member_row list" where
  "roster pid db = sort_key (\<lambda>m. (mb_joined m, mb_player m)) (filter (\<lambda>m. mb_party m = pid) (members db))"

abbreviation member_of :: "string \<Rightarrow> party_db \<Rightarrow> member_row option" where
  "member_of u db \<equiv> sql_find (\<lambda>m. mb_player m = u) (members db)"

abbreviation party_at :: "string \<Rightarrow> party_db \<Rightarrow> party_row option" where
  "party_at pid db \<equiv> sql_find (\<lambda>p. pa_id p = pid) (parties db)"

definition revision_of :: "string \<Rightarrow> party_db \<Rightarrow> int" where
  "revision_of u db = (case sql_find (\<lambda>r. rv_player r = u) (player_revisions db) of
     None \<Rightarrow> 0 | Some r \<Rightarrow> rv_revision r)"

definition player_view :: "party_env \<Rightarrow> party_stmt \<Rightarrow> string \<Rightarrow> party_db \<Rightarrow> (sql_error, view_row) result" where
  "player_view env st player db = statement env st (cast env player (\<lambda>u.
     Ok (case member_of u db of
           Some me \<Rightarrow>
             (case party_at (mb_party me) db of
                Some p \<Rightarrow> \<lparr>vw_party = pa_id p, vw_revision = pa_revision p, vw_leader = pa_leader p,
                  vw_members = map mb_player (roster (pa_id p) db), vw_readies = map mb_ready (roster (pa_id p) db),
                  vw_lease = pe_rfc3339 env (mb_lease me)\<rparr>
              | None \<Rightarrow> \<lparr>vw_party = [], vw_revision = revision_of u db, vw_leader = [], vw_members = [],
                  vw_readies = [], vw_lease = []\<rparr>)
         | None \<Rightarrow> \<lparr>vw_party = [], vw_revision = revision_of u db, vw_leader = [], vw_members = [],
             vw_readies = [], vw_lease = []\<rparr>)))"

definition party_view_tx :: "party_env \<Rightarrow> string \<Rightarrow> party_db \<Rightarrow> (sql_error, view_row option) result" where
  "party_view_tx env pid db = statement env P_snapshot
     (Ok (case party_at pid db of
            None \<Rightarrow> None
          | Some p \<Rightarrow>
              if roster pid db = [] then None
              else Some \<lparr>vw_party = pa_id p, vw_revision = pa_revision p, vw_leader = pa_leader p,
                vw_members = map mb_player (roster pid db), vw_readies = map mb_ready (roster pid db), vw_lease = []\<rparr>))"

section \<open>Reads\<close>

definition party_of_tx :: "party_env \<Rightarrow> party_stmt \<Rightarrow> string \<Rightarrow> party_db \<Rightarrow> (sql_error, string option) result" where
  "party_of_tx env st player db = statement env st (cast env player (\<lambda>u. Ok (map_option mb_party (member_of u db))))"

definition led_party_tx :: "party_env \<Rightarrow> party_stmt \<Rightarrow> string \<Rightarrow> party_db \<Rightarrow> (sql_error, string option) result" where
  "led_party_tx env st player db = statement env st (cast env player (\<lambda>u.
     Ok (case member_of u db of
           None \<Rightarrow> None
         | Some m \<Rightarrow>
             (case party_at (mb_party m) db of
                None \<Rightarrow> None
              | Some p \<Rightarrow> if pa_leader p = u then Some (mb_party m) else None))))"

definition is_member_tx :: "party_env \<Rightarrow> string \<Rightarrow> string \<Rightarrow> party_db \<Rightarrow> (sql_error, bool) result" where
  "is_member_tx env pid player db = statement env P_is_member (cast env player (\<lambda>u.
     Ok (sql_find (\<lambda>m. mb_player m = u \<and> mb_party m = pid) (members db) \<noteq> None)))"

definition count_members_tx :: "party_env \<Rightarrow> string \<Rightarrow> party_db \<Rightarrow> (sql_error, int) result" where
  "count_members_tx env pid db = statement env P_count
     (Ok (int (length (filter (\<lambda>m. mb_party m = pid) (members db)))))"

section \<open>Stamps\<close>

definition next_revision_tx :: "party_env \<Rightarrow> party_db \<Rightarrow> (sql_error, int \<times> party_db) result" where
  "next_revision_tx env db = statement env P_nextval
     (if revision_seq db \<ge> i64_max then Err (Sqlstate ''2200H'' None)
      else Ok (revision_seq db + 1, db\<lparr>revision_seq := revision_seq db + 1\<rparr>))"

definition record_player_revision_tx ::
    "party_env \<Rightarrow> string \<Rightarrow> int \<Rightarrow> party_db \<Rightarrow> (sql_error, party_db) result" where
  "record_player_revision_tx env u revision db = statement env P_revision
     (Ok (db\<lparr>player_revisions :=
        (if sql_find (\<lambda>r. rv_player r = u) (player_revisions db) = None
         then player_revisions db @ [\<lparr>rv_player = u, rv_revision = revision\<rparr>]
         else sql_update (\<lambda>r. rv_player r = u) (\<lambda>r. r\<lparr>rv_revision := revision\<rparr>) (player_revisions db))\<rparr>))"

definition insert_member_tx ::
    "party_env \<Rightarrow> string \<Rightarrow> string option \<Rightarrow> party_db \<Rightarrow> (sql_error, string \<times> party_db) result" where
  "insert_member_tx env u party db = statement env P_insert_member
     (let pid = (case party of None \<Rightarrow> pe_party_id env | Some p \<Rightarrow> p) in
      if member_of u db \<noteq> None then Err (Sqlstate ''23505'' (Some ''members_pkey''))
      else Ok (pid, db\<lparr>members := members db @
        [\<lparr>mb_player = u, mb_party = pid, mb_ready = ''not_ready'', mb_joined = pe_clock env,
          mb_lease = pe_clock env + secs (pe_lease_secs env)\<rparr>]\<rparr>))"

definition create_tx :: "party_env \<Rightarrow> string \<Rightarrow> party_db \<Rightarrow> (sql_error, (string \<times> int) \<times> party_db) result" where
  "create_tx env player db = cast env player (\<lambda>u.
     case insert_member_tx env u None db of
       Inl e \<Rightarrow> Err e
     | Inr (pid, db1) \<Rightarrow>
         (case next_revision_tx env db1 of
            Inl e \<Rightarrow> Err e
          | Inr (revision, db2) \<Rightarrow>
              (case statement env P_parties
                      (if party_at pid db2 \<noteq> None then Err (Sqlstate ''23505'' (Some ''parties_pkey''))
                       else Ok (db2\<lparr>parties := parties db2 @
                         [\<lparr>pa_id = pid, pa_leader = u, pa_revision = revision, pa_created = pe_now env\<rparr>]\<rparr>)) of
                 Inl e \<Rightarrow> Err e
               | Inr db3 \<Rightarrow>
                   (case record_player_revision_tx env u revision db3 of
                      Inl e \<Rightarrow> Err e | Inr db4 \<Rightarrow> Ok ((pid, revision), db4)))))"

text \<open>\<open>UPDATE party.parties SET revision, leader_id = coalesce(.., leader_id)\<close>.\<close>

definition restamp :: "string \<Rightarrow> int \<Rightarrow> string option \<Rightarrow> party_db \<Rightarrow> party_db" where
  "restamp pid revision leader db = db\<lparr>parties := sql_update (\<lambda>p. pa_id p = pid)
     (\<lambda>p. p\<lparr>pa_revision := revision, pa_leader := (case leader of None \<Rightarrow> pa_leader p | Some l \<Rightarrow> l)\<rparr>) (parties db)\<rparr>"

definition join_tx :: "party_env \<Rightarrow> string \<Rightarrow> string \<Rightarrow> party_db \<Rightarrow> (sql_error, int \<times> party_db) result" where
  "join_tx env pid player db = cast env player (\<lambda>u.
     case insert_member_tx env u (Some pid) db of
       Inl e \<Rightarrow> Err e
     | Inr (_, db1) \<Rightarrow>
         (case next_revision_tx env db1 of
            Inl e \<Rightarrow> Err e
          | Inr (revision, db2) \<Rightarrow>
              (case statement env P_parties (Ok (restamp pid revision None db2)) of
                 Inl e \<Rightarrow> Err e
               | Inr db3 \<Rightarrow>
                   (case record_player_revision_tx env u revision db3 of
                      Inl e \<Rightarrow> Err e | Inr db4 \<Rightarrow> Ok (revision, db4)))))"

definition stamp_tx :: "party_env \<Rightarrow> string \<Rightarrow> string option \<Rightarrow> party_db \<Rightarrow> (sql_error, int \<times> party_db) result" where
  "stamp_tx env pid leader db =
     (case next_revision_tx env db of
        Inl e \<Rightarrow> Err e
      | Inr (revision, db1) \<Rightarrow>
          statement env P_parties
            (case leader of
               None \<Rightarrow> Ok (revision, restamp pid revision None db1)
             | Some l \<Rightarrow> cast env l (\<lambda>u. Ok (revision, restamp pid revision (Some u) db1))))"

definition renew_tx :: "party_env \<Rightarrow> string \<Rightarrow> party_db \<Rightarrow> (sql_error, party_db) result" where
  "renew_tx env player db = statement env P_renew (cast env player (\<lambda>u.
     Ok (db\<lparr>members := sql_update (\<lambda>m. mb_player m = u)
       (\<lambda>m. m\<lparr>mb_lease := pe_clock env + secs (pe_lease_secs env)\<rparr>) (members db)\<rparr>)))"

section \<open>The leave rule\<close>

record removal =
  rm_removed :: "string list"
  rm_revision :: int
  rm_dissolved :: bool

text \<open>\<open>ORDER BY (m.player_id = p.leader_id) DESC, m.joined_at, m.player_id LIMIT 1\<close>.\<close>

definition next_leader :: "string \<Rightarrow> party_db \<Rightarrow> string option" where
  "next_leader pid db = (case party_at pid db of
     None \<Rightarrow> None
   | Some p \<Rightarrow> map_option mb_player (sql_first (\<lambda>m. (mb_player m \<noteq> pa_leader p, mb_joined m, mb_player m))
       (\<lambda>m. mb_party m = pid) (members db)))"

fun record_revisions :: "party_env \<Rightarrow> string list \<Rightarrow> int \<Rightarrow> party_db \<Rightarrow> (sql_error, party_db) result" where
  "record_revisions env [] revision db = Ok db"
| "record_revisions env (u # us) revision db =
     (case record_player_revision_tx env u revision db of
        Inl e \<Rightarrow> Err e | Inr db' \<Rightarrow> record_revisions env us revision db')"

definition settle_removal_tx ::
    "party_env \<Rightarrow> string \<Rightarrow> string list \<Rightarrow> party_db \<Rightarrow> (sql_error, removal \<times> party_db) result" where
  "settle_removal_tx env pid removed db =
     (case statement env P_leader (Ok (next_leader pid db)) of
        Inl e \<Rightarrow> Err e
      | Inr leader \<Rightarrow>
          (case next_revision_tx env db of
             Inl e \<Rightarrow> Err e
           | Inr (revision, db1) \<Rightarrow>
               (case (case leader of
                        Some l \<Rightarrow> statement env P_parties (Ok (restamp pid revision (Some l) db1))
                      | None \<Rightarrow> statement env P_dissolve
                          (Ok (db1\<lparr>invites := sql_delete (\<lambda>i. iv_party i = pid) (invites db1),
                                   parties := sql_delete (\<lambda>p. pa_id p = pid) (parties db1)\<rparr>))) of
                  Inl e \<Rightarrow> Err e
                | Inr db2 \<Rightarrow>
                    (case record_revisions env removed revision db2 of
                       Inl e \<Rightarrow> Err e
                     | Inr db3 \<Rightarrow> Ok (\<lparr>rm_removed = removed, rm_revision = revision, rm_dissolved = leader = None\<rparr>, db3)))))"

definition remove_member_tx ::
    "party_env \<Rightarrow> string \<Rightarrow> string \<Rightarrow> party_db \<Rightarrow> (sql_error, (removal \<times> party_db) option) result" where
  "remove_member_tx env pid player db =
     (case statement env P_remove (cast env player (\<lambda>u. Ok (u,
             map mb_player (filter (\<lambda>m. mb_player m = u \<and> mb_party m = pid) (members db))))) of
        Inl e \<Rightarrow> Err e
      | Inr (u, removed) \<Rightarrow>
          if removed = [] then Ok None
          else (case settle_removal_tx env pid removed
                       (db\<lparr>members := sql_delete (\<lambda>m. mb_player m = u \<and> mb_party m = pid) (members db)\<rparr>) of
                  Inl e \<Rightarrow> Err e | Inr r \<Rightarrow> Ok (Some r)))"

definition remove_expired_tx ::
    "party_env \<Rightarrow> string \<Rightarrow> party_db \<Rightarrow> (sql_error, (removal \<times> party_db) option) result" where
  "remove_expired_tx env pid db =
     (case statement env P_remove (Ok (map mb_player (filter (\<lambda>m. mb_party m = pid \<and> mb_lease m < pe_now env) (members db)))) of
        Inl e \<Rightarrow> Err e
      | Inr removed \<Rightarrow>
          if removed = [] then Ok None
          else (case settle_removal_tx env pid (sort removed)
                       (db\<lparr>members := sql_delete (\<lambda>m. mb_party m = pid \<and> mb_lease m < pe_now env) (members db)\<rparr>) of
                  Inl e \<Rightarrow> Err e | Inr r \<Rightarrow> Ok (Some r)))"

definition set_ready_tx ::
    "party_env \<Rightarrow> string \<Rightarrow> string \<Rightarrow> string \<Rightarrow> party_db \<Rightarrow> (sql_error, bool \<times> party_db) result" where
  "set_ready_tx env pid player state db = statement env P_ready (cast env player (\<lambda>u.
     let hit = (\<lambda>m. mb_player m = u \<and> mb_party m = pid) in
     if sql_find hit (members db) \<noteq> None \<and> state \<notin> {''ready'', ''not_ready''}
     then Err (Sqlstate ''23514'' (Some ''members_ready_check''))
     else Ok (length (filter hit (members db)) = 1, db\<lparr>members := sql_update hit
       (\<lambda>m. m\<lparr>mb_ready := state, mb_lease := pe_clock env + secs (pe_lease_secs env)\<rparr>) (members db)\<rparr>)))"

section \<open>Invites\<close>

definition pending_invite_party ::
    "party_env \<Rightarrow> string \<Rightarrow> string \<Rightarrow> party_db \<Rightarrow> (sql_error, string option) result" where
  "pending_invite_party env invite_id invitee db = statement env P_invite (cast env invite_id (\<lambda>i. cast env invitee (\<lambda>u.
     Ok (map_option iv_party (sql_find (\<lambda>v. iv_id v = i \<and> iv_invitee v = u \<and> iv_expires v > pe_now env) (invites db))))))"

definition consume_invite_tx ::
    "party_env \<Rightarrow> string \<Rightarrow> string \<Rightarrow> string \<Rightarrow> party_db \<Rightarrow> (sql_error, bool \<times> party_db) result" where
  "consume_invite_tx env invite_id invitee pid db = statement env P_consume (cast env invite_id (\<lambda>i. cast env invitee (\<lambda>u.
     let hit = (\<lambda>v. iv_id v = i \<and> iv_invitee v = u \<and> iv_party v = pid \<and> iv_expires v > pe_now env) in
     Ok (length (filter hit (invites db)) = 1, db\<lparr>invites := sql_delete hit (invites db)\<rparr>))))"

definition answer_of :: "party_env \<Rightarrow> invite_row \<Rightarrow> invite_answer" where
  "answer_of env i = \<lparr>ia_id = iv_id i, ia_party = iv_party i, ia_inviter = iv_inviter i,
     ia_expires = pe_rfc3339 env (iv_expires i)\<rparr>"

definition upsert_invite_tx ::
    "party_env \<Rightarrow> string \<Rightarrow> string \<Rightarrow> string \<Rightarrow> int \<Rightarrow> party_db \<Rightarrow> (sql_error, invite_answer \<times> party_db) result" where
  "upsert_invite_tx env pid inviter invitee ttl db = statement env P_invite (cast env inviter (\<lambda>a. cast env invitee (\<lambda>b.
     let expires = pe_now env + secs ttl; hit = (\<lambda>v. iv_party v = pid \<and> iv_invitee v = b) in
     case sql_find hit (invites db) of
       Some v \<Rightarrow> Ok (answer_of env (v\<lparr>iv_inviter := a, iv_expires := expires\<rparr>),
         db\<lparr>invites := sql_update hit (\<lambda>v. v\<lparr>iv_inviter := a, iv_expires := expires\<rparr>) (invites db)\<rparr>)
     | None \<Rightarrow>
         let v = \<lparr>iv_id = pe_invite_id env, iv_party = pid, iv_inviter = a, iv_invitee = b, iv_expires = expires\<rparr> in
         if pe_invite_id env \<in> iv_id ` set (invites db) then Err (Sqlstate ''23505'' (Some ''invites_pkey''))
         else Ok (answer_of env v, db\<lparr>invites := invites db @ [v]\<rparr>))))"

definition invites_of :: "party_env \<Rightarrow> string \<Rightarrow> party_db \<Rightarrow> (sql_error, invite_answer list) result" where
  "invites_of env invitee db = statement env P_invite (cast env invitee (\<lambda>u.
     Ok (map (answer_of env) (sort_key (\<lambda>v. (iv_expires v, iv_id v))
       (filter (\<lambda>v. iv_invitee v = u \<and> iv_expires v > pe_now env) (invites db))))))"

definition decline_tx :: "party_env \<Rightarrow> string \<Rightarrow> string \<Rightarrow> party_db \<Rightarrow> (sql_error, bool \<times> party_db) result" where
  "decline_tx env invite_id invitee db = statement env P_decline (cast env invite_id (\<lambda>i. cast env invitee (\<lambda>u.
     let hit = (\<lambda>v. iv_id v = i \<and> iv_invitee v = u) in
     Ok (length (filter hit (invites db)) = 1, db\<lparr>invites := sql_delete hit (invites db)\<rparr>))))"

definition delete_invites_involving_tx :: "party_env \<Rightarrow> string \<Rightarrow> party_db \<Rightarrow> (sql_error, party_db) result" where
  "delete_invites_involving_tx env player db = statement env P_invite (cast env player (\<lambda>u.
     Ok (db\<lparr>invites := sql_delete (\<lambda>v. iv_invitee v = u \<or> iv_inviter v = u) (invites db)\<rparr>)))"

definition delete_player_revision_tx :: "party_env \<Rightarrow> string \<Rightarrow> party_db \<Rightarrow> (sql_error, party_db) result" where
  "delete_player_revision_tx env player db = statement env P_purge (cast env player (\<lambda>u.
     Ok (db\<lparr>player_revisions := sql_delete (\<lambda>r. rv_player r = u) (player_revisions db)\<rparr>)))"

section \<open>What a sweep pass selects\<close>

text \<open>Parties with an expired member, the longest expired first; the order of equal minima is Postgres's to choose.\<close>

definition expired_parties :: "party_env \<Rightarrow> nat \<Rightarrow> party_db \<Rightarrow> (sql_error, string list) result" where
  "expired_parties env limit db = statement env P_due
     (let expired = filter (\<lambda>m. mb_lease m < pe_now env) (members db)
      in Ok (take limit (sort_key (\<lambda>pid. min_list (map mb_lease (filter (\<lambda>m. mb_party m = pid) expired)))
           (remdups (map mb_party expired)))))"

definition delete_expired_invites :: "party_env \<Rightarrow> party_db \<Rightarrow> (sql_error, party_db) result" where
  "delete_expired_invites env db = statement env P_decline
     (Ok (db\<lparr>invites := sql_delete (\<lambda>v. iv_expires v < pe_now env) (invites db)\<rparr>))"

end
