(* ===== verification/Party_Service.thy ===== *)
theory Party_Service
  imports Party_Store
begin

text \<open>
  The party operations (\<open>modules/party/src/service.rs\<close>), the lease sweep (\<open>sweep.rs\<close>) and the lease
  configuration (\<open>lib.rs\<close>). An operation answers, names the pushes it sends and the
  committed state. A transaction that holds its party's advisory lock runs in one piece: every
  writer of the party's roster takes that lock; before it, and between the transactions of one
  request, other sessions commit (\<open>pe_others\<close>).
\<close>

section \<open>Wire types\<close>

definition max_members :: int where "max_members = 8"
definition invite_ttl_secs :: int where "invite_ttl_secs = 120"
definition max_handle_bytes :: nat where "max_handle_bytes = 133"
definition membership_attempts :: nat where "membership_attempts = 3"

record member_view =
  mw_player :: string
  mw_handle :: string
  mw_ready :: string

record party_view =
  pv_party :: string
  pv_revision :: int
  pv_leader :: string
  pv_members :: "member_view list"

record invite_view =
  iw_id :: string
  iw_party :: string
  iw_handle :: string
  iw_expires :: string

record heartbeat_view =
  hb_lease :: string
  hb_revision :: int

datatype push_message = State_push string party_view | Invite_push string invite_view

type_synonym 'a answer = "(op_error, 'a) result \<times> push_message list \<times> party_db"

section \<open>Arguments\<close>

definition is_uuid_text :: "string \<Rightarrow> bool" where
  "is_uuid_text s \<longleftrightarrow> length s = 36 \<and>
     list_all (\<lambda>(i, c). if i \<in> {8, 13, 18, 23} then c = CHR ''-'' else is_ascii_hexdigit c) (enumerate 0 s)"

definition lowercase :: "string \<Rightarrow> string" where
  "lowercase s = map to_ascii_lowercase s"

definition uuid_arg :: "string \<Rightarrow> string \<Rightarrow> (op_error, string) result" where
  "uuid_arg name v = (if \<not> is_uuid_text v then Err (op_err Invalid (name @ '' is not a valid uuid'')) else Ok (lowercase v))"

definition validate_state :: "string \<Rightarrow> (op_error, string) result" where
  "validate_state s = (if s = ''ready'' then Ok ''ready'' else if s = ''not_ready'' then Ok ''not_ready''
     else Err (op_err Invalid ''state must be ready or not_ready''))"

definition directory_unavailable :: "op_error \<Rightarrow> op_error" where
  "directory_unavailable e = op_err Unavailable (''player directory unavailable: '' @ err_msg e)"

definition internal :: "party_env \<Rightarrow> sql_error \<Rightarrow> op_error" where
  "internal env e = op_err Internal (pe_text env e)"

definition write_error :: "party_env \<Rightarrow> sql_error \<Rightarrow> op_error" where
  "write_error env e = (if is_unique_violation e then op_err Conflict ''already in a party'' else internal env e)"

definition party_not_found :: op_error where "party_not_found = op_err Not_found ''party not found''"
definition invite_not_found :: op_error where "invite_not_found = op_err Not_found ''invite not found''"
definition changed_concurrently :: op_error where
  "changed_concurrently = op_err Conflict ''party membership changed concurrently; retry''"

definition no_party :: "int \<Rightarrow> party_view" where
  "no_party revision = \<lparr>pv_party = [], pv_revision = revision, pv_leader = [], pv_members = []\<rparr>"

definition handle_of :: "summary list \<Rightarrow> string \<Rightarrow> string" where
  "handle_of summaries pid = (case find (\<lambda>s. lowercase (su_player s) = lowercase pid) summaries of
     None \<Rightarrow> [] | Some s \<Rightarrow> su_handle s)"

definition view_of :: "view_row \<Rightarrow> summary list \<Rightarrow> party_view" where
  "view_of row summaries = \<lparr>pv_party = vw_party row, pv_revision = vw_revision row, pv_leader = vw_leader row,
     pv_members = map (\<lambda>(pid, ready). \<lparr>mw_player = pid, mw_handle = handle_of summaries pid, mw_ready = ready\<rparr>)
       (zip (vw_members row) (vw_readies row))\<rparr>"

definition caller :: "identity \<Rightarrow> (op_error, string) result" where
  "caller i = (case player_id i of
     None \<Rightarrow> Err (op_err Invalid ''missing player identity'')
   | Some pid \<Rightarrow> if \<not> is_uuid_text pid then Err (op_err Invalid ''player identity is not a valid uuid'')
              else Ok (lowercase pid))"

section \<open>Transactions\<close>

text \<open>The attempts at reading the caller's party, locking it and re-reading it.\<close>

fun begin_locked ::
    "party_env \<Rightarrow> nat \<Rightarrow> nat \<Rightarrow> string \<Rightarrow> party_db \<Rightarrow> (op_error, string option) result \<times> party_db" where
  "begin_locked env 0 k me db = (Err changed_concurrently, db)"
| "begin_locked env (Suc n) k me db =
     (let db1 = pe_others env (Before_read k) db in
      if pe_fault env (P_begin k) then (Err (internal env conn_lost), db1)
      else case party_of_tx env (P_party_of k) me db1 of
        Inl e \<Rightarrow> (Err (internal env e), db1)
      | Inr None \<Rightarrow>
          if pe_fault env (P_rollback k) then (Err (internal env conn_lost), db1) else (Ok None, db1)
      | Inr (Some pid) \<Rightarrow>
          if pe_fault env (P_lock k) then (Err (internal env conn_lost), db1)
          else let db2 = pe_others env (Awaiting_lock k) db1 in
          case party_of_tx env (P_again k) me db2 of
            Inl e \<Rightarrow> (Err (internal env e), db2)
          | Inr again \<Rightarrow>
              if again = Some pid then (Ok (Some pid), db2)
              else if pe_fault env (P_rollback k) then (Err (internal env conn_lost), db2)
              else begin_locked env n (Suc k) me db2)"

text \<open>\<open>tx.rollback()\<close> before an answer, and \<open>tx.commit()\<close>, which may fail after it was applied.\<close>

definition reject :: "party_env \<Rightarrow> nat \<Rightarrow> op_error \<Rightarrow> op_error" where
  "reject env k e = (if pe_fault env (P_rollback k) then internal env conn_lost else e)"

definition commit ::
    "party_env \<Rightarrow> nat \<Rightarrow> party_db \<Rightarrow> (op_error, 'a \<times> party_db) result \<Rightarrow> (op_error, 'a) result \<times> party_db" where
  "commit env k base r = (case r of
     Inl e \<Rightarrow> (Err e, base)
   | Inr (a, db') \<Rightarrow>
       if pe_fault env (P_commit k) then (Err (internal env conn_lost), if pe_commit_applied env then db' else base)
       else (Ok a, db'))"

definition sql :: "party_env \<Rightarrow> (sql_error, 'a) result \<Rightarrow> (op_error, 'a) result" where
  "sql env r = (case r of Inl e \<Rightarrow> Err (internal env e) | Inr a \<Rightarrow> Ok a)"

section \<open>Answers and pushes\<close>

definition resolve_target :: "party_env \<Rightarrow> string \<Rightarrow> (op_error, string) result" where
  "resolve_target env handle = (case pe_find_by_handle env handle of
     Inl e \<Rightarrow> Err (directory_unavailable e)
   | Inr None \<Rightarrow> Err (op_err Not_found ''no player with that handle'')
   | Inr (Some s) \<Rightarrow> Ok (lowercase (su_player s)))"

definition summaries :: "party_env \<Rightarrow> string list \<Rightarrow> summary list" where
  "summaries env ids = (if ids = [] then [] else case pe_players_by_id env ids of None \<Rightarrow> [] | Some s \<Rightarrow> s)"

definition push_state :: "party_view option \<Rightarrow> removal option \<Rightarrow> push_message list" where
  "push_state party rm =
     (case party of None \<Rightarrow> [] | Some v \<Rightarrow> map (\<lambda>m. State_push (mw_player m) v) (pv_members v)) @
     (case rm of None \<Rightarrow> [] | Some r \<Rightarrow> map (\<lambda>p. State_push p (no_party (rm_revision r))) (rm_removed r))"

definition fan_out :: "party_env \<Rightarrow> view_row option \<Rightarrow> removal option \<Rightarrow> push_message list" where
  "fan_out env row rm =
     (let ids = (case row of None \<Rightarrow> [] | Some r \<Rightarrow> vw_members r); found = summaries env ids
      in push_state (map_option (\<lambda>r. view_of r found) row) rm)"

definition push_new :: "string list \<Rightarrow> string list \<Rightarrow> string list" where
  "push_new ids new = foldl (\<lambda>acc i. if i \<in> set acc then acc else acc @ [i]) ids new"

text \<open>\<open>party_view\<close> answers \<open>None\<close> where its load failed, as the callers do.\<close>

definition party_snapshot :: "party_env \<Rightarrow> string \<Rightarrow> party_db \<Rightarrow> view_row option" where
  "party_snapshot env pid db = (case party_view_tx env pid db of Inl _ \<Rightarrow> None | Inr row \<Rightarrow> row)"

definition respond :: "party_env \<Rightarrow> string \<Rightarrow> string option \<Rightarrow> removal option \<Rightarrow> party_db \<Rightarrow> party_view answer" where
  "respond env me party_id rm db0 =
     (let db = pe_others env (Before_view 0) db0 in
      case player_view env (P_view 0) me db of
        Inl e \<Rightarrow> (Err (internal env e), [], db)
      | Inr mine \<Rightarrow>
          let dissolved = (case rm of None \<Rightarrow> False | Some r \<Rightarrow> rm_dissolved r);
              db' = (case party_id of
                       Some pid \<Rightarrow> if pid = vw_party mine \<or> dissolved then db else pe_others env Before_snapshot db
                     | None \<Rightarrow> db);
              party = (case party_id of
                         Some pid \<Rightarrow> if pid = vw_party mine then Some mine
                           else if \<not> dissolved then party_snapshot env pid db' else None
                       | None \<Rightarrow> None);
              ids = (case party of None \<Rightarrow> vw_members mine | Some row \<Rightarrow> push_new (vw_members mine) (vw_members row));
              found = summaries env ids
          in (Ok (view_of mine found), push_state (map_option (\<lambda>row. view_of row found) party) rm, db'))"

section \<open>Operations\<close>

definition create_party :: "party_env \<Rightarrow> identity \<Rightarrow> party_db \<Rightarrow> party_view answer" where
  "create_party env i db0 = (case caller i of
     Inl e \<Rightarrow> (Err e, [], db0)
   | Inr me \<Rightarrow>
       let db = pe_others env (Before_read 0) db0 in
       if pe_fault env (P_begin 0) then (Err (internal env conn_lost), [], db)
       else case commit env 0 db (case create_tx env me db of
                Inl e \<Rightarrow> Err (write_error env e) | Inr ((pid, _), db') \<Rightarrow> Ok (pid, db')) of
         (Inl e, db') \<Rightarrow> (Err e, [], db')
       | (Inr pid, db') \<Rightarrow> respond env me (Some pid) None db')"

text \<open>\<open>get\<close>, \<open>invites\<close>, \<open>decline\<close> and \<open>heartbeat\<close> renew the lease in a transaction of its own first.\<close>

definition get_party :: "party_env \<Rightarrow> identity \<Rightarrow> party_db \<Rightarrow> party_view answer" where
  "get_party env i db0 = (case caller i of
     Inl e \<Rightarrow> (Err e, [], db0)
   | Inr me \<Rightarrow>
       (case renew_tx env me db0 of
          Inl e \<Rightarrow> (Err (internal env e), [], db0)
        | Inr db1 \<Rightarrow>
            let db = pe_others env (Before_view 0) db1 in
            (case player_view env (P_view 0) me db of
               Inl e \<Rightarrow> (Err (internal env e), [], db)
             | Inr row \<Rightarrow> (Ok (view_of row (summaries env (vw_members row))), [], db))))"

definition heartbeat :: "party_env \<Rightarrow> identity \<Rightarrow> party_db \<Rightarrow> heartbeat_view answer" where
  "heartbeat env i db0 = (case caller i of
     Inl e \<Rightarrow> (Err e, [], db0)
   | Inr me \<Rightarrow>
       (case renew_tx env me db0 of
          Inl e \<Rightarrow> (Err (internal env e), [], db0)
        | Inr db1 \<Rightarrow>
            let db = pe_others env (Before_view 0) db1 in
            (case player_view env (P_view 0) me db of
               Inl e \<Rightarrow> (Err (internal env e), [], db)
             | Inr row \<Rightarrow> (Ok \<lparr>hb_lease = vw_lease row, hb_revision = vw_revision row\<rparr>, [], db))))"

text \<open>The transaction of an invite, under the party's lock.\<close>

definition invite_body ::
    "party_env \<Rightarrow> string \<Rightarrow> string \<Rightarrow> string \<Rightarrow> party_db \<Rightarrow> (op_error, invite_answer \<times> party_db) result" where
  "invite_body env me pid target db =
     (case sql env (led_party_tx env (P_again 0) me db) of
        Inl e \<Rightarrow> Err e
      | Inr led \<Rightarrow>
          if led \<noteq> Some pid then Err (reject env 0 party_not_found)
          else (case sql env (is_member_tx env pid target db) of
             Inl e \<Rightarrow> Err e
           | Inr True \<Rightarrow> Err (reject env 0 (op_err Conflict ''player is already in this party''))
           | Inr False \<Rightarrow>
               (case sql env (renew_tx env me db) of
                  Inl e \<Rightarrow> Err e
                | Inr db1 \<Rightarrow> sql env (upsert_invite_tx env pid me target invite_ttl_secs db1))))"

definition invite_player :: "party_env \<Rightarrow> identity \<Rightarrow> string \<Rightarrow> party_db \<Rightarrow> invite_view answer" where
  "invite_player env i target_handle db0 = (case caller i of
     Inl e \<Rightarrow> (Err e, [], db0)
   | Inr me \<Rightarrow>
       if length target_handle > max_handle_bytes then (Err (op_err Invalid ''handle exceeds 133 bytes''), [], db0)
       else case led_party_tx env (P_party_of 0) me db0 of
         Inl e \<Rightarrow> (Err (internal env e), [], db0)
       | Inr None \<Rightarrow> (Err party_not_found, [], db0)
       | Inr (Some pid) \<Rightarrow>
           (case resolve_target env target_handle of
              Inl e \<Rightarrow> (Err e, [], db0)
            | Inr target \<Rightarrow>
                if target = me then (Err (op_err Invalid ''cannot invite yourself''), [], db0)
                else let db = pe_others env (Awaiting_lock 0) db0 in
                if pe_fault env (P_begin 0) \<or> pe_fault env (P_lock 0) then (Err (internal env conn_lost), [], db)
                else case commit env 0 db (invite_body env me pid target db) of
                  (Inl e, db') \<Rightarrow> (Err e, [], db')
                | (Inr row, db') \<Rightarrow>
                    let view = \<lparr>iw_id = ia_id row, iw_party = ia_party row,
                          iw_handle = handle_of (summaries env [ia_inviter row]) (ia_inviter row), iw_expires = ia_expires row\<rparr>
                    in (Ok view, [Invite_push target view], db')))"

definition list_invites :: "party_env \<Rightarrow> identity \<Rightarrow> party_db \<Rightarrow> invite_view list answer" where
  "list_invites env i db0 = (case caller i of
     Inl e \<Rightarrow> (Err e, [], db0)
   | Inr me \<Rightarrow>
       (case renew_tx env me db0 of
          Inl e \<Rightarrow> (Err (internal env e), [], db0)
        | Inr db1 \<Rightarrow>
            let db = pe_others env (Before_view 0) db1 in
            (case invites_of env me db of
               Inl e \<Rightarrow> (Err (internal env e), [], db)
             | Inr rows \<Rightarrow>
                 let found = summaries env (push_new [] (map ia_inviter rows))
                 in (Ok (map (\<lambda>row. \<lparr>iw_id = ia_id row, iw_party = ia_party row,
                           iw_handle = handle_of found (ia_inviter row), iw_expires = ia_expires row\<rparr>) rows), [], db))))"

definition accept_body :: "party_env \<Rightarrow> string \<Rightarrow> string \<Rightarrow> string \<Rightarrow> party_db \<Rightarrow> (op_error, unit \<times> party_db) result" where
  "accept_body env me invite_id pid db =
     (case sql env (consume_invite_tx env invite_id me pid db) of
        Inl e \<Rightarrow> Err e
      | Inr (False, _) \<Rightarrow> Err (reject env 0 invite_not_found)
      | Inr (True, db1) \<Rightarrow>
          (case sql env (count_members_tx env pid db1) of
             Inl e \<Rightarrow> Err e
           | Inr count \<Rightarrow>
               if count \<ge> max_members then Err (reject env 0 (op_err Conflict ''party is full (8 members)''))
               else (case join_tx env pid me db1 of
                       Inl e \<Rightarrow> Err (write_error env e) | Inr (_, db2) \<Rightarrow> Ok ((), db2))))"

definition accept_invite :: "party_env \<Rightarrow> identity \<Rightarrow> string \<Rightarrow> party_db \<Rightarrow> party_view answer" where
  "accept_invite env i invite db0 = (case caller i of
     Inl e \<Rightarrow> (Err e, [], db0)
   | Inr me \<Rightarrow>
       (case uuid_arg ''invite_id'' invite of
          Inl e \<Rightarrow> (Err e, [], db0)
        | Inr invite_id \<Rightarrow>
            (case pending_invite_party env invite_id me db0 of
               Inl e \<Rightarrow> (Err (internal env e), [], db0)
             | Inr None \<Rightarrow> (Err invite_not_found, [], db0)
             | Inr (Some pid) \<Rightarrow>
                 let db = pe_others env (Awaiting_lock 0) db0 in
                 if pe_fault env (P_begin 0) \<or> pe_fault env (P_lock 0) then (Err (internal env conn_lost), [], db)
                 else case commit env 0 db (accept_body env me invite_id pid db) of
                   (Inl e, db') \<Rightarrow> (Err e, [], db')
                 | (Inr _, db') \<Rightarrow> respond env me (Some pid) None db')))"

definition decline_invite :: "party_env \<Rightarrow> identity \<Rightarrow> string \<Rightarrow> party_db \<Rightarrow> unit answer" where
  "decline_invite env i invite db0 = (case caller i of
     Inl e \<Rightarrow> (Err e, [], db0)
   | Inr me \<Rightarrow>
       (case uuid_arg ''invite_id'' invite of
          Inl e \<Rightarrow> (Err e, [], db0)
        | Inr invite_id \<Rightarrow>
            (case renew_tx env me db0 of
               Inl e \<Rightarrow> (Err (internal env e), [], db0)
             | Inr db1 \<Rightarrow>
                 let db = pe_others env (Before_view 0) db1 in
                 (case decline_tx env invite_id me db of
                    Inl e \<Rightarrow> (Err (internal env e), [], db)
                  | Inr (hit, db') \<Rightarrow> if hit then (Ok (), [], db') else (Err invite_not_found, [], db')))))"

definition leave_body :: "party_env \<Rightarrow> string \<Rightarrow> string \<Rightarrow> party_db \<Rightarrow> (op_error, removal \<times> party_db) result" where
  "leave_body env me pid db = (case sql env (remove_member_tx env pid me db) of
     Inl e \<Rightarrow> Err e
   | Inr None \<Rightarrow> Err (op_err Internal ''membership vanished while the party was locked'')
   | Inr (Some r) \<Rightarrow> Ok r)"

text \<open>The retries of \<open>leave\<close>: \<open>j\<close> counts them, and numbers the reads of each.\<close>

fun leave_loop :: "party_env \<Rightarrow> nat \<Rightarrow> nat \<Rightarrow> string \<Rightarrow> party_db \<Rightarrow> party_view answer" where
  "leave_loop env 0 j me db = (Err changed_concurrently, [], db)"
| "leave_loop env (Suc n) j me db =
     (case begin_locked env membership_attempts (membership_attempts * j) me db of
        (Inl e, db1) \<Rightarrow> (Err e, [], db1)
      | (Inr None, db1) \<Rightarrow>
          let db2 = pe_others env (Before_view j) db1 in
          (case player_view env (P_view j) me db2 of
             Inl e \<Rightarrow> (Err (internal env e), [], db2)
           | Inr row \<Rightarrow> if vw_party row = [] then (Ok (no_party (vw_revision row)), [], db2)
                        else leave_loop env n (Suc j) me db2)
      | (Inr (Some pid), db1) \<Rightarrow>
          (case commit env j db1 (leave_body env me pid db1) of
             (Inl e, db2) \<Rightarrow> (Err e, [], db2)
           | (Inr rm, db2) \<Rightarrow>
               let db3 = (if rm_dissolved rm then db2 else pe_others env Before_snapshot db2);
                   row = (if rm_dissolved rm then None else party_snapshot env pid db3)
               in (Ok (no_party (rm_revision rm)), fan_out env row (Some rm), db3)))"

definition leave_party :: "party_env \<Rightarrow> identity \<Rightarrow> party_db \<Rightarrow> party_view answer" where
  "leave_party env i db = (case caller i of
     Inl e \<Rightarrow> (Err e, [], db) | Inr me \<Rightarrow> leave_loop env membership_attempts 0 me db)"

text \<open>\<open>leader_locked\<close>: the lock of the caller's party, when the caller leads it.\<close>

definition leader_locked :: "party_env \<Rightarrow> string \<Rightarrow> party_db \<Rightarrow> (op_error, string) result \<times> party_db" where
  "leader_locked env me db = (case begin_locked env membership_attempts 0 me db of
     (Inl e, db1) \<Rightarrow> (Err e, db1)
   | (Inr None, db1) \<Rightarrow> (Err party_not_found, db1)
   | (Inr (Some pid), db1) \<Rightarrow>
       (case led_party_tx env P_leader me db1 of
          Inl e \<Rightarrow> (Err (internal env e), db1)
        | Inr led \<Rightarrow> if led \<noteq> Some pid then (Err (reject env 3 party_not_found), db1) else (Ok pid, db1)))"

definition kick_body :: "party_env \<Rightarrow> string \<Rightarrow> string \<Rightarrow> string \<Rightarrow> party_db \<Rightarrow> (op_error, removal \<times> party_db) result" where
  "kick_body env me target pid db = (case sql env (remove_member_tx env pid target db) of
     Inl e \<Rightarrow> Err e
   | Inr None \<Rightarrow> Err (reject env 3 party_not_found)
   | Inr (Some (rm, db1)) \<Rightarrow>
       (case sql env (renew_tx env me db1) of Inl e \<Rightarrow> Err e | Inr db2 \<Rightarrow> Ok (rm, db2)))"

definition kick :: "party_env \<Rightarrow> identity \<Rightarrow> string \<Rightarrow> party_db \<Rightarrow> party_view answer" where
  "kick env i player db0 = (case caller i of
     Inl e \<Rightarrow> (Err e, [], db0)
   | Inr me \<Rightarrow>
       (case uuid_arg ''player_id'' player of
          Inl e \<Rightarrow> (Err e, [], db0)
        | Inr target \<Rightarrow>
            if target = me then (Err (op_err Invalid ''cannot kick yourself; use leave''), [], db0)
            else case leader_locked env me db0 of
              (Inl e, db) \<Rightarrow> (Err e, [], db)
            | (Inr pid, db) \<Rightarrow>
                (case commit env 0 db (kick_body env me target pid db) of
                   (Inl e, db') \<Rightarrow> (Err e, [], db')
                 | (Inr rm, db') \<Rightarrow> respond env me (Some pid) (Some rm) db')))"

definition promote_body :: "party_env \<Rightarrow> string \<Rightarrow> string \<Rightarrow> string \<Rightarrow> party_db \<Rightarrow> (op_error, unit \<times> party_db) result" where
  "promote_body env me target pid db = (case sql env (is_member_tx env pid target db) of
     Inl e \<Rightarrow> Err e
   | Inr False \<Rightarrow> Err (reject env 3 party_not_found)
   | Inr True \<Rightarrow>
       (case sql env (renew_tx env me db) of
          Inl e \<Rightarrow> Err e
        | Inr db1 \<Rightarrow>
            (case sql env (stamp_tx env pid (Some target) db1) of Inl e \<Rightarrow> Err e | Inr (_, db2) \<Rightarrow> Ok ((), db2))))"

definition promote :: "party_env \<Rightarrow> identity \<Rightarrow> string \<Rightarrow> party_db \<Rightarrow> party_view answer" where
  "promote env i player db0 = (case caller i of
     Inl e \<Rightarrow> (Err e, [], db0)
   | Inr me \<Rightarrow>
       (case uuid_arg ''player_id'' player of
          Inl e \<Rightarrow> (Err e, [], db0)
        | Inr target \<Rightarrow>
            if target = me then (Err (op_err Invalid ''cannot promote yourself''), [], db0)
            else case leader_locked env me db0 of
              (Inl e, db) \<Rightarrow> (Err e, [], db)
            | (Inr pid, db) \<Rightarrow>
                (case commit env 0 db (promote_body env me target pid db) of
                   (Inl e, db') \<Rightarrow> (Err e, [], db')
                 | (Inr _, db') \<Rightarrow> respond env me (Some pid) None db')))"

definition ready_body :: "party_env \<Rightarrow> string \<Rightarrow> string \<Rightarrow> string \<Rightarrow> party_db \<Rightarrow> (op_error, unit \<times> party_db) result" where
  "ready_body env me state pid db = (case sql env (set_ready_tx env pid me state db) of
     Inl e \<Rightarrow> Err e
   | Inr (False, _) \<Rightarrow> Err (reject env 3 (op_err Internal ''membership vanished while the party was locked''))
   | Inr (True, db1) \<Rightarrow>
       (case sql env (stamp_tx env pid None db1) of Inl e \<Rightarrow> Err e | Inr (_, db2) \<Rightarrow> Ok ((), db2)))"

definition set_ready :: "party_env \<Rightarrow> identity \<Rightarrow> string \<Rightarrow> party_db \<Rightarrow> party_view answer" where
  "set_ready env i state db0 = (case caller i of
     Inl e \<Rightarrow> (Err e, [], db0)
   | Inr me \<Rightarrow>
       (case validate_state state of
          Inl e \<Rightarrow> (Err e, [], db0)
        | Inr ready \<Rightarrow>
            (case begin_locked env membership_attempts 0 me db0 of
               (Inl e, db) \<Rightarrow> (Err e, [], db)
             | (Inr None, db) \<Rightarrow> (Err party_not_found, [], db)
             | (Inr (Some pid), db) \<Rightarrow>
                 (case commit env 0 db (ready_body env me ready pid db) of
                    (Inl e, db') \<Rightarrow> (Err e, [], db')
                  | (Inr _, db') \<Rightarrow> respond env me (Some pid) None db'))))"

section \<open>Deletion and the sweep\<close>

datatype purge_error = Purge_sql sql_error | Purge_retry

text \<open>On the delivery connection: an error leaves the delivery to be rolled back.\<close>

definition purge_player :: "party_env \<Rightarrow> string \<Rightarrow> party_db \<Rightarrow> (purge_error, party_db) result" where
  "purge_player env player db0 =
     (if \<not> is_uuid_text player then Ok db0
      else let me = lowercase player;
               forget = (\<lambda>db. case delete_invites_involving_tx env me db of
                   Inl e \<Rightarrow> Err (Purge_sql e)
                 | Inr db1 \<Rightarrow> (case delete_player_revision_tx env me db1 of
                     Inl e \<Rightarrow> Err (Purge_sql e) | Inr db2 \<Rightarrow> Ok db2)) in
      case party_of_tx env (P_party_of 0) me db0 of
        Inl e \<Rightarrow> Err (Purge_sql e)
      | Inr None \<Rightarrow> forget db0
      | Inr (Some pid) \<Rightarrow>
          if pe_fault env (P_lock 0) then Err (Purge_sql conn_lost)
          else let db = pe_others env (Awaiting_lock 0) db0 in
          case remove_member_tx env pid me db of
            Inl e \<Rightarrow> Err (Purge_sql e)
          | Inr None \<Rightarrow> Err Purge_retry
          | Inr (Some (_, db1)) \<Rightarrow> forget db1)"

definition sweep_body :: "party_env \<Rightarrow> string \<Rightarrow> party_db \<Rightarrow> (sql_error, (removal \<times> view_row option \<times> party_db) option) result" where
  "sweep_body env pid db = (case remove_expired_tx env pid db of
     Inl e \<Rightarrow> Err e
   | Inr None \<Rightarrow> if pe_fault env (P_rollback 0) then Err conn_lost else Ok None
   | Inr (Some (rm, db1)) \<Rightarrow>
       (case (if rm_dissolved rm then Ok None else party_view_tx env pid db1) of
          Inl e \<Rightarrow> Err e | Inr row \<Rightarrow> Ok (Some (rm, row, db1))))"

definition sweep_party :: "party_env \<Rightarrow> string \<Rightarrow> party_db \<Rightarrow> (sql_error, bool) result \<times> push_message list \<times> party_db" where
  "sweep_party env pid db0 =
     (let db = pe_others env (Awaiting_lock 0) db0 in
      if pe_fault env (P_begin 0) \<or> pe_fault env (P_lock 0) then (Err conn_lost, [], db)
      else case sweep_body env pid db of
        Inl e \<Rightarrow> (Err e, [], db)
      | Inr None \<Rightarrow> (Ok False, [], db)
      | Inr (Some (rm, row, db')) \<Rightarrow>
          if pe_fault env (P_commit 0) then (Err conn_lost, [], if pe_commit_applied env then db' else db)
          else (Ok True, fan_out env row (Some rm), db'))"

text \<open>The parties of one pass: \<open>envs k\<close> is the environment of the \<open>k\<close>-th, \<open>halt k\<close> the stop flag or the spent budget before it.\<close>

fun sweep_parties ::
    "(nat \<Rightarrow> party_env) \<Rightarrow> (nat \<Rightarrow> bool) \<Rightarrow> nat \<Rightarrow> string list \<Rightarrow> party_db \<Rightarrow> nat \<times> push_message list \<times> party_db" where
  "sweep_parties envs halt k [] db = (0, [], db)"
| "sweep_parties envs halt k (pid # pids) db =
     (if halt k then (0, [], db)
      else case sweep_party (envs k) pid db of (r, pushes, db1) \<Rightarrow>
        (case sweep_parties envs halt (Suc k) pids db1 of (failed, pushes', db2) \<Rightarrow>
           ((case r of Inl _ \<Rightarrow> Suc failed | Inr _ \<Rightarrow> failed), pushes @ pushes', db2)))"

definition sweep_batch :: nat where "sweep_batch = 64"

datatype sweep_error = Sweep_sql sql_error | Parties_failed nat nat

text \<open>\<open>first\<close> and \<open>final\<close> are the environments of the two transactions around the parties.\<close>

definition sweep_pass ::
    "party_env \<Rightarrow> (nat \<Rightarrow> party_env) \<Rightarrow> party_env \<Rightarrow> (nat \<Rightarrow> bool) \<Rightarrow> party_db
       \<Rightarrow> (sweep_error, unit) result \<times> push_message list \<times> party_db" where
  "sweep_pass first envs final halt db =
     (case expired_parties first sweep_batch db of
        Inl e \<Rightarrow> (Err (Sweep_sql e), [], db)
      | Inr pids \<Rightarrow>
          (case sweep_parties envs halt 0 pids db of (failed, pushes, db1) \<Rightarrow>
             (case delete_expired_invites final db1 of
                Inl e \<Rightarrow> (Err (Sweep_sql e), pushes, db1)
              | Inr db2 \<Rightarrow> (if failed > 0 then Err (Parties_failed failed (length pids)) else Ok (), pushes, db2))))"

section \<open>Liveness and configuration\<close>

definition sweep_interval_secs :: nat where "sweep_interval_secs = 5"
definition sweep_acquire_secs :: nat where "sweep_acquire_secs = 2"
definition sweep_statement_secs :: nat where "sweep_statement_secs = 2"
definition sweep_lookup_secs :: nat where "sweep_lookup_secs = 2"
definition sweep_pass_budget_secs :: nat where "sweep_pass_budget_secs = 20"
definition party_tx_statements_max :: nat where "party_tx_statements_max = 9 + nat max_members"
definition party_worst_secs :: nat where
  "party_worst_secs = sweep_acquire_secs + party_tx_statements_max * sweep_statement_secs + sweep_lookup_secs"
definition setup_worst_secs :: nat where "setup_worst_secs = 2 * (sweep_acquire_secs + 3 * sweep_statement_secs)"
definition pass_worst_secs :: nat where
  "pass_worst_secs = setup_worst_secs + sweep_pass_budget_secs + party_worst_secs"
definition stall_max_secs :: nat where "stall_max_secs = sweep_interval_secs + pass_worst_secs"

record liveness =
  lv_dead :: bool
  lv_stopping :: bool
  lv_last_ok :: nat

definition liveness_check :: "nat \<Rightarrow> nat \<Rightarrow> liveness \<Rightarrow> (string, unit) result" where
  "liveness_check stall_max now l =
     (if lv_dead l then Err ''party sweep loop task died''
      else if \<not> lv_stopping l \<and> lv_last_ok l \<noteq> 0 \<and> now - lv_last_ok l > stall_max
      then Err (''no healthy party sweep pass in >'' @ nat_text stall_max @ ''s'')
      else Ok ())"

definition mark_pass_ok :: "nat \<Rightarrow> liveness \<Rightarrow> liveness" where
  "mark_pass_ok now l = l\<lparr>lv_last_ok := max now 1\<rparr>"

definition set_stopping :: "liveness \<Rightarrow> liveness" where
  "set_stopping l = l\<lparr>lv_stopping := True\<rparr>"

text \<open>\<open>str::parse::<i64>\<close>; only whether it fails matters to its caller.\<close>

definition parse_i64 :: "string \<Rightarrow> int option" where
  "parse_i64 s = (case s of
     [] \<Rightarrow> None
   | c # cs \<Rightarrow>
       if c = CHR ''-'' then
         (if cs = [] then None else case parse_digits 0 cs of
            Inr n \<Rightarrow> if i64_min \<le> - int n then Some (- int n) else None | Inl _ \<Rightarrow> None)
       else (case parse_u64 s of Inr n \<Rightarrow> if int n \<le> i64_max then Some (int n) else None | Inl _ \<Rightarrow> None))"

definition lease_secs_from_env :: "env_var \<Rightarrow> int option" where
  "lease_secs_from_env v = (case v of
     Var_not_present \<Rightarrow> Some 60
   | Var_not_unicode \<Rightarrow> None
   | Var_value raw \<Rightarrow>
       (case parse_i64 (trim raw) of
          None \<Rightarrow> None
        | Some n \<Rightarrow> if 10 \<le> n \<and> n \<le> 600 then Some n else None))"

end
