(* ===== verification/Party_Run.thy ===== *)
theory Party_Run
  imports Party_Service
begin

text \<open>
  The party module as a system: the invariant of its tables, the order of its revisions, and the
  step relation of everything that commits on them (operations, deletions, the lease sweep).
\<close>

section \<open>The invariant\<close>

definition crew :: "string \<Rightarrow> party_db \<Rightarrow> member_row list" where
  "crew pid db = filter (\<lambda>m. mb_party m = pid) (members db)"

definition roster_inv :: "party_db \<Rightarrow> bool" where
  "roster_inv db \<longleftrightarrow> distinct (map mb_player (members db)) \<and> distinct (map pa_id (parties db))
     \<and> (\<forall>m \<in> set (members db). mb_party m \<in> pa_id ` set (parties db) \<and> mb_ready m \<in> {''ready'', ''not_ready''})
     \<and> (\<forall>p \<in> set (parties db). pa_leader p \<in> mb_player ` set (crew (pa_id p) db) \<and> length (crew (pa_id p) db) \<le> 8)"

definition stamps_inv :: "party_db \<Rightarrow> bool" where
  "stamps_inv db \<longleftrightarrow> 0 \<le> revision_seq db \<and> distinct (map rv_player (player_revisions db))
     \<and> (\<forall>p \<in> set (parties db). pa_revision p \<le> revision_seq db)
     \<and> (\<forall>r \<in> set (player_revisions db). rv_revision r \<le> revision_seq db)"

definition invites_inv :: "party_db \<Rightarrow> bool" where
  "invites_inv db \<longleftrightarrow> distinct (map iv_id (invites db)) \<and> distinct (map (\<lambda>v. (iv_party v, iv_invitee v)) (invites db))
     \<and> iv_party ` set (invites db) \<subseteq> pa_id ` set (parties db)"

definition party_inv :: "party_db \<Rightarrow> bool" where
  "party_inv db \<longleftrightarrow> roster_inv db \<and> stamps_inv db \<and> invites_inv db"

text \<open>What a view says of the party: everything but the viewer's lease.\<close>

definition core_view :: "string \<Rightarrow> party_db \<Rightarrow> string \<times> int \<times> string \<times> string list \<times> string list" where
  "core_view u db = (case member_of u db of
     None \<Rightarrow> ([], revision_of u db, [], [], [])
   | Some m \<Rightarrow>
       (case party_at (mb_party m) db of
          None \<Rightarrow> ([], revision_of u db, [], [], [])
        | Some p \<Rightarrow> (pa_id p, pa_revision p, pa_leader p, map mb_player (roster (pa_id p) db), map mb_ready (roster (pa_id p) db))))"

definition seen :: "string \<Rightarrow> party_db \<Rightarrow> int" where
  "seen u db = fst (snd (core_view u db))"

lemma roster_crew: "roster pid db = sort_key (\<lambda>m. (mb_joined m, mb_player m)) (crew pid db)"
  by (simp add: roster_def crew_def)

text \<open>
  What every transaction of the module promises: it keeps the invariant, and a player's view is
  unchanged or carries a stamp drawn by it, above every stamp drawn before. Players in \<open>D\<close> are
  being deleted.
\<close>

definition settled :: "string set \<Rightarrow> party_db \<Rightarrow> party_db \<Rightarrow> bool" where
  "settled D db db' \<longleftrightarrow> (party_inv db \<longrightarrow> party_inv db' \<and> revision_seq db \<le> revision_seq db'
     \<and> (\<forall>u. u \<notin> D \<longrightarrow> core_view u db' = core_view u db \<or> revision_seq db < seen u db'))"

lemma settled_refl [simp]: "settled D db db"
  by (simp add: settled_def)

lemma settled_trans [trans]:
  assumes "settled D a b" and "settled D b c"
  shows "settled D a c"
  using assms unfolding settled_def by (smt (verit, ccfv_threshold) seen_def)

lemma settled_rtrancl: "(\<lambda>a b. R a b \<and> settled D a b)\<^sup>*\<^sup>* a b \<Longrightarrow> settled D a b"
  by (induction rule: rtranclp_induct) (auto intro: settled_trans)

lemma seen_bound: "party_inv db \<Longrightarrow> seen u db \<le> revision_seq db"
  by (auto simp: seen_def core_view_def party_inv_def stamps_inv_def revision_of_def split: option.splits dest!: sql_find_Some)

lemma member_of_iff: "distinct (map mb_player (members db)) \<Longrightarrow> member_of u db = Some m \<longleftrightarrow> m \<in> set (members db) \<and> mb_player m = u"
  using sql_find_key [of mb_player "members db" m "\<lambda>m. mb_player m = u"] by (auto dest: sql_find_Some)

lemma touch_view:
  assumes "distinct (map mb_player (members db))" and pk: "distinct (map mb_player (members db'))"
    and crew: "\<And>q. q \<noteq> pid \<Longrightarrow> crew q db' = crew q db" and row: "\<And>q. q \<noteq> pid \<Longrightarrow> party_at q db' = party_at q db"
    and new: "\<And>p. party_at pid db' = Some p \<Longrightarrow> revision_seq db < pa_revision p"
    and kept: "\<And>m. m \<in> set (members db') \<Longrightarrow> mb_party m = pid \<Longrightarrow> party_at pid db' \<noteq> None"
    and rev: "revision_of u db' = revision_of u db \<or> revision_seq db < revision_of u db'"
    and gone: "\<And>m. m \<in> set (members db) \<Longrightarrow> mb_player m = u \<Longrightarrow> mb_party m = pid \<Longrightarrow> member_of u db' = None \<Longrightarrow>
        revision_seq db < revision_of u db'"
  shows "core_view u db' = core_view u db \<or> revision_seq db < seen u db'"
proof (cases "member_of u db'")
  case None
  show ?thesis
  proof (cases "member_of u db")
    case None
    with rev \<open>member_of u db' = None\<close> show ?thesis by (auto simp: core_view_def seen_def)
  next
    case (Some m)
    then have m: "m \<in> set (members db)" "mb_player m = u" by (auto dest: sql_find_Some)
    show ?thesis
    proof (cases "mb_party m = pid")
      case True
      with gone m None show ?thesis by (simp add: core_view_def seen_def)
    next
      case False
      then have "m \<in> set (crew (mb_party m) db')" using m crew by (simp add: crew_def)
      then have "m \<in> set (members db')" by (simp add: crew_def)
      with None m show ?thesis by (auto simp: sql_find_None)
    qed
  qed
next
  case (Some m)
  then have m: "m \<in> set (members db')" "mb_player m = u" by (auto dest: sql_find_Some)
  show ?thesis
  proof (cases "mb_party m = pid")
    case True
    with kept m obtain p where p: "party_at pid db' = Some p" by blast
    with new True Some show ?thesis by (simp add: core_view_def seen_def)
  next
    case False
    have "m \<in> set (crew (mb_party m) db')" using m(1) by (simp add: crew_def)
    with False have "m \<in> set (crew (mb_party m) db)" using crew by metis
    then have "member_of u db = Some m" using m member_of_iff [OF assms(1)] by (simp add: crew_def)
    moreover have "party_at (mb_party m) db' = party_at (mb_party m) db" using row False by blast
    moreover have "roster (mb_party m) db' = roster (mb_party m) db" using crew False by (simp add: roster_crew)
    ultimately show ?thesis
      using Some rev by (auto simp: core_view_def seen_def split: option.splits dest!: sql_find_Some)
  qed
qed

section \<open>One transaction at a time\<close>

lemmas party_inv_defs = party_inv_def roster_inv_def stamps_inv_def invites_inv_def

lemma statement_Ok [simp]: "statement env st r = Ok x \<longleftrightarrow> \<not> pe_fault env st \<and> r = Ok x"
  by (simp add: statement_def)

lemma cast_Ok: "cast env s f = Ok x \<longleftrightarrow> (\<exists>u. pe_uuid env s = Some u \<and> f u = Ok x)"
  by (auto simp: cast_def split: option.splits)

lemma sort_key_map_same: "(\<And>x. key (f x) = key x) \<Longrightarrow> sort_key key (map f xs) = map f (sort_key key xs)"
proof (induction xs)
  case (Cons x xs)
  have "insort_key key (f x) (map f ys) = map f (insort_key key x ys)" for ys
    by (induction ys) (auto simp: Cons.prems)
  with Cons show ?case by simp
qed simp

text \<open>An update of members that leaves their identity, party and place alone.\<close>

lemma crew_update:
  assumes "\<And>m. mb_party (f m) = mb_party m"
  shows "crew q (db\<lparr>members := sql_update hit f (members db)\<rparr>) = sql_update hit f (crew q db)"
  using assms by (simp add: crew_def sql_update_def filter_map comp_def if_distrib [of mb_party])

lemma roster_update:
  assumes "\<And>m. mb_party (f m) = mb_party m" and "\<And>m. mb_joined (f m) = mb_joined m" and "\<And>m. mb_player (f m) = mb_player m"
  shows "roster q (db\<lparr>members := sql_update hit f (members db)\<rparr>) = sql_update hit f (roster q db)"
proof -
  have "(mb_joined (if hit m then f m else m), mb_player (if hit m then f m else m)) = (mb_joined m, mb_player m)" for m
    using assms by simp
  from sort_key_map_same [of "\<lambda>m. (mb_joined m, mb_player m)", OF this] show ?thesis
    using assms(1) by (simp add: roster_crew crew_update) (simp add: sql_update_def)
qed

lemma roster_inv_update:
  assumes "\<And>m. mb_party (f m) = mb_party m" and "\<And>m. mb_player (f m) = mb_player m"
    and "\<And>m. mb_ready (f m) = mb_ready m \<or> mb_ready (f m) \<in> {''ready'', ''not_ready''}"
  shows "roster_inv db \<Longrightarrow> roster_inv (db\<lparr>members := sql_update hit f (members db)\<rparr>)"
proof -
  assume inv: "roster_inv db"
  let ?db = "db\<lparr>members := sql_update hit f (members db)\<rparr>"
  have players: "map mb_player (sql_update hit f ms) = map mb_player ms" for ms
    using assms(2) by (simp add: map_sql_update)
  have "mb_player ` set (crew q ?db) = mb_player ` set (crew q db)" "length (crew q ?db) = length (crew q db)" for q
    using players [of "crew q db"] assms(1) by (simp_all add: crew_update flip: set_map)
  moreover have "mb_party m \<in> pa_id ` set (parties db) \<and> mb_ready m \<in> {''ready'', ''not_ready''}"
    if m: "m \<in> set (sql_update hit f (members db))" for m
  proof -
    obtain m0 where "m0 \<in> set (members db)" "m = (if hit m0 then f m0 else m0)" using m by (auto simp: set_sql_update)
    then show ?thesis using inv assms(1) [of m0] assms(3) [of m0] by (auto simp: roster_inv_def)
  qed
  ultimately show ?thesis
    using inv players by (simp add: roster_inv_def)
qed

lemma settled_renew:
  assumes "renew_tx env me db = Ok db'"
  shows "settled D db db'"
proof -
  obtain u where db': "db' = db\<lparr>members := sql_update (\<lambda>m. mb_player m = u)
      (\<lambda>m. m\<lparr>mb_lease := pe_clock env + secs (pe_lease_secs env)\<rparr>) (members db)\<rparr>" (is "_ = db\<lparr>members := sql_update ?hit ?f _\<rparr>")
    using assms by (auto simp: renew_tx_def cast_Ok)
  have same: "core_view v db' = core_view v db" for v
  proof -
    have m: "member_of v db' = map_option (\<lambda>m. if ?hit m then ?f m else m) (member_of v db)"
      unfolding db' by (simp add: sql_find_update)
    have r: "map mb_player (roster q db') = map mb_player (roster q db)" "map mb_ready (roster q db') = map mb_ready (roster q db)" for q
      unfolding db' by (simp_all add: roster_update map_sql_update)
    have "parties db' = parties db" "player_revisions db' = player_revisions db" by (simp_all add: db')
    with m r show ?thesis
      by (auto simp: core_view_def revision_of_def split: option.splits)
  qed
  have "party_inv db \<Longrightarrow> party_inv db'"
    unfolding db' party_inv_def by (auto intro: roster_inv_update simp: stamps_inv_def invites_inv_def)
  with same show ?thesis by (simp add: settled_def db')
qed

lemma settled_invites:
  assumes "invites_inv db \<Longrightarrow> invites_inv (db\<lparr>invites := vs\<rparr>)"
  shows "settled D db (db\<lparr>invites := vs\<rparr>)"
proof -
  have "core_view u (db\<lparr>invites := vs\<rparr>) = core_view u db" for u
    by (simp add: core_view_def revision_of_def roster_def split: option.splits)
  with assms show ?thesis
    by (auto simp: settled_def party_inv_def roster_inv_def stamps_inv_def crew_def)
qed

lemma settled_delete_invites: "settled D db (db\<lparr>invites := sql_delete hit (invites db)\<rparr>)"
  by (rule settled_invites) (auto simp: invites_inv_def sql_delete_def distinct_map_filter)

lemma settled_gap: "revision_seq db \<le> n \<Longrightarrow> settled D db (db\<lparr>revision_seq := n\<rparr>)"
proof -
  assume n: "revision_seq db \<le> n"
  have "core_view u (db\<lparr>revision_seq := n\<rparr>) = core_view u db" for u
    by (simp add: core_view_def revision_of_def roster_def split: option.splits)
  moreover have "party_inv db \<Longrightarrow> party_inv (db\<lparr>revision_seq := n\<rparr>)"
    using n by (simp add: party_inv_defs crew_def) force
  ultimately show ?thesis using n by (simp add: settled_def)
qed

lemma settled_forget:
  assumes "delete_player_revision_tx env me db = Ok db'" and "pe_uuid env me = Some u" and "u \<in> D"
  shows "settled D db db'"
proof -
  have db': "db' = db\<lparr>player_revisions := sql_delete (\<lambda>r. rv_player r = u) (player_revisions db)\<rparr>"
    using assms by (auto simp: delete_player_revision_tx_def cast_Ok)
  have "revision_of v db' = revision_of v db" if "v \<noteq> u" for v
  proof -
    have "sql_find (\<lambda>r. rv_player r = v) (sql_delete (\<lambda>r. rv_player r = u) rs) = sql_find (\<lambda>r. rv_player r = v) rs" for rs :: "revision_row list"
      using that by (induction rs) auto
    then show ?thesis by (simp add: db' revision_of_def)
  qed
  moreover have "members db' = members db" "parties db' = parties db" "roster q db' = roster q db" for q
    by (simp_all add: db' roster_def)
  ultimately have "core_view v db' = core_view v db" if "v \<noteq> u" for v
    using that by (simp add: core_view_def split: option.split)
  then have "core_view v db' = core_view v db" if "v \<notin> D" for v
    using that assms(3) by metis
  moreover have "party_inv db \<Longrightarrow> party_inv db'"
    by (auto simp: db' party_inv_defs crew_def sql_delete_def distinct_map_filter)
  ultimately show ?thesis by (simp add: settled_def db')
qed

section \<open>Stamping transactions\<close>

definition recorded :: "string set \<Rightarrow> int \<Rightarrow> party_db \<Rightarrow> party_db \<Rightarrow> bool" where
  "recorded us revision db db' \<longleftrightarrow> (distinct (map rv_player (player_revisions db)) \<longrightarrow> distinct (map rv_player (player_revisions db')))
     \<and> (\<forall>u. revision_of u db' = (if u \<in> us then revision else revision_of u db))
     \<and> (\<forall>r \<in> set (player_revisions db'). r \<in> set (player_revisions db) \<or> rv_revision r = revision)"

lemma record_player_revision_recorded:
  assumes "record_player_revision_tx env u revision db = Ok db'"
  shows "\<exists>rs. db' = db\<lparr>player_revisions := rs\<rparr> \<and> recorded {u} revision db db'"
proof (cases "sql_find (\<lambda>r. rv_player r = u) (player_revisions db)")
  case None
  then have db': "db' = db\<lparr>player_revisions := player_revisions db @ [\<lparr>rv_player = u, rv_revision = revision\<rparr>]\<rparr>"
    using assms by (simp add: record_player_revision_tx_def)
  have "u \<notin> rv_player ` set (player_revisions db)" using None by (simp add: sql_find_mem)
  moreover have "revision_of v db' = (if v \<in> {u} then revision else revision_of v db)" for v
    using None by (simp add: db' revision_of_def sql_find_append split: option.split)
  ultimately have "recorded {u} revision db db'"
    unfolding recorded_def by (simp add: db')
  with db' show ?thesis by blast
next
  case (Some r)
  then have db': "db' = db\<lparr>player_revisions := sql_update (\<lambda>r. rv_player r = u) (\<lambda>r. r\<lparr>rv_revision := revision\<rparr>) (player_revisions db)\<rparr>"
    using assms by (simp add: record_player_revision_tx_def)
  have "sql_find (\<lambda>r. rv_player r = v) (player_revisions db') = map_option (\<lambda>r. if rv_player r = u then r\<lparr>rv_revision := revision\<rparr> else r)
      (sql_find (\<lambda>r. rv_player r = v) (player_revisions db))" for v
    unfolding db' by (simp add: sql_find_update)
  then have "revision_of v db' = (if v \<in> {u} then revision else revision_of v db)" for v
    using Some by (auto simp: revision_of_def split: option.split dest!: sql_find_Some)
  moreover have "map rv_player (player_revisions db') = map rv_player (player_revisions db)"
    unfolding db' by (simp add: map_sql_update)
  moreover have "\<forall>r \<in> set (player_revisions db'). r \<in> set (player_revisions db) \<or> rv_revision r = revision"
    unfolding db' by (auto simp: set_sql_update)
  ultimately show ?thesis using db' unfolding recorded_def by auto
qed

lemma record_revisions_recorded:
  "record_revisions env us revision db = Ok db' \<Longrightarrow> \<exists>rs. db' = db\<lparr>player_revisions := rs\<rparr> \<and> recorded (set us) revision db db'"
proof (induction us arbitrary: db)
  case Nil
  have "db = db\<lparr>player_revisions := player_revisions db\<rparr>" by simp
  moreover have "recorded {} revision db db" by (simp add: recorded_def)
  ultimately show ?case using Nil by (intro exI [of _ "player_revisions db"]) simp
next
  case (Cons u us)
  then obtain db1 where 1: "record_player_revision_tx env u revision db = Ok db1" "record_revisions env us revision db1 = Ok db'"
    by (auto split: sum.splits)
  obtain rs where 2: "db1 = db\<lparr>player_revisions := rs\<rparr>" "recorded {u} revision db db1"
    using record_player_revision_recorded [OF 1(1)] by blast
  obtain rs' where 3: "db' = db1\<lparr>player_revisions := rs'\<rparr>" "recorded (set us) revision db1 db'"
    using Cons.IH [OF 1(2)] by blast
  have "recorded (set (u # us)) revision db db'"
    using 2(2) 3(2) unfolding recorded_def by (auto split: if_splits)
  with 2 3 show ?case by auto
qed

lemma party_at_restamp:
  "party_at q (restamp pid revision l db) =
     map_option (\<lambda>p. if pa_id p = pid then p\<lparr>pa_revision := revision, pa_leader := (case l of None \<Rightarrow> pa_leader p | Some l \<Rightarrow> l)\<rparr> else p)
       (party_at q db)"
  by (simp add: restamp_def sql_find_update)

lemma restamp_sel [simp]:
  "members (restamp pid revision l db) = members db" "invites (restamp pid revision l db) = invites db"
  "player_revisions (restamp pid revision l db) = player_revisions db" "revision_seq (restamp pid revision l db) = revision_seq db"
  "map pa_id (parties (restamp pid revision l db)) = map pa_id (parties db)"
  by (simp_all add: restamp_def map_sql_update)

lemma crew_restamp [simp]: "crew q (restamp pid revision l db) = crew q db"
  by (simp add: crew_def)

lemma pa_id_restamp [simp]: "pa_id ` set (parties (restamp pid revision l db)) = pa_id ` set (parties db)"
  by (metis list.set_map restamp_sel(5))

lemma settled_touch:
  assumes inv: "party_inv db \<Longrightarrow> party_inv db'" and seq: "revision_seq db \<le> revision_seq db'"
    and crew: "\<And>q. q \<noteq> pid \<Longrightarrow> crew q db' = crew q db" and row: "\<And>q. q \<noteq> pid \<Longrightarrow> party_at q db' = party_at q db"
    and new: "\<And>p. party_at pid db' = Some p \<Longrightarrow> revision_seq db < pa_revision p"
    and rev: "\<And>u. revision_of u db' = revision_of u db \<or> revision_seq db < revision_of u db'"
    and gone: "\<And>m. m \<in> set (crew pid db) \<Longrightarrow> member_of (mb_player m) db' = None \<Longrightarrow> revision_seq db < revision_of (mb_player m) db'"
  shows "settled D db db'"
  unfolding settled_def
proof (intro impI conjI allI)
  assume i: "party_inv db"
  show "party_inv db'" by (rule inv [OF i])
  show "revision_seq db \<le> revision_seq db'" by (rule seq)
  fix u assume "u \<notin> D"
  show "core_view u db' = core_view u db \<or> revision_seq db < seen u db'"
  proof (rule touch_view [where pid = pid])
    show "distinct (map mb_player (members db))" "distinct (map mb_player (members db'))"
      using i inv [OF i] by (auto simp: party_inv_def roster_inv_def)
    show "party_at pid db' \<noteq> None" if "m \<in> set (members db')" "mb_party m = pid" for m
      using that inv [OF i] unfolding party_inv_def roster_inv_def sql_find_mem by blast
    show "revision_seq db < revision_of u db'"
      if "m \<in> set (members db)" "mb_player m = u" "mb_party m = pid" "member_of u db' = None" for m
      using gone [of m] that by (auto simp: crew_def)
  qed (use crew row new rev in auto)
qed

text \<open>A party whose roster changed, stamped with the next revision.\<close>

lemma settled_change:
  assumes db': "db' = restamp pid (revision_seq db + 1) l (db\<lparr>revision_seq := revision_seq db + 1, members := ms, player_revisions := rs\<rparr>)"
    and crew: "\<And>q. q \<noteq> pid \<Longrightarrow> crew q db' = crew q db" and roster: "party_inv db \<Longrightarrow> roster_inv db'"
    and rec: "recorded us (revision_seq db + 1) db db'"
    and gone: "\<And>m. m \<in> set (crew pid db) \<Longrightarrow> member_of (mb_player m) db' = None \<Longrightarrow> mb_player m \<in> us"
  shows "settled D db db'"
proof (rule settled_touch [where pid = pid])
  show "party_inv db \<Longrightarrow> party_inv db'"
  proof -
    assume i: "party_inv db"
    have "invites db' = invites db" "pa_id ` set (parties db') = pa_id ` set (parties db)" by (simp_all add: db')
    then have "invites_inv db'" using i by (simp add: party_inv_def invites_inv_def)
    moreover have "stamps_inv db'"
    proof -
      have p: "pa_revision p \<le> revision_seq db + 1" if "p \<in> set (parties db')" for p
        using that i unfolding db' restamp_def by (fastforce simp: set_sql_update party_inv_def stamps_inv_def split: if_splits)
      have r: "rv_revision r \<le> revision_seq db + 1" if "r \<in> set (player_revisions db')" for r
        using that rec i by (fastforce simp: recorded_def party_inv_def stamps_inv_def)
      have "revision_seq db' = revision_seq db + 1" by (simp add: db')
      with p r rec i show ?thesis by (auto simp: recorded_def party_inv_def stamps_inv_def)
    qed
    ultimately show ?thesis using roster [OF i] by (simp add: party_inv_def)
  qed
  show "revision_seq db \<le> revision_seq db'" by (simp add: db')
  show "crew q db' = crew q db" if "q \<noteq> pid" for q using crew that by blast
  show "party_at q db' = party_at q db" if "q \<noteq> pid" for q
    using that unfolding db' party_at_restamp by (cases "party_at q db") (auto dest: sql_find_Some)
  show "revision_seq db < pa_revision p" if "party_at pid db' = Some p" for p
    using that unfolding db' party_at_restamp by (auto dest!: sql_find_Some)
  show "revision_of u db' = revision_of u db \<or> revision_seq db < revision_of u db'" for u
    using rec by (simp add: recorded_def)
  show "revision_seq db < revision_of (mb_player m) db'" if "m \<in> set (crew pid db)" "member_of (mb_player m) db' = None" for m
    using rec gone [OF that] by (simp add: recorded_def)
qed

lemma bind_Ok: "(case r of Inl e \<Rightarrow> Err (g e) | Inr a \<Rightarrow> f a) = Ok x \<longleftrightarrow> (\<exists>a. r = Ok a \<and> f a = Ok x)"
  by (cases r) auto

lemma next_revision_Ok: "next_revision_tx env db = Ok (r, db') \<Longrightarrow> r = revision_seq db + 1 \<and> db' = db\<lparr>revision_seq := revision_seq db + 1\<rparr>"
  by (auto simp: next_revision_tx_def split: if_splits)

lemma roster_inv_restamp:
  assumes "roster_inv db" and "\<And>u. l = Some u \<Longrightarrow> u \<in> mb_player ` set (crew pid db)"
  shows "roster_inv (restamp pid revision l db)"
proof -
  have "pa_leader p \<in> mb_player ` set (crew (pa_id p) db) \<and> length (crew (pa_id p) db) \<le> 8"
    if "p \<in> set (parties (restamp pid revision l db))" for p
    using that assms by (auto simp: restamp_def set_sql_update roster_inv_def split: option.split if_splits)
  with assms(1) show ?thesis by (simp add: roster_inv_def)
qed

lemma restamp_seq: "restamp pid revision l (db\<lparr>revision_seq := n\<rparr>) = (restamp pid revision l db)\<lparr>revision_seq := n\<rparr>"
  by (simp add: restamp_def)

lemma roster_inv_cong: "roster_inv db \<Longrightarrow> members db' = members db \<Longrightarrow> parties db' = parties db \<Longrightarrow> roster_inv db'"
  by (simp add: roster_inv_def crew_def)

lemma roster_inv_seq [simp]: "roster_inv (db\<lparr>revision_seq := n\<rparr>) = roster_inv db"
    "roster_inv (db\<lparr>player_revisions := rs\<rparr>) = roster_inv db" "roster_inv (db\<lparr>invites := vs\<rparr>) = roster_inv db"
  by (simp_all add: roster_inv_def crew_def)

lemma recorded_none: "player_revisions db' = player_revisions db \<Longrightarrow> recorded {} revision db db'"
  by (simp add: recorded_def revision_of_def)

lemma stamp_tx_Ok:
  assumes "stamp_tx env pid leader db = Ok (r, db')"
  shows "\<exists>l. db' = restamp pid (revision_seq db + 1) l (db\<lparr>revision_seq := revision_seq db + 1\<rparr>)
    \<and> (l = None \<and> leader = None \<or> (\<exists>t u. leader = Some t \<and> pe_uuid env t = Some u \<and> l = Some u))"
  using assms by (auto simp: stamp_tx_def cast_Ok split: sum.splits prod.splits option.splits dest!: next_revision_Ok)

lemma settled_stamp:
  assumes "\<And>u. l = Some u \<Longrightarrow> u \<in> mb_player ` set (crew pid db)"
  shows "settled D db (restamp pid (revision_seq db + 1) l (db\<lparr>revision_seq := revision_seq db + 1\<rparr>))"
proof (rule settled_change [where ms = "members db" and rs = "player_revisions db" and us = "{}" and pid = pid])
  show "party_inv db \<Longrightarrow> roster_inv (restamp pid (revision_seq db + 1) l (db\<lparr>revision_seq := revision_seq db + 1\<rparr>))"
    using roster_inv_restamp [of db l pid] assms by (simp add: restamp_seq party_inv_def)
qed (auto simp: recorded_none crew_def sql_find_None)

lemma is_member_crew: "is_member_tx env pid t db = Ok True \<Longrightarrow> pe_uuid env t = Some u \<Longrightarrow> u \<in> mb_player ` set (crew pid db)"
  by (auto simp: is_member_tx_def cast_Ok crew_def dest!: sql_find_Some)

lemma sql_Ok [simp]: "sql env r = Ok a \<longleftrightarrow> r = Ok a"
  by (auto simp: sql_def split: sum.splits)

lemma settled_promote:
  assumes "promote_body env me target pid db = Ok (x, db')"
  shows "settled D db db'"
proof -
  obtain db1 r where 1: "is_member_tx env pid target db = Ok True" "renew_tx env me db = Ok db1" "stamp_tx env pid (Some target) db1 = Ok (r, db')"
    using assms by (auto simp: promote_body_def sql_def split: sum.splits bool.splits)
  obtain u where u: "pe_uuid env target = Some u"
      "db' = restamp pid (revision_seq db1 + 1) (Some u) (db1\<lparr>revision_seq := revision_seq db1 + 1\<rparr>)"
    using stamp_tx_Ok [OF 1(3)] by auto
  have "u \<in> mb_player ` set (crew pid db)" using is_member_crew [OF 1(1) u(1)] .
  moreover have "mb_player ` set (crew pid db1) = mb_player ` set (crew pid db)"
    using 1(2) by (auto simp: renew_tx_def cast_Ok crew_update map_sql_update simp flip: set_map)
  ultimately have "settled D db1 db'"
    unfolding u(2) by (intro settled_stamp) auto
  with settled_renew [OF 1(2)] show ?thesis by (rule settled_trans)
qed

lemma settled_ready:
  assumes "ready_body env me state pid db = Ok (x, db')"
  shows "settled D db db'"
proof -
  obtain db1 r where 1: "set_ready_tx env pid me state db = Ok (True, db1)" "stamp_tx env pid None db1 = Ok (r, db')"
    using assms by (auto simp: ready_body_def sql_def split: sum.splits bool.splits prod.splits)
  obtain u where u: "state \<in> {''ready'', ''not_ready''} \<or> sql_find (\<lambda>m. mb_player m = u \<and> mb_party m = pid) (members db) = None"
    and db1: "db1 = db\<lparr>members := sql_update (\<lambda>m. mb_player m = u \<and> mb_party m = pid)
        (\<lambda>m. m\<lparr>mb_ready := state, mb_lease := pe_clock env + secs (pe_lease_secs env)\<rparr>) (members db)\<rparr>"
      (is "_ = db\<lparr>members := ?ms\<rparr>")
    using 1(1) by (auto simp: set_ready_tx_def cast_Ok Let_def split: if_splits)
  have db': "db' = restamp pid (revision_seq db + 1) None
      (db\<lparr>revision_seq := revision_seq db + 1, members := ?ms, player_revisions := player_revisions db\<rparr>)"
    using stamp_tx_Ok [OF 1(2)] by (simp add: db1 restamp_def)
  show ?thesis
  proof (rule settled_change [OF db', where us = "{}"])
    show "crew q db' = crew q db" if "q \<noteq> pid" for q
      using that by (auto simp: db' crew_def intro!: filter_sql_update)
    show "roster_inv db'" if "party_inv db"
    proof -
      have "roster_inv db1"
      proof (cases "state \<in> {''ready'', ''not_ready''}")
        case True
        then show ?thesis unfolding db1 using that by (intro roster_inv_update) (auto simp: party_inv_def)
      next
        case False
        with u have "?ms = members db" by (intro sql_update_fresh) auto
        then show ?thesis using that by (simp add: db1 party_inv_def)
      qed
      then have "roster_inv (restamp pid (revision_seq db + 1) None db1)" by (rule roster_inv_restamp) simp
      then show ?thesis by (rule roster_inv_cong) (simp_all add: db' db1 restamp_def)
    qed
    show "recorded {} (revision_seq db + 1) db db'" by (rule recorded_none) (simp add: db')
    show "mb_player m \<in> {}" if "m \<in> set (crew pid db)" "member_of (mb_player m) db' = None" for m
    proof -
      have "map mb_player (members db') = map mb_player (members db)" by (simp add: db' map_sql_update)
      then have "mb_player ` set (members db') = mb_player ` set (members db)" by (metis set_map)
      with that show ?thesis by (simp add: sql_find_mem crew_def image_iff) blast
    qed
  qed
qed

lemma insert_member_Ok:
  "insert_member_tx env u party db = Ok (pid, db') \<Longrightarrow> pid = (case party of None \<Rightarrow> pe_party_id env | Some p \<Rightarrow> p) \<and>
     member_of u db = None \<and> db' = db\<lparr>members := members db @ [\<lparr>mb_player = u, mb_party = pid, mb_ready = ''not_ready'',
       mb_joined = pe_clock env, mb_lease = pe_clock env + secs (pe_lease_secs env)\<rparr>]\<rparr>"
  by (auto simp: insert_member_tx_def Let_def split: if_splits)

lemma settled_join:
  assumes "join_tx env pid me db = Ok (r, db')" and "party_at pid db \<noteq> None" and "length (crew pid db) < 8"
  shows "settled D db db'"
proof -
  obtain u rs where u: "member_of u db = None" and rec: "recorded {u} (revision_seq db + 1) db db'"
    and db': "db' = restamp pid (revision_seq db + 1) None (db\<lparr>revision_seq := revision_seq db + 1, members := members db @
      [\<lparr>mb_player = u, mb_party = pid, mb_ready = ''not_ready'', mb_joined = pe_clock env,
        mb_lease = pe_clock env + secs (pe_lease_secs env)\<rparr>], player_revisions := rs\<rparr>)" (is "_ = restamp _ _ _ (db\<lparr>revision_seq := _, members := _ @ [?m], player_revisions := _\<rparr>)")
  proof -
    from assms(1) obtain u p db1 db3 where a: "insert_member_tx env u (Some pid) db = Ok (p, db1)"
      "db3 = restamp pid (revision_seq db1 + 1) None (db1\<lparr>revision_seq := revision_seq db1 + 1\<rparr>)"
      "record_player_revision_tx env u (revision_seq db1 + 1) db3 = Ok db'"
      by (auto simp: join_tx_def cast_Ok bind_Ok dest!: next_revision_Ok)
    obtain rs where b: "db' = db3\<lparr>player_revisions := rs\<rparr>" "recorded {u} (revision_seq db1 + 1) db3 db'"
      using record_player_revision_recorded [OF a(3)] by blast
    have c: "member_of u db = None" "db1 = db\<lparr>members := members db @ [\<lparr>mb_player = u, mb_party = pid, mb_ready = ''not_ready'',
        mb_joined = pe_clock env, mb_lease = pe_clock env + secs (pe_lease_secs env)\<rparr>]\<rparr>"
      using insert_member_Ok [OF a(1)] by simp_all
    have "recorded {u} (revision_seq db + 1) db db'"
      using b(2) by (simp add: recorded_def a(2) c(2) revision_of_def)
    then show thesis using that [of u rs] c(1) by (simp add: b(1) a(2) c(2) restamp_def)
  qed
  have crew: "crew q db' = crew q db @ (if q = pid then [?m] else [])" for q by (simp add: db' crew_def)
  show ?thesis
  proof (rule settled_change [OF db' _ _ rec])
    show "roster_inv db'" if "party_inv db"
    proof -
      have "u \<notin> mb_player ` set (members db)" using u by (simp add: sql_find_mem)
      moreover have "pid \<in> pa_id ` set (parties db)" using assms(2) by (simp add: sql_find_mem)
      ultimately have "roster_inv (db\<lparr>members := members db @ [?m]\<rparr>)"
        using that assms(3) by (auto simp: party_inv_def roster_inv_def crew_def)
      then have "roster_inv (restamp pid (revision_seq db + 1) None (db\<lparr>members := members db @ [?m]\<rparr>))"
        by (rule roster_inv_restamp) simp
      then show ?thesis by (rule roster_inv_cong) (simp_all add: db' restamp_def)
    qed
    show "crew q db' = crew q db" if "q \<noteq> pid" for q using crew that by simp
    show "mb_player m \<in> {u}" if "m \<in> set (crew pid db)" "member_of (mb_player m) db' = None" for m
      using that by (auto simp: db' crew_def sql_find_mem)
  qed
qed

lemma settled_create:
  assumes "create_tx env me db = Ok (r, db')"
  shows "settled D db db'"
proof -
  from assms obtain u pid db1 db3 where a: "insert_member_tx env u None db = Ok (pid, db1)" "party_at pid db1 = None"
      "db3 = db1\<lparr>revision_seq := revision_seq db1 + 1, parties := parties db1 @ [\<lparr>pa_id = pid, pa_leader = u,
         pa_revision = revision_seq db1 + 1, pa_created = pe_now env\<rparr>]\<rparr>"
      "record_player_revision_tx env u (revision_seq db1 + 1) db3 = Ok db'"
    by (auto simp: create_tx_def cast_Ok bind_Ok split: if_splits dest!: next_revision_Ok)
  obtain rs where b: "db' = db3\<lparr>player_revisions := rs\<rparr>" "recorded {u} (revision_seq db1 + 1) db3 db'"
    using record_player_revision_recorded [OF a(4)] by blast
  have c: "member_of u db = None" "db1 = db\<lparr>members := members db @ [\<lparr>mb_player = u, mb_party = pid, mb_ready = ''not_ready'',
      mb_joined = pe_clock env, mb_lease = pe_clock env + secs (pe_lease_secs env)\<rparr>]\<rparr>"
    using insert_member_Ok [OF a(1)] by simp_all
  let ?m = "\<lparr>mb_player = u, mb_party = pid, mb_ready = ''not_ready'', mb_joined = pe_clock env, mb_lease = pe_clock env + secs (pe_lease_secs env)\<rparr>"
  have rec: "recorded {u} (revision_seq db + 1) db db'"
    using b(2) by (simp add: recorded_def a(3) c(2) revision_of_def)
  have sel: "members db' = members db @ [?m]" "revision_seq db' = revision_seq db + 1" "invites db' = invites db"
      "parties db' = parties db @ [\<lparr>pa_id = pid, pa_leader = u, pa_revision = revision_seq db + 1, pa_created = pe_now env\<rparr>]"
    by (simp_all add: b(1) a(3) c(2))
  have fresh: "pid \<notin> pa_id ` set (parties db)" "u \<notin> mb_player ` set (members db)"
    using a(2) c(1) by (simp_all add: c(2) sql_find_mem)
  show ?thesis
  proof (rule settled_touch [where pid = pid])
    show "party_inv db'" if i: "party_inv db"
    proof -
      have none: "crew pid db = []" using i fresh(1) by (auto simp: crew_def party_inv_def roster_inv_def filter_empty_conv)
      have "roster_inv db'"
        using i fresh none unfolding party_inv_def roster_inv_def by (auto simp: sel crew_def)
      moreover have "stamps_inv db'"
        using i rec unfolding party_inv_def stamps_inv_def recorded_def by (fastforce simp: sel)
      moreover have "invites_inv db'" using i unfolding party_inv_def invites_inv_def by (auto simp: sel)
      ultimately show ?thesis by (simp add: party_inv_def)
    qed
    show "revision_seq db < pa_revision p" if "party_at pid db' = Some p" for p
      using that a(2) by (auto simp: sel sql_find_append c(2))
    show "revision_of u db' = revision_of u db \<or> revision_seq db < revision_of u db'" for u
      using rec by (simp add: recorded_def)
    show "revision_seq db < revision_of (mb_player m) db'" if "m \<in> set (crew pid db)" "member_of (mb_player m) db' = None" for m
      using that by (auto simp: sel crew_def sql_find_mem)
  qed (auto simp: sel crew_def sql_find_append split: option.split)
qed

lemma roster_inv_removed:
  assumes "roster_inv db" and "\<And>m. hit m \<Longrightarrow> mb_party m = pid"
    and "db0 = db\<lparr>members := sql_delete hit (members db)\<rparr>" and "l \<in> mb_player ` set (crew pid db0)"
  shows "roster_inv (restamp pid revision (Some l) db0)"
proof -
  have sub: "set (members db0) \<subseteq> set (members db)" "distinct (map mb_player (members db0))"
    using assms(1) by (auto simp: assms(3) sql_delete_def roster_inv_def distinct_map_filter)
  have other: "crew q db0 = crew q db" if "q \<noteq> pid" for q
    using that assms(2) unfolding assms(3) crew_def sql_delete_def by (auto intro!: filter_cong simp: filter_filter)
  have len: "length (crew pid db0) \<le> length (crew pid db)"
    unfolding assms(3) crew_def sql_delete_def by (simp add: filter_filter length_filter_conv_card) (auto intro!: card_mono)
  have "pa_leader p \<in> mb_player ` set (crew (pa_id p) db0) \<and> length (crew (pa_id p) db0) \<le> 8"
    if p: "p \<in> set (parties (restamp pid revision (Some l) db0))" for p
  proof -
    obtain p0 where p0: "p0 \<in> set (parties db)" "p = (if pa_id p0 = pid then p0\<lparr>pa_revision := revision, pa_leader := l\<rparr> else p0)"
      using p by (auto simp: restamp_def set_sql_update assms(3))
    then show ?thesis
      using assms(1,4) other len by (auto simp: roster_inv_def intro: le_trans)
  qed
  moreover have "map pa_id (parties (restamp pid revision (Some l) db0)) = map pa_id (parties db)"
      "pa_id ` set (parties (restamp pid revision (Some l) db0)) = pa_id ` set (parties db)"
    by (simp_all add: assms(3))
  ultimately show ?thesis
    using assms(1) sub by (simp add: roster_inv_def) blast
qed

lemma next_leader_Some: "next_leader pid db = Some l \<Longrightarrow> l \<in> mb_player ` set (crew pid db)"
  by (auto simp: next_leader_def crew_def split: option.splits dest: sql_first_Some(1,2))

lemma next_leader_None: "next_leader pid db = None \<Longrightarrow> party_at pid db \<noteq> None \<Longrightarrow> crew pid db = []"
  by (auto simp: next_leader_def crew_def sql_first_None filter_empty_conv split: option.splits)

lemma settle_removal_Ok:
  assumes "settle_removal_tx env pid removed db = Ok (rm, db')"
  shows "rm = \<lparr>rm_removed = removed, rm_revision = revision_seq db + 1, rm_dissolved = next_leader pid db = None\<rparr> \<and>
    (\<exists>rs db2. db' = db2\<lparr>player_revisions := rs\<rparr> \<and> recorded (set removed) (revision_seq db + 1) db db' \<and>
       db2 = (case next_leader pid db of
          Some l \<Rightarrow> restamp pid (revision_seq db + 1) (Some l) (db\<lparr>revision_seq := revision_seq db + 1\<rparr>)
        | None \<Rightarrow> db\<lparr>revision_seq := revision_seq db + 1, invites := sql_delete (\<lambda>i. iv_party i = pid) (invites db),
                    parties := sql_delete (\<lambda>p. pa_id p = pid) (parties db)\<rparr>))"
proof -
  obtain db2 where rm: "rm = \<lparr>rm_removed = removed, rm_revision = revision_seq db + 1, rm_dissolved = next_leader pid db = None\<rparr>"
    and 2: "db2 = (case next_leader pid db of
          Some l \<Rightarrow> restamp pid (revision_seq db + 1) (Some l) (db\<lparr>revision_seq := revision_seq db + 1\<rparr>)
        | None \<Rightarrow> db\<lparr>revision_seq := revision_seq db + 1, invites := sql_delete (\<lambda>i. iv_party i = pid) (invites db),
                    parties := sql_delete (\<lambda>p. pa_id p = pid) (parties db)\<rparr>)"
    and 3: "record_revisions env removed (revision_seq db + 1) db2 = Ok db'"
    using assms by (auto simp: settle_removal_tx_def bind_Ok split: option.splits dest!: next_revision_Ok)
  obtain rs where 4: "db' = db2\<lparr>player_revisions := rs\<rparr>" "recorded (set removed) (revision_seq db + 1) db2 db'"
    using record_revisions_recorded [OF 3] by blast
  have "player_revisions db2 = player_revisions db" by (simp add: 2 split: option.split)
  then have "recorded (set removed) (revision_seq db + 1) db db'"
    using 4(2) by (simp add: recorded_def revision_of_def)
  with rm 2 4 show ?thesis by blast
qed

text \<open>A dissolved party: the last members are deleted, and with them the party and its invites.\<close>

lemma party_inv_dissolved:
  assumes i: "party_inv db" and empty: "crew pid db' = []" and crew: "\<And>q. q \<noteq> pid \<Longrightarrow> crew q db' = crew q db"
    and rec: "recorded R (revision_seq db + 1) db db'" and mem: "members db' = sql_delete hit (members db)"
    and sel: "revision_seq db' = revision_seq db + 1" "invites db' = sql_delete (\<lambda>i. iv_party i = pid) (invites db)"
      "parties db' = sql_delete (\<lambda>p. pa_id p = pid) (parties db)"
  shows "party_inv db'"
proof -
  have home: "mb_party m \<in> pa_id ` set (parties db')" if m: "m \<in> set (members db')" for m
  proof -
    have "mb_party m \<noteq> pid" using m empty by (auto simp: crew_def filter_empty_conv)
    moreover have "m \<in> set (members db)" using m by (simp add: mem)
    then have "mb_party m \<in> pa_id ` set (parties db)" using i by (simp add: party_inv_def roster_inv_def)
    ultimately show ?thesis by (auto simp: sel)
  qed
  have "crew (pa_id p) db' = crew (pa_id p) db \<and> p \<in> set (parties db)" if "p \<in> set (parties db')" for p
    using that crew by (simp add: sel)
  moreover have "mb_ready m \<in> {''ready'', ''not_ready''}" if "m \<in> set (members db')" for m
    using that i unfolding party_inv_def roster_inv_def by (simp add: mem)
  moreover have "distinct (map mb_player (members db'))" "distinct (map pa_id (parties db'))"
    using i unfolding party_inv_def roster_inv_def mem sel sql_delete_def by (simp_all add: distinct_map_filter)
  ultimately have "roster_inv db'" using i home unfolding party_inv_def roster_inv_def by simp
  moreover have "stamps_inv db'" using i rec unfolding party_inv_def stamps_inv_def recorded_def sel by fastforce
  moreover have "invites_inv db'" using i unfolding party_inv_def invites_inv_def sel
    by (auto simp: sql_delete_def distinct_map_filter)
  ultimately show ?thesis by (simp add: party_inv_def)
qed

lemma party_at_deleted: "q \<noteq> pid \<Longrightarrow> sql_find (\<lambda>p. pa_id p = q) (sql_delete (\<lambda>p. pa_id p = pid) ps) = sql_find (\<lambda>p. pa_id p = q) ps"
  by (induction ps) auto

lemma settled_dissolved:
  assumes "party_inv db \<Longrightarrow> crew pid db' = []" "\<And>q. q \<noteq> pid \<Longrightarrow> crew q db' = crew q db" and rec: "recorded R (revision_seq db + 1) db db'"
    and "members db' = sql_delete hit (members db)"
    and gone: "\<And>m. m \<in> set (crew pid db) \<Longrightarrow> member_of (mb_player m) db' = None \<Longrightarrow> mb_player m \<in> R"
    and sel: "revision_seq db' = revision_seq db + 1" "invites db' = sql_delete (\<lambda>i. iv_party i = pid) (invites db)"
      "parties db' = sql_delete (\<lambda>p. pa_id p = pid) (parties db)"
  shows "settled D db db'"
proof (rule settled_touch [where pid = pid])
  show "party_inv db'" if "party_inv db"
    by (rule party_inv_dissolved [OF that assms(1) [OF that] assms(2) rec assms(4) sel])
  show "revision_seq db < pa_revision p" if "party_at pid db' = Some p" for p
    using that by (auto simp: sel dest!: sql_find_Some)
  show "party_at q db' = party_at q db" if "q \<noteq> pid" for q
    using that by (simp add: sel party_at_deleted)
  show "revision_seq db < revision_of (mb_player m) db'" if "m \<in> set (crew pid db)" "member_of (mb_player m) db' = None" for m
    using rec gone [OF that] by (simp add: recorded_def)
qed (use assms(2) rec in \<open>auto simp: sel recorded_def\<close>)

lemma settled_removal:
  assumes "settle_removal_tx env pid removed (db\<lparr>members := sql_delete hit (members db)\<rparr>) = Ok (rm, db')"
    and hit: "\<And>m. hit m \<Longrightarrow> mb_party m = pid" and "set removed = mb_player ` {m \<in> set (members db). hit m}" and "removed \<noteq> []"
  shows "settled D db db'"
proof -
  define db0 where "db0 = db\<lparr>members := sql_delete hit (members db)\<rparr>"
  have seq: "revision_seq db0 = revision_seq db" by (simp add: db0_def)
  obtain rs db2 where db': "db' = db2\<lparr>player_revisions := rs\<rparr>" and rec0: "recorded (set removed) (revision_seq db + 1) db0 db'"
    and db2: "db2 = (case next_leader pid db0 of
          Some l \<Rightarrow> restamp pid (revision_seq db + 1) (Some l) (db0\<lparr>revision_seq := revision_seq db + 1\<rparr>)
        | None \<Rightarrow> db0\<lparr>revision_seq := revision_seq db + 1, invites := sql_delete (\<lambda>i. iv_party i = pid) (invites db0),
                    parties := sql_delete (\<lambda>p. pa_id p = pid) (parties db0)\<rparr>)"
    using settle_removal_Ok [OF assms(1)] unfolding db0_def [symmetric] seq by blast
  have rec: "recorded (set removed) (revision_seq db + 1) db db'"
    using rec0 by (simp add: recorded_def revision_of_def db0_def)
  have mem: "members db' = sql_delete hit (members db)" by (simp add: db' db2 db0_def split: option.split)
  have crew: "crew q db' = crew q db" if "q \<noteq> pid" for q
    using that hit unfolding crew_def mem sql_delete_def by (auto intro!: filter_cong simp: filter_filter)
  have gone: "mb_player m \<in> set removed" if "m \<in> set (crew pid db)" "member_of (mb_player m) db' = None" for m
    using that assms(3) by (auto simp: mem crew_def sql_find_None)
  show ?thesis
  proof (cases "next_leader pid db0")
    case (Some l)
    then have eq: "db' = restamp pid (revision_seq db + 1) (Some l)
        (db\<lparr>revision_seq := revision_seq db + 1, members := sql_delete hit (members db), player_revisions := rs\<rparr>)"
      by (simp add: db' db2 db0_def restamp_def)
    show ?thesis
    proof (rule settled_change [OF eq crew _ rec gone])
      assume "party_inv db"
      then have "roster_inv (restamp pid (revision_seq db + 1) (Some l) db0)"
        using next_leader_Some [OF Some] hit by (intro roster_inv_removed [OF _ _ db0_def]) (auto simp: party_inv_def)
      then show "roster_inv db'" by (rule roster_inv_cong) (simp_all add: eq db0_def restamp_def)
    qed
  next
    case None
    have empty: "crew pid db' = []" if "party_inv db"
    proof -
      obtain m where "m \<in> set (members db)" "hit m" using assms(3,4) by (cases removed) auto
      then have "party_at pid db \<noteq> None" using that hit by (auto simp: party_inv_def roster_inv_def sql_find_mem)
      then show ?thesis using next_leader_None [OF None] by (simp add: crew_def mem db0_def)
    qed
    show ?thesis by (rule settled_dissolved [OF empty crew rec mem gone]) (use None in \<open>simp_all add: db' db2 db0_def\<close>)
  qed
qed

lemma settled_remove_member:
  assumes "remove_member_tx env pid me db = Ok (Some (rm, db'))"
  shows "settled D db db'"
proof -
  obtain u where u: "map mb_player (filter (\<lambda>m. mb_player m = u \<and> mb_party m = pid) (members db)) \<noteq> []"
      "settle_removal_tx env pid (map mb_player (filter (\<lambda>m. mb_player m = u \<and> mb_party m = pid) (members db)))
         (db\<lparr>members := sql_delete (\<lambda>m. mb_player m = u \<and> mb_party m = pid) (members db)\<rparr>) = Ok (rm, db')"
    using assms by (auto simp: remove_member_tx_def cast_Ok bind_Ok split: if_splits)
  show ?thesis by (rule settled_removal [OF u(2)]) (use u(1) in auto)
qed

lemma sort_eq_Nil: "sort xs = [] \<longleftrightarrow> xs = []"
  by (metis length_0_conv length_sort)

lemma settled_remove_expired:
  assumes "remove_expired_tx env pid db = Ok (Some (rm, db'))"
  shows "settled D db db'"
proof -
  let ?hit = "\<lambda>m. mb_party m = pid \<and> mb_lease m < pe_now env"
  let ?gone = "map mb_player (filter ?hit (members db))"
  have ne: "?gone \<noteq> []"
    using assms by (simp add: remove_expired_tx_def bind_Ok split: if_splits)
  then have 1: "settle_removal_tx env pid (sort ?gone) (db\<lparr>members := sql_delete ?hit (members db)\<rparr>) = Ok (rm, db')"
    using assms by (simp add: remove_expired_tx_def bind_Ok)
  show ?thesis
  proof (rule settled_removal [OF 1])
    show "set (sort ?gone) = mb_player ` {m \<in> set (members db). ?hit m}" unfolding set_sort by simp
    show "sort ?gone \<noteq> []" unfolding sort_eq_Nil by (rule ne)
  qed simp
qed

lemma settled_leave_body: "leave_body env me pid db = Ok (rm, db') \<Longrightarrow> settled D db db'"
  by (auto simp: leave_body_def bind_Ok split: option.splits intro: settled_remove_member)

lemma settled_kick_body: "kick_body env me target pid db = Ok (rm, db') \<Longrightarrow> settled D db db'"
  by (auto simp: kick_body_def bind_Ok split: option.splits
      intro: settled_trans [OF settled_remove_member settled_renew])

lemma settled_accept_body:
  assumes "accept_body env me invite pid db = Ok (x, db')"
  shows "settled D db db'"
proof -
  obtain db1 n r where 1: "consume_invite_tx env invite me pid db = Ok (True, db1)" "count_members_tx env pid db1 = Ok n"
      "n < max_members" "join_tx env pid me db1 = Ok (r, db')"
    using assms by (auto simp: accept_body_def bind_Ok split: bool.splits if_splits)
  obtain i u where db1: "db1 = db\<lparr>invites := sql_delete (\<lambda>v. iv_id v = i \<and> iv_invitee v = u \<and> iv_party v = pid \<and> iv_expires v > pe_now env) (invites db)\<rparr>"
      and hit: "length (filter (\<lambda>v. iv_id v = i \<and> iv_invitee v = u \<and> iv_party v = pid \<and> iv_expires v > pe_now env) (invites db)) = 1"
    using 1(1) by (auto simp: consume_invite_tx_def cast_Ok Let_def)
  have 0: "settled D db db1" unfolding db1 by (rule settled_delete_invites)
  have len: "length (crew pid db1) < 8"
    using 1(2,3) by (auto simp: count_members_tx_def max_members_def crew_def)
  show ?thesis
  proof (cases "party_inv db")
    case True
    obtain v where "v \<in> set (invites db)" "iv_party v = pid"
    proof -
      have "filter (\<lambda>v. iv_id v = i \<and> iv_invitee v = u \<and> iv_party v = pid \<and> iv_expires v > pe_now env) (invites db) \<noteq> []"
        using hit by auto
      then show ?thesis using that by (auto simp: filter_empty_conv)
    qed
    then have "party_at pid db1 \<noteq> None"
      using True by (auto simp: party_inv_def invites_inv_def sql_find_mem db1)
    then show ?thesis using settled_trans [OF 0 settled_join [OF 1(4) _ len]] by blast
  next
    case False
    then show ?thesis by (simp add: settled_def)
  qed
qed

lemma settled_upsert_invite:
  assumes "upsert_invite_tx env pid me target ttl db = Ok (a, db')" and "party_at pid db \<noteq> None"
  shows "settled D db db'"
proof -
  obtain vs where db': "db' = db\<lparr>invites := vs\<rparr>" using assms(1)
    by (auto simp: upsert_invite_tx_def cast_Ok Let_def split: option.splits if_splits)
  have "invites_inv db'" if inv: "invites_inv db"
  proof -
    obtain x y where f: "pe_uuid env me = Some x" "pe_uuid env target = Some y"
      using assms(1) by (auto simp: upsert_invite_tx_def cast_Ok)
    let ?hit = "\<lambda>v. iv_party v = pid \<and> iv_invitee v = y"
    show ?thesis
    proof (cases "sql_find ?hit (invites db)")
      case (Some v)
      then have iv: "invites db' = sql_update ?hit (\<lambda>v. v\<lparr>iv_inviter := x, iv_expires := pe_now env + secs ttl\<rparr>) (invites db)"
        using assms(1) f by (auto simp: upsert_invite_tx_def cast_Ok Let_def)
      have "map iv_id (invites db') = map iv_id (invites db)" "map iv_party (invites db') = map iv_party (invites db)"
          "map (\<lambda>v. (iv_party v, iv_invitee v)) (invites db') = map (\<lambda>v. (iv_party v, iv_invitee v)) (invites db)"
        by (simp_all add: iv map_sql_update)
      then show ?thesis using inv by (simp add: invites_inv_def db' flip: set_map)
    next
      case None
      then have iv: "invites db' = invites db @ [\<lparr>iv_id = pe_invite_id env, iv_party = pid, iv_inviter = x, iv_invitee = y,
            iv_expires = pe_now env + secs ttl\<rparr>]" "pe_invite_id env \<notin> iv_id ` set (invites db)"
        using assms(1) f by (auto simp: upsert_invite_tx_def cast_Ok Let_def split: if_splits)
      have "parties db' = parties db" by (simp add: db')
      moreover have "(pid, y) \<notin> (\<lambda>v. (iv_party v, iv_invitee v)) ` set (invites db)" using None by (auto simp: sql_find_None)
      moreover have "pid \<in> pa_id ` set (parties db)" using assms(2) by (simp add: sql_find_mem)
      ultimately show ?thesis using inv iv(2) by (simp add: invites_inv_def iv(1))
    qed
  qed
  then show ?thesis unfolding db' by (rule settled_invites)
qed

lemma led_party_at: "led_party_tx env st me db = Ok (Some pid) \<Longrightarrow> party_at pid db \<noteq> None"
  by (auto simp: led_party_tx_def cast_Ok split: option.splits if_splits)

lemma settled_invite_body:
  assumes "invite_body env me pid target db = Ok (a, db')"
  shows "settled D db db'"
proof -
  obtain db1 where 1: "led_party_tx env (P_again 0) me db = Ok (Some pid)" "renew_tx env me db = Ok db1"
      "upsert_invite_tx env pid me target invite_ttl_secs db1 = Ok (a, db')"
    using assms by (auto simp: invite_body_def bind_Ok split: bool.splits if_splits)
  have "parties db1 = parties db" using 1(2) by (auto simp: renew_tx_def cast_Ok)
  with led_party_at [OF 1(1)] have "party_at pid db1 \<noteq> None" by simp
  then show ?thesis using settled_trans [OF settled_renew [OF 1(2)] settled_upsert_invite [OF 1(3)]] by blast
qed

lemma settled_sweep_body: "sweep_body env pid db = Ok (Some (rm, row, db')) \<Longrightarrow> settled D db db'"
  by (auto simp: sweep_body_def bind_Ok split: option.splits if_splits intro: settled_remove_expired)

lemma settled_commit:
  assumes "\<And>a db'. r = Ok (a, db') \<Longrightarrow> settled D db db'"
  shows "settled D db (snd (commit env k db r))"
  using assms by (auto simp: commit_def split: sum.splits)

lemmas settled_bodies = settled_create settled_invite_body settled_accept_body settled_leave_body settled_kick_body
  settled_promote settled_ready settled_renew

section \<open>Operations\<close>

definition steady :: "string set \<Rightarrow> party_env \<Rightarrow> bool" where
  "steady D env \<longleftrightarrow> (\<forall>p db. settled D db (pe_others env p db))"

lemma steadyD: "steady D env \<Longrightarrow> settled D a db \<Longrightarrow> settled D a (pe_others env p db)"
  unfolding steady_def by (blast intro: settled_trans)

lemma steady_here: "steady D env \<Longrightarrow> settled D db (pe_others env p db)"
  by (simp add: steady_def)

text \<open>An answer is settled when the state it commits is.\<close>

abbreviation settles :: "string set \<Rightarrow> party_db \<Rightarrow> 'a \<times> 'b \<times> party_db \<Rightarrow> bool" where
  "settles D db r \<equiv> settled D db (snd (snd r))"

lemma settles_case:
  assumes "settled D a b" and "\<And>x. r = Ok x \<Longrightarrow> settles D a (f x)"
  shows "settles D a (case r of Inl e \<Rightarrow> (g e, ps, b) | Inr x \<Rightarrow> f x)"
  using assms by (cases r) auto

lemma settles_commit:
  assumes "settled D a (snd c)" and "\<And>x b. settled D a b \<Longrightarrow> settles D a (f x b)"
  shows "settles D a (case c of (Inl e, b) \<Rightarrow> (Err e, [], b) | (Inr x, b) \<Rightarrow> f x b)"
  using assms by (cases c; cases "fst c") auto

lemma settled_after: "settled D a b \<Longrightarrow> settled D b c \<Longrightarrow> settled D a c"
  by (rule settled_trans)

lemma begin_locked_settled:
  assumes "steady D env"
  shows "settled D a db \<Longrightarrow> settled D a (snd (begin_locked env n k me db))"
proof (induction n arbitrary: k db)
  case (Suc n)
  have 1: "settled D a (pe_others env (Before_read k) db)" by (rule steadyD [OF assms Suc.prems])
  have 2: "settled D a (pe_others env (Awaiting_lock k) (pe_others env (Before_read k) db))" by (rule steadyD [OF assms 1])
  from 1 2 Suc.IH [OF 2] show ?case by (simp add: Let_def split: sum.split option.split)
qed simp

lemma respond_settled:
  assumes "steady D env" and "settled D a db"
  shows "settles D a (respond env me pid rm db)"
proof -
  have 1: "settled D a (pe_others env (Before_view 0) db)" by (rule steadyD [OF assms])
  have 2: "settled D a (pe_others env Before_snapshot (pe_others env (Before_view 0) db))" by (rule steadyD [OF assms(1) 1])
  from 1 2 show ?thesis by (auto simp: respond_def Let_def split: sum.split option.split)
qed

lemma commit_settled:
  assumes "settled D a db" and "\<And>x db'. r = Ok (x, db') \<Longrightarrow> settled D db db'"
  shows "settled D a (snd (commit env k db r))"
  by (rule settled_after [OF assms(1)]) (rule settled_commit, erule assms(2))

lemma renewed_settled: "steady D env \<Longrightarrow> renew_tx env me db = Ok db1 \<Longrightarrow> settled D db (pe_others env p db1)"
  by (rule steadyD) (auto dest: settled_renew)

lemma create_party_settled: "steady D env \<Longrightarrow> settles D db (create_party env i db)"
  unfolding create_party_def Let_def
  by (auto simp: bind_Ok intro!: steady_here settles_case settles_commit commit_settled respond_settled elim!: settled_create)

lemma get_party_settled: "steady D env \<Longrightarrow> settles D db (get_party env i db)"
  unfolding get_party_def Let_def by (auto intro!: settles_case renewed_settled)

lemma heartbeat_settled: "steady D env \<Longrightarrow> settles D db (heartbeat env i db)"
  unfolding heartbeat_def Let_def by (auto intro!: settles_case renewed_settled)

lemma list_invites_settled: "steady D env \<Longrightarrow> settles D db (list_invites env i db)"
  unfolding list_invites_def Let_def by (auto intro!: settles_case renewed_settled)

lemma decline_tx_settled: "decline_tx env v me db = Ok (hit, db') \<Longrightarrow> settled D db db'"
  by (auto simp: decline_tx_def cast_Ok Let_def intro: settled_delete_invites)

lemma decline_invite_settled:
  assumes "steady D env"
  shows "settles D db (decline_invite env i v db)"
proof -
  have "settled D db b" if "renew_tx env me db = Ok db1" "decline_tx env w me (pe_others env (Before_view 0) db1) = Ok (hit, b)" for me db1 w hit b
    by (rule settled_after [OF steadyD [OF assms settled_renew [OF that(1)]] decline_tx_settled [OF that(2)]])
  then show ?thesis
    unfolding decline_invite_def Let_def by (auto split: sum.split intro: renewed_settled [OF assms])
qed

lemma invite_player_settled: "steady D env \<Longrightarrow> settles D db (invite_player env i handle db)"
  unfolding invite_player_def Let_def
  by (auto intro!: steady_here settles_case settles_commit commit_settled elim!: settled_invite_body split: option.split)

lemma accept_invite_settled: "steady D env \<Longrightarrow> settles D db (accept_invite env i v db)"
  unfolding accept_invite_def Let_def
  by (auto intro!: steady_here settles_case settles_commit commit_settled respond_settled elim!: settled_accept_body split: option.split)

lemma leader_locked_settled:
  assumes "steady D env"
  shows "settled D a db \<Longrightarrow> settled D a (snd (leader_locked env me db))"
  using begin_locked_settled [OF assms, of a db membership_attempts 0 me]
  by (auto simp: leader_locked_def split: prod.split sum.split option.split)

lemma kick_settled:
  assumes "steady D env"
  shows "settles D db (kick env i player db)"
  unfolding kick_def
  using leader_locked_settled [OF assms settled_refl, of db]
  by (auto intro!: settles_case settles_commit commit_settled respond_settled assms elim!: settled_kick_body)

lemma promote_settled:
  assumes "steady D env"
  shows "settles D db (promote env i player db)"
  unfolding promote_def
  using leader_locked_settled [OF assms settled_refl, of db]
  by (auto intro!: settles_case settles_commit commit_settled respond_settled assms elim!: settled_promote)

lemma set_ready_settled:
  assumes "steady D env"
  shows "settles D db (set_ready env i state db)"
proof -
  have 1: "settled D db b" if "begin_locked env membership_attempts 0 me db = (r, b)" for me r b
    using begin_locked_settled [OF assms settled_refl, of db membership_attempts 0 me] that by simp
  have 2: "settled D db c" if "begin_locked env membership_attempts 0 me db = (r, b)"
      "commit env 0 b (ready_body env me x pid b) = (y, c)" for me r b x pid y c
    using commit_settled [OF 1 [OF that(1)], of "ready_body env me x pid b" env 0] settled_ready that(2)
    by (metis snd_conv)
  show ?thesis
    unfolding set_ready_def
    by (auto split: sum.split prod.split option.split intro: 1 2 respond_settled [OF assms])
qed

lemma leave_loop_settled:
  assumes "steady D env"
  shows "settled D a db \<Longrightarrow> settles D a (leave_loop env n j me db)"
proof (induction n arbitrary: j db)
  case (Suc n)
  have 1: "settled D a b" if "begin_locked env membership_attempts (membership_attempts * j) me db = (r, b)" for r b
    using begin_locked_settled [OF assms Suc.prems, of membership_attempts "membership_attempts * j" me] that by simp
  have 2: "settled D a b2" if "begin_locked env membership_attempts (membership_attempts * j) me db = (r, b)"
      "commit env j b (leave_body env me pid b) = (x, b2)" for r b pid x b2
    using commit_settled [OF 1 [OF that(1)], of "leave_body env me pid b" env j] settled_leave_body that(2)
    by (metis snd_conv)
  show ?case
    by (auto simp: Let_def split: prod.split sum.split option.split intro: 1 2 steadyD [OF assms] Suc.IH)
qed simp

lemma leave_party_settled: "steady D env \<Longrightarrow> settles D db (leave_party env i db)"
  unfolding leave_party_def by (auto intro!: settles_case leave_loop_settled)

lemma purge_player_settled:
  assumes "steady D env" and "\<And>u. pe_uuid env (lowercase player) = Some u \<Longrightarrow> u \<in> D" and "purge_player env player db = Ok db'"
  shows "settled D db db'"
proof -
  let ?me = "lowercase player"
  have forget: "settled D a c"
    if ab: "settled D a b" and di: "delete_invites_involving_tx env ?me b = Ok b1" and dr: "delete_player_revision_tx env ?me b1 = Ok c" for a b b1 c
  proof -
    have "settled D b b1" using di by (auto simp: delete_invites_involving_tx_def cast_Ok intro: settled_delete_invites)
    moreover obtain u where "pe_uuid env ?me = Some u" using di by (auto simp: delete_invites_involving_tx_def cast_Ok)
    then have "settled D b1 c" using settled_forget [OF dr] assms(2) by blast
    ultimately show ?thesis using ab settled_after by blast
  qed
  have rm: "settled D db b" if "remove_member_tx env pid ?me (pe_others env (Awaiting_lock 0) db) = Ok (Some (r, b))" for pid r b
    by (rule settled_after [OF steady_here [OF assms(1)] settled_remove_member [OF that]])
  consider "db' = db" | b1 where "delete_invites_involving_tx env ?me db = Ok b1" "delete_player_revision_tx env ?me b1 = Ok db'"
    | pid r b b1 where "remove_member_tx env pid ?me (pe_others env (Awaiting_lock 0) db) = Ok (Some (r, b))"
        "delete_invites_involving_tx env ?me b = Ok b1" "delete_player_revision_tx env ?me b1 = Ok db'"
    using assms(3) by (cases "party_of_tx env (P_party_of 0) ?me db"; cases "projr (party_of_tx env (P_party_of 0) ?me db)")
      (auto simp: purge_player_def bind_Ok Let_def split: if_splits option.splits)
  then show ?thesis by cases (auto intro: forget [OF settled_refl] forget [OF rm])
qed

lemma sweep_party_settled:
  assumes "steady D env"
  shows "settles D db (sweep_party env pid db)"
proof -
  have "settled D db b" if "sweep_body env pid (pe_others env (Awaiting_lock 0) db) = Ok (Some (rm, row, b))" for rm row b
    by (rule settled_after [OF steady_here [OF assms] settled_sweep_body [OF that]])
  then show ?thesis
    unfolding sweep_party_def Let_def by (auto split: sum.split option.split intro: steady_here [OF assms])
qed

lemma sweep_parties_settled:
  assumes "\<And>k. steady D (envs k)"
  shows "settles D db (sweep_parties envs halt k pids db)"
proof (induction pids arbitrary: k db)
  case (Cons pid pids)
  obtain r ps db1 where 1: "sweep_party (envs k) pid db = (r, ps, db1)" by (cases "sweep_party (envs k) pid db") auto
  obtain f ps' db2 where 2: "sweep_parties envs halt (Suc k) pids db1 = (f, ps', db2)"
    by (cases "sweep_parties envs halt (Suc k) pids db1") auto
  have "settled D db db1" "settled D db1 db2"
    using sweep_party_settled [OF assms [of k], of db pid] Cons.IH [of db1 "Suc k"] 1 2 by simp_all
  then show ?case using settled_after by (auto simp: 1 2)
qed simp

lemma sweep_pass_settled:
  assumes "\<And>k. steady D (envs k)"
  shows "settles D db (sweep_pass first envs final halt db)"
proof -
  have "settled D db c" if "sweep_parties envs halt 0 pids db = (f, ps, b)" "delete_expired_invites final b = Ok c" for pids f ps b c
  proof (rule settled_after)
    show "settled D db b" using sweep_parties_settled [of D envs, OF assms, of db halt 0 pids] that(1) by simp
    show "settled D b c" using that(2) by (auto simp: delete_expired_invites_def intro: settled_delete_invites)
  qed
  moreover have "settled D db b" if "sweep_parties envs halt 0 pids db = (f, ps, b)" for pids f ps b
    using sweep_parties_settled [of D envs, OF assms, of db halt 0 pids] that by simp
  ultimately show ?thesis
    unfolding sweep_pass_def by (auto split: sum.split prod.split)
qed

section \<open>Runs\<close>

text \<open>
  Everything that commits on the party tables; \<open>D\<close> are the players being deleted, and what other
  sessions commit during a request is itself a run. \<open>gap\<close> is a sequence value drawn by a transaction that
  was rolled back.
\<close>

inductive party_step :: "string set \<Rightarrow> party_db \<Rightarrow> party_db \<Rightarrow> bool" for D where
  create: "party_step D db (snd (snd (create_party env i db)))" if "\<forall>p db. (party_step D)\<^sup>*\<^sup>* db (pe_others env p db)"
| get: "party_step D db (snd (snd (get_party env i db)))" if "\<forall>p db. (party_step D)\<^sup>*\<^sup>* db (pe_others env p db)"
| invite: "party_step D db (snd (snd (invite_player env i h db)))" if "\<forall>p db. (party_step D)\<^sup>*\<^sup>* db (pe_others env p db)"
| list_inv: "party_step D db (snd (snd (list_invites env i db)))" if "\<forall>p db. (party_step D)\<^sup>*\<^sup>* db (pe_others env p db)"
| accept: "party_step D db (snd (snd (accept_invite env i v db)))" if "\<forall>p db. (party_step D)\<^sup>*\<^sup>* db (pe_others env p db)"
| decline: "party_step D db (snd (snd (decline_invite env i v db)))" if "\<forall>p db. (party_step D)\<^sup>*\<^sup>* db (pe_others env p db)"
| leave: "party_step D db (snd (snd (leave_party env i db)))" if "\<forall>p db. (party_step D)\<^sup>*\<^sup>* db (pe_others env p db)"
| kicked: "party_step D db (snd (snd (kick env i v db)))" if "\<forall>p db. (party_step D)\<^sup>*\<^sup>* db (pe_others env p db)"
| promoted: "party_step D db (snd (snd (promote env i v db)))" if "\<forall>p db. (party_step D)\<^sup>*\<^sup>* db (pe_others env p db)"
| ready: "party_step D db (snd (snd (set_ready env i v db)))" if "\<forall>p db. (party_step D)\<^sup>*\<^sup>* db (pe_others env p db)"
| beat: "party_step D db (snd (snd (heartbeat env i db)))" if "\<forall>p db. (party_step D)\<^sup>*\<^sup>* db (pe_others env p db)"
| deleted: "party_step D db db'"
  if "\<forall>p db. (party_step D)\<^sup>*\<^sup>* db (pe_others env p db)" and "purge_player env v db = Ok db'"
    and "\<forall>u. pe_uuid env (lowercase v) = Some u \<longrightarrow> u \<in> D"
| sweep: "party_step D db (snd (snd (sweep_pass first envs final halt db)))"
  if "\<forall>k p db. (party_step D)\<^sup>*\<^sup>* db (pe_others (envs k) p db)"
| gap: "party_step D db (db\<lparr>revision_seq := n\<rparr>)" if "revision_seq db \<le> n"

lemma steady_run:
  "\<forall>p db. (\<lambda>a b. R a b \<and> settled D a b)\<^sup>*\<^sup>* db (pe_others env p db) \<Longrightarrow> steady D env"
  unfolding steady_def
proof (intro allI)
  fix p db
  assume "\<forall>p db. (\<lambda>a b. R a b \<and> settled D a b)\<^sup>*\<^sup>* db (pe_others env p db)"
  then have "(\<lambda>a b. R a b \<and> settled D a b)\<^sup>*\<^sup>* db (pe_others env p db)" by blast
  then show "settled D db (pe_others env p db)" by (rule settled_rtrancl)
qed

lemmas operations_settled = create_party_settled get_party_settled invite_player_settled list_invites_settled
  accept_invite_settled decline_invite_settled leave_party_settled kick_settled promote_settled set_ready_settled
  heartbeat_settled

lemma party_step_settled: "party_step D db db' \<Longrightarrow> settled D db db'"
proof (induction rule: party_step.induct)
  case (deleted env v db db')
  then show ?case by (intro purge_player_settled [of D env v] steady_run) auto
next
  case (sweep envs first final halt db)
  then have "steady D (envs k)" for k by (intro steady_run [of "party_step D"]) blast
  then show ?case by (rule sweep_pass_settled)
next
  case (gap db n)
  then show ?case by (rule settled_gap)
qed (rule operations_settled, erule steady_run)+

lemma party_run_settled: "(party_step D)\<^sup>*\<^sup>* db db' \<Longrightarrow> settled D db db'"
  by (induction rule: rtranclp_induct) (auto intro: settled_trans party_step_settled)

definition party_start :: "party_db \<Rightarrow> bool" where
  "party_start db \<longleftrightarrow> db = \<lparr>revision_seq = 0, player_revisions = [], parties = [], members = [], invites = []\<rparr>"

interpretation party_sys: invariant_system party_start "party_step D" party_inv
proof
  show "party_inv db" if "party_start db" for db
    using that by (simp add: party_start_def party_inv_defs)
  show "party_inv db'" if "party_inv db" "party_step D db db'" for db db'
    using party_step_settled [OF that(2)] that(1) by (simp add: settled_def)
qed

text \<open>
  C6. In every reachable state, under any interleaving of the party operations, deletions and
  sweeps with statements failing anywhere: a player is in at most one party and every member's party
  exists; every party has a leader who is one of its members and at most eight members; every
  pending invite names an existing party; and no stamp exceeds the revision sequence.
\<close>

theorem party_well_formed:
  assumes "party_start db0" and "(party_step D)\<^sup>*\<^sup>* db0 db"
  shows "distinct (map mb_player (members db)) \<and>
    (\<forall>m \<in> set (members db). \<exists>p \<in> set (parties db). pa_id p = mb_party m) \<and>
    (\<forall>p \<in> set (parties db). (\<exists>m \<in> set (members db). mb_player m = pa_leader p \<and> mb_party m = pa_id p)
       \<and> length (filter (\<lambda>m. mb_party m = pa_id p) (members db)) \<le> 8 \<and> pa_revision p \<le> revision_seq db) \<and>
    (\<forall>v \<in> set (invites db). \<exists>p \<in> set (parties db). pa_id p = iv_party v)"
proof -
  have "party_inv db" by (rule party_sys.reachable_inv [OF assms])
  then show ?thesis
    unfolding party_inv_def roster_inv_def stamps_inv_def invites_inv_def crew_def
    by (safe; fastforce dest: bspec subsetD)
qed

lemma player_view_core:
  assumes "player_view env st me db = Ok v" and "pe_uuid env me = Some u"
  shows "core_view u db = (vw_party v, vw_revision v, vw_leader v, vw_members v, vw_readies v)"
  using assms by (auto simp: player_view_def cast_Ok core_view_def split: option.split)


end
