(* ===== verification/Party_Rules.thy ===== *)
theory Party_Rules
  imports Party_Run
begin

text \<open>
  What the party operations do without faults, on every branch: leaving and the succession of the
  leader, accepting an invite, and the lease sweep.
\<close>

section \<open>Without faults\<close>

definition party_calm :: "party_env \<Rightarrow> bool" where
  "party_calm env \<longleftrightarrow> (\<forall>s. \<not> pe_fault env s) \<and> (\<forall>p db. pe_others env p db = db)"

lemma calm_sel [simp]: "party_calm env \<Longrightarrow> \<not> pe_fault env s" "party_calm env \<Longrightarrow> pe_others env p db = db"
  "party_calm env \<Longrightarrow> statement env s r = r"
  by (simp_all add: party_calm_def statement_def)

lemma record_revisions_calm: "party_calm env \<Longrightarrow> \<exists>db'. record_revisions env us revision db = Ok db'"
  by (induction us arbitrary: db) (auto simp: record_player_revision_tx_def)

lemma settle_removal_calm:
  assumes "party_calm env" and "revision_seq db < i64_max"
  shows "\<exists>db'. settle_removal_tx env pid removed db = Ok (\<lparr>rm_removed = removed, rm_revision = revision_seq db + 1,
      rm_dissolved = next_leader pid db = None\<rparr>, db') \<and> members db' = members db \<and> revision_seq db' = revision_seq db + 1 \<and>
    (case next_leader pid db of
       Some l \<Rightarrow> parties db' = parties (restamp pid (revision_seq db + 1) (Some l) db) \<and> invites db' = invites db
     | None \<Rightarrow> parties db' = sql_delete (\<lambda>p. pa_id p = pid) (parties db) \<and> invites db' = sql_delete (\<lambda>i. iv_party i = pid) (invites db))"
proof -
  have "\<exists>x. settle_removal_tx env pid removed db = Ok x"
    using assms record_revisions_calm [OF assms(1)]
    by (auto simp: settle_removal_tx_def next_revision_tx_def bind_Ok split: option.split)
  then obtain rm db' where 1: "settle_removal_tx env pid removed db = Ok (rm, db')" by auto
  from settle_removal_Ok [OF 1] show ?thesis
    using 1 by (auto simp: restamp_def split: option.splits)
qed

lemma sort_key_prefix: "(\<And>x. x \<in> set xs \<Longrightarrow> f x = c) \<Longrightarrow> sort_key (\<lambda>x. (f x, key x)) xs = sort_key key xs"
proof (induction xs)
  case (Cons x xs)
  have "insort_key (\<lambda>x. (f x, key x)) x ys = insort_key key x ys" if "\<forall>y \<in> set ys. f y = c" for ys
    using that Cons.prems by (induction ys) (auto simp: less_eq_prod_def)
  with Cons show ?case by simp
qed simp

lemma sort_key_Nil: "sort_key f xs = [] \<longleftrightarrow> xs = []"
  by (metis length_0_conv length_sort)

lemma roster_Nil: "roster pid db = [] \<longleftrightarrow> crew pid db = []"
  by (simp only: roster_crew sort_key_Nil)

text \<open>Succession: the leader keeps the lead, and otherwise the first of the roster takes it.\<close>

lemma next_leader_roster:
  assumes "party_at pid db = Some p" and "crew pid db \<noteq> []"
  shows "next_leader pid db = Some (if pa_leader p \<in> mb_player ` set (crew pid db) then pa_leader p else mb_player (hd (roster pid db)))"
proof -
  let ?key = "\<lambda>m. (mb_player m \<noteq> pa_leader p, mb_joined m, mb_player m)"
  obtain m where m: "sql_first ?key (\<lambda>m. mb_party m = pid) (members db) = Some m"
    using assms(2) sql_first_None [of ?key "\<lambda>m. mb_party m = pid" "members db"] by (auto simp: crew_def filter_empty_conv)
  show ?thesis
  proof (cases "pa_leader p \<in> mb_player ` set (crew pid db)")
    case True
    then obtain x where "x \<in> set (members db)" "mb_party x = pid" "mb_player x = pa_leader p" by (auto simp: crew_def)
    then have "mb_player m = pa_leader p" using sql_first_Some(3) [OF m, of x] by simp
    then show ?thesis unfolding next_leader_def assms(1) option.case m using True by simp
  next
    case False
    then have "sort_key ?key (crew pid db) = roster pid db"
      unfolding roster_crew by (intro sort_key_prefix [where c = True]) (auto simp: image_iff)
    moreover obtain rs where "sort_key ?key (crew pid db) = m # rs"
      using m by (auto simp: sql_first_def crew_def split: list.splits)
    ultimately have "roster pid db = m # rs" by (rule trans [OF sym])
    then have "hd (roster pid db) = m" by simp
    then show ?thesis unfolding next_leader_def assms(1) option.case m using False by simp
  qed
qed

lemma member_party_at: "party_inv db \<Longrightarrow> member_of u db = Some m \<Longrightarrow> \<exists>p. party_at (mb_party m) db = Some p"
  by (auto simp: party_inv_def roster_inv_def sql_find_mem dest!: sql_find_Some simp flip: not_None_eq)

lemma member_filter:
  assumes "distinct (map mb_player (members db))" and "member_of u db = Some m"
  shows "filter (\<lambda>x. mb_player x = u \<and> mb_party x = mb_party m) (members db) = [m]"
proof -
  have "filter (\<lambda>x. mb_player x = u) ms = [m]" if "distinct (map mb_player ms)" "m \<in> set ms" "mb_player m = u" for ms
    using that by (induction ms) (auto simp: filter_empty_conv image_iff)
  moreover have "m \<in> set (members db)" "mb_player m = u" using assms(2) by (auto dest: sql_find_Some)
  ultimately have "filter (\<lambda>x. mb_player x = u) (members db) = [m]" using assms(1) by blast
  then have "filter (\<lambda>x. mb_party x = mb_party m) (filter (\<lambda>x. mb_player x = u) (members db)) = [m]" by simp
  then show ?thesis by (simp add: filter_filter conj_commute)
qed

fun push_target :: "push_message \<Rightarrow> string" where
  "push_target (State_push p v) = p"
| "push_target (Invite_push p v) = p"

lemma begin_locked_calm:
  assumes "party_calm env" and "pe_uuid env me = Some u"
  shows "begin_locked env (Suc n) k me db = (Ok (map_option mb_party (member_of u db)), db)"
  using assms by (cases "member_of u db") (simp_all add: party_of_tx_def cast_def Let_def)

lemma leave_calm:
  assumes "party_calm env" and "caller i = Ok me" and "pe_uuid env me = Some me" and "party_inv db" and "revision_seq db < i64_max"
    and "member_of me db = Some m" and db0: "db0 = db\<lparr>members := filter (\<lambda>x. mb_player x \<noteq> me) (members db)\<rparr>"
  obtains db' where "leave_party env i db = (Ok (no_party (revision_seq db + 1)),
      fan_out env (if next_leader (mb_party m) db0 = None then None else party_snapshot env (mb_party m) db')
        (Some \<lparr>rm_removed = [me], rm_revision = revision_seq db + 1, rm_dissolved = next_leader (mb_party m) db0 = None\<rparr>), db')"
    and "members db' = members db0"
    and "next_leader (mb_party m) db0 = None \<longrightarrow> parties db' = sql_delete (\<lambda>p. pa_id p = mb_party m) (parties db)
         \<and> invites db' = sql_delete (\<lambda>i. iv_party i = mb_party m) (invites db)"
    and "\<forall>l. next_leader (mb_party m) db0 = Some l \<longrightarrow> parties db' = parties (restamp (mb_party m) (revision_seq db + 1) (Some l) db)"
proof -
  let ?pid = "mb_party m" and ?seq = "revision_seq db + 1"
  have pk: "distinct (map mb_player (members db))" using assms(4) by (simp add: party_inv_def roster_inv_def)
  have one: "filter (\<lambda>x. mb_player x = me \<and> mb_party x = ?pid) (members db) = [m]" by (rule member_filter [OF pk assms(6)])
  have me: "mb_player m = me" using assms(6) by (auto dest: sql_find_Some)
  have "x = m" if "x \<in> set (members db)" "mb_player x = me" for x using member_of_iff [OF pk, of me x] assms(6) that by simp
  then have del: "db\<lparr>members := sql_delete (\<lambda>x. mb_player x = me \<and> mb_party x = ?pid) (members db)\<rparr> = db0"
  proof -
    have "sql_delete (\<lambda>x. mb_player x = me \<and> mb_party x = ?pid) (members db) = filter (\<lambda>x. mb_player x \<noteq> me) (members db)"
      using \<open>\<And>x. x \<in> set (members db) \<Longrightarrow> mb_player x = me \<Longrightarrow> x = m\<close> unfolding sql_delete_def by (intro filter_cong) auto
    then show ?thesis by (simp add: db0)
  qed
  have seq0: "revision_seq db0 = revision_seq db" by (simp add: db0)
  obtain db' where db': "settle_removal_tx env ?pid [me] db0 = Ok (\<lparr>rm_removed = [me], rm_revision = ?seq, rm_dissolved = next_leader ?pid db0 = None\<rparr>, db')"
      "members db' = members db0"
    and eff: "case next_leader ?pid db0 of
       Some l \<Rightarrow> parties db' = parties (restamp ?pid ?seq (Some l) db0) \<and> invites db' = invites db0
     | None \<Rightarrow> parties db' = sql_delete (\<lambda>p. pa_id p = ?pid) (parties db0) \<and> invites db' = sql_delete (\<lambda>i. iv_party i = ?pid) (invites db0)"
    using settle_removal_calm [OF assms(1), of db0 ?pid "[me]"] assms(5) unfolding seq0 by blast
  let ?rm = "\<lparr>rm_removed = [me], rm_revision = ?seq, rm_dissolved = next_leader ?pid db0 = None\<rparr>"
  have "leave_body env me ?pid db = Ok (?rm, db')"
    using assms(1,3) one me db'(1) del by (simp add: leave_body_def sql_def remove_member_tx_def cast_def)
  then have "leave_party env i db = (Ok (no_party ?seq), fan_out env (if next_leader ?pid db0 = None then None else party_snapshot env ?pid db') (Some ?rm), db')"
    using assms(1,2,6) begin_locked_calm [OF assms(1,3), of 2 0 db]
    by (simp add: leave_party_def membership_attempts_def numeral_3_eq_3 commit_def Let_def)
  moreover have "parties (restamp ?pid ?seq l db0) = parties (restamp ?pid ?seq l db)" for l by (simp add: restamp_def db0)
  moreover have "parties db0 = parties db" "invites db0 = invites db" by (simp_all add: db0)
  ultimately show thesis using eff db'(2) by (intro that [of db'] impI allI) simp_all
qed

text \<open>What a member's leaving does, and whom it tells.\<close>

definition left_party :: "string \<Rightarrow> member_row \<Rightarrow> party_db \<Rightarrow> push_message list \<Rightarrow> party_db \<Rightarrow> bool" where
  "left_party me m db pushes db' \<longleftrightarrow> members db' = filter (\<lambda>x. mb_player x \<noteq> me) (members db)
     \<and> map push_target pushes = map mb_player (roster (mb_party m) db') @ [me]
     \<and> (if roster (mb_party m) db' = []
        then party_at (mb_party m) db' = None \<and> (\<forall>v \<in> set (invites db'). iv_party v \<noteq> mb_party m)
        else (\<exists>p p'. party_at (mb_party m) db = Some p \<and> party_at (mb_party m) db' = Some p' \<and> pa_revision p' = revision_seq db + 1
          \<and> pa_leader p' = (if pa_leader p \<noteq> me then pa_leader p else mb_player (hd (roster (mb_party m) db')))))"

lemma left_last:
  assumes "members db' = filter (\<lambda>x. mb_player x \<noteq> me) (members db)" "roster (mb_party m) db' = []"
    and "parties db' = sql_delete (\<lambda>p. pa_id p = mb_party m) (parties db)" "invites db' = sql_delete (\<lambda>i. iv_party i = mb_party m) (invites db)"
  shows "left_party me m db (fan_out env None (Some \<lparr>rm_removed = [me], rm_revision = n, rm_dissolved = b\<rparr>)) db'"
  using assms by (simp add: left_party_def fan_out_def push_state_def sql_find_None)

lemma left_others:
  assumes "party_calm env" "members db' = filter (\<lambda>x. mb_player x \<noteq> me) (members db)" "roster (mb_party m) db' \<noteq> []" "party_at (mb_party m) db = Some p"
    and row: "party_at (mb_party m) db' = Some (p\<lparr>pa_revision := revision_seq db + 1,
      pa_leader := if pa_leader p \<noteq> me then pa_leader p else mb_player (hd (roster (mb_party m) db'))\<rparr>)"
  shows "left_party me m db (fan_out env (party_snapshot env (mb_party m) db') (Some \<lparr>rm_removed = [me], rm_revision = n, rm_dissolved = b\<rparr>)) db'"
proof -
  have "map push_target (fan_out env (party_snapshot env (mb_party m) db') (Some \<lparr>rm_removed = [me], rm_revision = n, rm_dissolved = b\<rparr>))
      = map mb_player (roster (mb_party m) db') @ [me]"
    using assms(1,3) row
    by (simp add: party_snapshot_def party_view_tx_def fan_out_def push_state_def view_of_def comp_def zip_map_map map_zip_map split_beta zip_same_conv_map)
  then show ?thesis using assms by (simp add: left_party_def)
qed

text \<open>Succession when a member leaves: the leader stays if it is not them.\<close>

lemma next_leader_left:
  assumes "party_inv db" "party_at pid db = Some p" "db0 = db\<lparr>members := filter (\<lambda>x. mb_player x \<noteq> me) (members db)\<rparr>" "crew pid db0 \<noteq> []"
  shows "next_leader pid db0 = Some (if pa_leader p \<noteq> me then pa_leader p else mb_player (hd (roster pid db0)))"
proof -
  have "pa_leader p \<in> mb_player ` set (crew pid db)" using assms(1,2) by (auto simp: party_inv_def roster_inv_def dest!: sql_find_Some)
  then have "pa_leader p \<in> mb_player ` set (crew pid db0) \<longleftrightarrow> pa_leader p \<noteq> me" unfolding crew_def assms(3) by auto
  moreover have "party_at pid db0 = Some p" using assms(2,3) by simp
  ultimately show ?thesis using next_leader_roster [of pid db0 p, OF _ assms(4)] by simp
qed

lemma leave_member:
  assumes "party_calm env" and "caller i = Ok me" and "pe_uuid env me = Some me" and "party_inv db" and "revision_seq db < i64_max"
    and m: "member_of me db = Some m"
  shows "\<exists>pushes db'. leave_party env i db = (Ok (no_party (revision_seq db + 1)), pushes, db') \<and> left_party me m db pushes db'"
proof -
  let ?pid = "mb_party m" and ?seq = "revision_seq db + 1"
  define db0 where "db0 = db\<lparr>members := filter (\<lambda>x. mb_player x \<noteq> me) (members db)\<rparr>"
  let ?rm = "\<lparr>rm_removed = [me], rm_revision = ?seq, rm_dissolved = next_leader ?pid db0 = None\<rparr>"
  obtain db' where ans: "leave_party env i db = (Ok (no_party ?seq),
      fan_out env (if next_leader ?pid db0 = None then None else party_snapshot env ?pid db') (Some ?rm), db')"
    and mem: "members db' = members db0"
    and none: "next_leader ?pid db0 = None \<longrightarrow> parties db' = sql_delete (\<lambda>p. pa_id p = ?pid) (parties db)
         \<and> invites db' = sql_delete (\<lambda>i. iv_party i = ?pid) (invites db)"
    and some: "\<forall>l. next_leader ?pid db0 = Some l \<longrightarrow> parties db' = parties (restamp ?pid ?seq (Some l) db)"
    by (rule leave_calm [OF assms db0_def]) (rule that)
  have rest: "members db' = filter (\<lambda>x. mb_player x \<noteq> me) (members db)" by (simp add: mem db0_def)
  have ros: "roster ?pid db' = roster ?pid db0" by (simp add: roster_def mem)
  have nil: "roster ?pid db' = [] \<longleftrightarrow> crew ?pid db0 = []" by (simp only: ros roster_Nil)
  show ?thesis
  proof (cases "crew ?pid db0 = []")
    case True
    then have nl: "next_leader ?pid db0 = None" using next_leader_Some [of ?pid db0] by (cases "next_leader ?pid db0") auto
    have "left_party me m db (fan_out env None (Some ?rm)) db'" using none nl nil True by (intro left_last [OF rest]) simp_all
    then show ?thesis using ans nl by auto
  next
    case False
    obtain p where p: "party_at ?pid db = Some p" using member_party_at [OF assms(4) m] by blast
    note nl = next_leader_left [OF assms(4) p db0_def False, folded ros]
    have "party_at ?pid db' = Some (p\<lparr>pa_revision := ?seq, pa_leader := if pa_leader p \<noteq> me then pa_leader p else mb_player (hd (roster ?pid db'))\<rparr>)"
      unfolding some [THEN spec, THEN mp, OF nl] party_at_restamp using p by (auto dest: sql_find_Some)
    from left_others [OF assms(1) rest _ p this] have "left_party me m db (fan_out env (party_snapshot env ?pid db') (Some ?rm)) db'"
      using nil False by blast
    then show ?thesis using ans nl by auto
  qed
qed

text \<open>
  C22. Leaving, on every branch: without faults, a caller in no party is told so; a member is removed, the
  rest of the roster stays, the party is stamped with the next revision and led by its leader, or by the earliest
  of the others when the leader left; the last member to leave takes the party and its
  invites along; and exactly the remaining members and the caller are pushed the new state.
\<close>

theorem leave_rule:
  assumes "party_calm env" and "caller i = Ok me" and "pe_uuid env me = Some me" and "party_inv db" and "revision_seq db < i64_max"
  shows "case member_of me db of
      None \<Rightarrow> leave_party env i db = (Ok (no_party (revision_of me db)), [], db)
    | Some m \<Rightarrow> (\<exists>pushes db'. leave_party env i db = (Ok (no_party (revision_seq db + 1)), pushes, db')
        \<and> members db' = filter (\<lambda>x. mb_player x \<noteq> me) (members db)
        \<and> map push_target pushes = map mb_player (roster (mb_party m) db') @ [me]
        \<and> (if roster (mb_party m) db' = []
           then party_at (mb_party m) db' = None \<and> (\<forall>v \<in> set (invites db'). iv_party v \<noteq> mb_party m)
           else (\<exists>p p'. party_at (mb_party m) db = Some p \<and> party_at (mb_party m) db' = Some p' \<and> pa_revision p' = revision_seq db + 1
             \<and> pa_leader p' = (if pa_leader p \<noteq> me then pa_leader p else mb_player (hd (roster (mb_party m) db'))))))"
proof (cases "member_of me db")
  case None
  have "leave_party env i db = leave_loop env 3 0 me db" using assms(2) by (simp add: leave_party_def membership_attempts_def)
  also have "\<dots> = (Ok (no_party (revision_of me db)), [], db)"
    using None assms(1,3) begin_locked_calm [OF assms(1,3), of 2 0 db]
    by (simp add: numeral_3_eq_3 membership_attempts_def player_view_def cast_def Let_def)
  finally show ?thesis using None by simp
next
  case (Some m)
  show ?thesis using leave_member [OF assms Some] unfolding Some option.case left_party_def .
qed

section \<open>Accepting an invite\<close>

lemma join_calm:
  assumes "party_calm env" and "pe_uuid env me = Some u" and "revision_seq db < i64_max"
  shows "if member_of u db \<noteq> None then join_tx env pid me db = Err (Sqlstate ''23505'' (Some ''members_pkey''))
    else (\<exists>db'. join_tx env pid me db = Ok (revision_seq db + 1, db') \<and> revision_seq db' = revision_seq db + 1 \<and> invites db' = invites db
      \<and> members db' = members db @ [\<lparr>mb_player = u, mb_party = pid, mb_ready = ''not_ready'', mb_joined = pe_clock env,
          mb_lease = pe_clock env + secs (pe_lease_secs env)\<rparr>]
      \<and> parties db' = parties (restamp pid (revision_seq db + 1) None db))"
  using assms by (simp add: join_tx_def cast_def insert_member_tx_def next_revision_tx_def record_player_revision_tx_def restamp_def)

lemma filter_one: "distinct (map key xs) \<Longrightarrow> (\<And>x. P x \<Longrightarrow> key x = k) \<Longrightarrow> length (filter P xs) = (if sql_find P xs = None then 0 else 1)"
proof (induction xs)
  case (Cons x xs)
  have "filter P xs = []" if "P x" using that Cons.prems by (auto simp: filter_empty_conv image_iff)
  with Cons show ?case by auto
qed simp

lemma consume_calm:
  assumes "party_calm env" and "pe_uuid env me = Some me" and "pe_uuid env invite = Some invite"
    and pk: "distinct (map iv_id (invites db))"
    and x: "x \<in> set (invites db)" "iv_id x = invite" "iv_invitee x = me" "iv_expires x > pe_now env"
  shows "consume_invite_tx env invite me (iv_party x) db = Ok (True, db\<lparr>invites := sql_delete (\<lambda>y. iv_id y = invite) (invites db)\<rparr>)"
proof -
  let ?hit = "\<lambda>y. iv_id y = invite \<and> iv_invitee y = me \<and> iv_party y = iv_party x \<and> iv_expires y > pe_now env"
  have uniq: "y = x" if "y \<in> set (invites db)" "iv_id y = invite" for y
    using pk x that unfolding distinct_map by (blast dest: inj_onD)
  have "sql_delete ?hit (invites db) = sql_delete (\<lambda>y. iv_id y = invite) (invites db)"
    unfolding sql_delete_def using uniq x(2-4) by (intro filter_cong) auto
  moreover have "sql_find ?hit (invites db) \<noteq> None" using x by (auto simp: sql_find_None)
  then have "length (filter ?hit (invites db)) = 1" using filter_one [OF pk, of ?hit invite] by simp
  ultimately show ?thesis using assms(1-3) by (simp add: consume_invite_tx_def cast_def)
qed

lemma respond_member:
  assumes "party_calm env" and "pe_uuid env me = Some me" and "member_of me db = Some m" and "party_at (mb_party m) db = Some p"
  shows "\<exists>view pushes. respond env me (Some (mb_party m)) None db = (Ok view, pushes, db) \<and> pv_party view = mb_party m
    \<and> pv_leader view = pa_leader p \<and> pv_revision view = pa_revision p
    \<and> map mw_player (pv_members view) = map mb_player (roster (mb_party m) db)
    \<and> map push_target pushes = map mb_player (roster (mb_party m) db)"
proof -
  have "pa_id p = mb_party m" using assms(4) by (auto dest: sql_find_Some)
  then show ?thesis
    using assms by (simp add: respond_def player_view_def cast_def Let_def view_of_def push_state_def comp_def zip_map_map map_zip_map
        split_beta zip_same_conv_map)
qed

text \<open>The transaction of an acceptance, decided by the size of the party and the caller's membership.\<close>

lemma accept_body_calm:
  assumes "party_calm env" "pe_uuid env me = Some me" "revision_seq db < i64_max"
    and cons: "consume_invite_tx env invite me pid db = Ok (True, db1)"
    and sel: "members db1 = members db" "revision_seq db1 = revision_seq db"
  shows "length (crew pid db) \<ge> 8 \<Longrightarrow> accept_body env me invite pid db = Err (op_err Conflict ''party is full (8 members)'')"
    and "length (crew pid db) < 8 \<Longrightarrow> member_of me db \<noteq> None \<Longrightarrow> accept_body env me invite pid db = Err (op_err Conflict ''already in a party'')"
    and "length (crew pid db) < 8 \<Longrightarrow> join_tx env pid me db1 = Ok (n, db') \<Longrightarrow> accept_body env me invite pid db = Ok ((), db')"
proof -
  have cnt: "count_members_tx env pid db1 = Ok (int (length (crew pid db)))"
    using assms(1) by (simp add: count_members_tx_def sel crew_def)
  show "length (crew pid db) \<ge> 8 \<Longrightarrow> accept_body env me invite pid db = Err (op_err Conflict ''party is full (8 members)'')"
    using assms(1) cons cnt by (simp add: accept_body_def sql_def max_members_def reject_def)
  show "length (crew pid db) < 8 \<Longrightarrow> member_of me db \<noteq> None \<Longrightarrow> accept_body env me invite pid db = Err (op_err Conflict ''already in a party'')"
    using cons cnt join_calm [OF assms(1,2), of db1 pid] assms(3)
    by (simp add: accept_body_def sql_def max_members_def write_error_def is_unique_violation_def sel)
  show "length (crew pid db) < 8 \<Longrightarrow> join_tx env pid me db1 = Ok (n, db') \<Longrightarrow> accept_body env me invite pid db = Ok ((), db')"
    using cons cnt by (simp add: accept_body_def sql_def max_members_def)
qed

lemma join_answers:
  assumes "party_calm env" "pe_uuid env me = Some me" "revision_seq db < i64_max" "member_of me db = None" "party_at pid db = Some p"
    and db1: "db1 = db\<lparr>invites := ivs\<rparr>"
  shows "\<exists>db' view pushes. join_tx env pid me db1 = Ok (revision_seq db + 1, db') \<and> respond env me (Some pid) None db' = (Ok view, pushes, db')
    \<and> pv_party view = pid \<and> pv_leader view = pa_leader p \<and> pv_revision view = revision_seq db + 1
    \<and> map mw_player (pv_members view) = map mb_player (roster pid db') \<and> mb_player ` set (members db') = insert me (mb_player ` set (members db))
    \<and> invites db' = ivs \<and> map push_target pushes = map mb_player (roster pid db')"
proof -
  let ?m = "\<lparr>mb_player = me, mb_party = pid, mb_ready = ''not_ready'', mb_joined = pe_clock env, mb_lease = pe_clock env + secs (pe_lease_secs env)\<rparr>"
  have sel: "members db1 = members db" "parties db1 = parties db" "revision_seq db1 = revision_seq db" "invites db1 = ivs" by (simp_all add: db1)
  obtain db' where j: "join_tx env pid me db1 = Ok (revision_seq db + 1, db')" "invites db' = ivs"
      "members db' = members db @ [?m]" "parties db' = parties (restamp pid (revision_seq db + 1) None db1)"
    using join_calm [OF assms(1,2), of db1 pid] assms(3,4) unfolding sel by auto
  have row: "party_at (mb_party ?m) db' = Some (p\<lparr>pa_revision := revision_seq db + 1\<rparr>)"
    unfolding j(4) party_at_restamp using assms(5) by (auto simp: sel dest: sql_find_Some)
  have mem: "member_of me db' = Some ?m" using assms(4) by (simp add: j(3) sql_find_append)
  have "mb_player ` set (members db') = insert me (mb_player ` set (members db))" by (simp add: j(3))
  with respond_member [OF assms(1,2) mem row] j(1,2) show ?thesis by auto
qed


section \<open>The sweep\<close>

lemma sweep_party_calm:
  assumes "party_calm env" and "revision_seq db < i64_max"
  shows "\<exists>r pushes db'. sweep_party env pid db = (Ok r, pushes, db') \<and> revision_seq db' \<le> revision_seq db + 1
    \<and> members db' = filter (\<lambda>m. \<not> (mb_party m = pid \<and> mb_lease m < pe_now env)) (members db)"
proof -
  let ?hit = "\<lambda>m. mb_party m = pid \<and> mb_lease m < pe_now env"
  let ?gone = "map mb_player (filter ?hit (members db))"
  let ?db = "db\<lparr>members := sql_delete ?hit (members db)\<rparr>"
  show ?thesis
  proof (cases "?gone = []")
    case True
    then have "filter (\<lambda>m. \<not> ?hit m) (members db) = members db" by (simp add: filter_empty_conv)
    moreover have "sweep_party env pid db = (Ok False, [], db)"
      using True assms(1) by (simp add: sweep_party_def sweep_body_def remove_expired_tx_def)
    ultimately show ?thesis by auto
  next
    case False
    have "revision_seq ?db < i64_max" using assms(2) by simp
    from settle_removal_calm [OF assms(1) this, of pid "sort ?gone"] obtain rm db'
      where s: "settle_removal_tx env pid (sort ?gone) ?db = Ok (rm, db')" "members db' = members ?db" "revision_seq db' = revision_seq ?db + 1"
      by blast
    have e: "remove_expired_tx env pid db = Ok (Some (rm, db'))"
      using False assms(1) s(1) by (simp add: remove_expired_tx_def)
    obtain row where "(if rm_dissolved rm then Ok None else party_view_tx env pid db') = Ok row"
      using assms(1) by (cases "rm_dissolved rm") (auto simp: party_view_tx_def)
    then have "sweep_party env pid db = (Ok True, fan_out env row (Some rm), db')"
      using e assms(1) by (simp add: sweep_party_def sweep_body_def)
    with s(2,3) show ?thesis by (auto simp: sql_delete_def)
  qed
qed

lemma sweep_parties_calm:
  assumes "\<And>k. party_calm (envs k) \<and> pe_now (envs k) = now" and "\<And>k. \<not> halt k"
  shows "revision_seq db + int (length pids) \<le> i64_max \<Longrightarrow> \<exists>pushes db'. sweep_parties envs halt k pids db = (0, pushes, db')
    \<and> members db' = filter (\<lambda>m. \<not> (mb_party m \<in> set pids \<and> mb_lease m < now)) (members db)"
proof (induction pids arbitrary: k db)
  case (Cons pid pids)
  obtain r ps db1 where 1: "sweep_party (envs k) pid db = (Ok r, ps, db1)" "revision_seq db1 \<le> revision_seq db + 1"
      "members db1 = filter (\<lambda>m. \<not> (mb_party m = pid \<and> mb_lease m < now)) (members db)"
    using sweep_party_calm [of "envs k" db pid] assms(1) [of k] Cons.prems by auto
  obtain ps' db2 where 2: "sweep_parties envs halt (Suc k) pids db1 = (0, ps', db2)"
      "members db2 = filter (\<lambda>m. \<not> (mb_party m \<in> set pids \<and> mb_lease m < now)) (members db1)"
    using Cons.IH [of db1 "Suc k"] 1(2) Cons.prems by auto
  have "members db2 = filter (\<lambda>m. \<not> (mb_party m \<in> set (pid # pids) \<and> mb_lease m < now)) (members db)"
    unfolding 2(2) 1(3) filter_filter by (intro filter_cong) auto
  then show ?case using 1(1) 2(1) assms(2) [of k] by simp
qed simp

text \<open>
  C34. The lease sweep does its work: a healthy pass over at most 64 parties with expired members reports
  success, removes exactly the members whose lease has expired, whichever of their parties
  it dissolves, and leaves no expired invite.
\<close>

theorem sweep_removes_expired:
  assumes "party_calm first" and "\<And>k. party_calm (envs k) \<and> pe_now (envs k) = pe_now first" and "party_calm final"
    and "pe_now final = pe_now first" and "\<And>k. \<not> halt k"
    and "card (mb_party ` {m \<in> set (members db). mb_lease m < pe_now first}) \<le> 64" and "revision_seq db + 64 \<le> i64_max"
  shows "case sweep_pass first envs final halt db of (r, pushes, db') \<Rightarrow>
    r = Ok () \<and> members db' = filter (\<lambda>m. \<not> mb_lease m < pe_now first) (members db)
    \<and> (\<forall>v \<in> set (invites db'). \<not> iv_expires v < pe_now first)"
proof -
  let ?due = "remdups (map mb_party (filter (\<lambda>m. mb_lease m < pe_now first) (members db)))"
  let ?key = "\<lambda>pid. min_list (map mb_lease (filter (\<lambda>m. mb_party m = pid) (filter (\<lambda>m. mb_lease m < pe_now first) (members db))))"
  have set_due: "set ?due = mb_party ` {m \<in> set (members db). mb_lease m < pe_now first}" by auto
  have "length ?due = card (set ?due)" by (metis distinct_card distinct_remdups)
  then have len: "length ?due \<le> 64" using assms(6) unfolding set_due by simp
  define pids where "pids = sort_key ?key ?due"
  have due: "expired_parties first sweep_batch db = Ok pids"
    using assms(1) len by (simp add: expired_parties_def sweep_batch_def pids_def Let_def)
  have "length pids \<le> 64" "set pids = set ?due" using len by (simp_all add: pids_def)
  then obtain pushes db1 where s: "sweep_parties envs halt 0 pids db = (0, pushes, db1)"
      "members db1 = filter (\<lambda>m. \<not> (mb_party m \<in> set pids \<and> mb_lease m < pe_now first)) (members db)"
    using sweep_parties_calm [of envs "pe_now first" halt db pids 0] assms(2,5,7) by auto
  have "members db1 = filter (\<lambda>m. \<not> mb_lease m < pe_now first) (members db)"
    unfolding s(2) \<open>set pids = set ?due\<close> set_due by (intro filter_cong) auto
  then show ?thesis
    using due s(1) assms(3,4) by (simp add: sweep_pass_def delete_expired_invites_def)
qed

section \<open>A concrete party\<close>

definition party_demo_env :: party_env where
  "party_demo_env = \<lparr>pe_uuid = Some, pe_now = 100, pe_clock = 100, pe_party_id = ''p'', pe_invite_id = ''v'', pe_rfc3339 = (\<lambda>_. ''t''),
     pe_text = (\<lambda>_. []), pe_fault = (\<lambda>_. False), pe_commit_applied = False, pe_others = (\<lambda>_ db. db),
     pe_find_by_handle = (\<lambda>_. Ok None), pe_players_by_id = (\<lambda>_. None), pe_lease_secs = 60\<rparr>"

definition demo_alice :: string where "demo_alice = ''00000000-0000-0000-0000-00000000000a''"
definition demo_bob :: string where "demo_bob = ''00000000-0000-0000-0000-00000000000b''"
definition demo_invite :: string where "demo_invite = ''00000000-0000-0000-0000-0000000000ff''"

definition party_empty :: party_db where
  "party_empty = \<lparr>revision_seq = 0, player_revisions = [], parties = [], members = [], invites = []\<rparr>"

text \<open>Alice leads a party of one, whose lease is over, and has invited Bob.\<close>

definition party_demo :: party_db where
  "party_demo = \<lparr>revision_seq = 1, player_revisions = [\<lparr>rv_player = demo_alice, rv_revision = 1\<rparr>],
     parties = [\<lparr>pa_id = ''p'', pa_leader = demo_alice, pa_revision = 1, pa_created = 0\<rparr>],
     members = [\<lparr>mb_player = demo_alice, mb_party = ''p'', mb_ready = ''not_ready'', mb_joined = 0, mb_lease = 60\<rparr>],
     invites = [\<lparr>iv_id = demo_invite, iv_party = ''p'', iv_inviter = demo_alice, iv_invitee = demo_bob, iv_expires = 120\<rparr>]\<rparr>"

lemma demo_callers: "caller (Identity (Some demo_alice)) = Ok demo_alice" "caller (Identity (Some demo_bob)) = Ok demo_bob"
    "uuid_arg ''invite_id'' demo_invite = Ok demo_invite" "demo_alice \<noteq> demo_bob"
  by code_simp+

lemma party_demo_env_calm: "party_calm party_demo_env"
  by (simp add: party_calm_def party_demo_env_def)

lemma party_demo_inv: "party_inv party_demo"
  by (simp add: party_inv_defs party_demo_def crew_def)

lemma party_empty_start: "party_start party_empty"
  by (simp add: party_start_def party_empty_def)

lemma demo_create_step:
  "(party_step {})\<^sup>*\<^sup>* party_empty (snd (snd (create_party party_demo_env (Identity (Some demo_alice)) party_empty)))"
  by (rule r_into_rtranclp, rule party_step.create) (simp add: party_demo_env_def)

lemma demo_created:
  "members (snd (snd (create_party party_demo_env (Identity (Some demo_alice)) party_empty))) =
     [\<lparr>mb_player = demo_alice, mb_party = ''p'', mb_ready = ''not_ready'', mb_joined = 100, mb_lease = 60000100\<rparr>]"
  "parties (snd (snd (create_party party_demo_env (Identity (Some demo_alice)) party_empty))) =
     [\<lparr>pa_id = ''p'', pa_leader = demo_alice, pa_revision = 1, pa_created = 100\<rparr>]"
  by (simp_all add: create_party_def demo_callers commit_def create_tx_def cast_def insert_member_tx_def statement_def next_revision_tx_def
      record_player_revision_tx_def respond_def player_view_def party_demo_env_def party_empty_def secs_def i64_max_def Let_def)

theorem party_well_formed_witness:
  "\<exists>db p m. db = snd (snd (create_party party_demo_env (Identity (Some demo_alice)) party_empty)) \<and>
     parties db = [p] \<and> m \<in> set (members db) \<and> mb_player m = pa_leader p \<and> mb_party m = pa_id p"
  using party_well_formed [OF party_empty_start demo_create_step] by (fastforce simp: demo_created)


theorem leave_rule_witness:
  "\<exists>pushes db'. leave_party party_demo_env (Identity (Some demo_alice)) party_demo = (Ok (no_party 2), pushes, db') \<and> members db' = []"
proof -
  have "pe_uuid party_demo_env demo_alice = Some demo_alice" "revision_seq party_demo < i64_max"
    by (simp_all add: party_demo_env_def party_demo_def i64_max_def)
  from leave_rule [OF party_demo_env_calm demo_callers(1) this(1) party_demo_inv this(2)] show ?thesis
    by (auto simp: party_demo_def)
qed


theorem sweep_removes_expired_witness:
  "case sweep_pass party_demo_env (\<lambda>_. party_demo_env) party_demo_env (\<lambda>_. False) party_demo of (r, pushes, db') \<Rightarrow> r = Ok () \<and> members db' = []"
proof -
  have "mb_party ` {m \<in> set (members party_demo). mb_lease m < pe_now party_demo_env} \<subseteq> {''p''}"
    by (auto simp: party_demo_def)
  from card_mono [OF _ this] have c: "card (mb_party ` {m \<in> set (members party_demo). mb_lease m < pe_now party_demo_env}) \<le> 64"
      "revision_seq party_demo + 64 \<le> i64_max"
    by (simp_all add: party_demo_def i64_max_def)
  show ?thesis
    using sweep_removes_expired [OF party_demo_env_calm _ party_demo_env_calm refl _ c, of "\<lambda>_. party_demo_env" "\<lambda>_. False"] party_demo_env_calm
    by (auto simp: party_demo_def party_demo_env_def split: prod.splits)
qed

end
