(* ===== verification/Match_Report.thy ===== *)
theory Match_Report
  imports Event_Plane Opsapi
begin

text \<open>
  The match module (\<open>modules/match/src/lib.rs\<close>) and the two projections of its event: the ratings
  (\<open>modules/rating/src/lib.rs\<close>) and the leaderboard (\<open>modules/leaderboard/src/lib.rs\<close>). A report commits its row and the
  event \<open>match.finished\<close> in one transaction; the projections are handlers on the delivery transactions of the plane.
\<close>

section \<open>Reporting a match\<close>

record match_row =
  mt_id :: string
  mt_report :: string
  mt_winner :: string
  mt_loser :: string
  mt_at :: instant

record match_db =
  match_rows :: "match_row list"

text \<open>The payload of \<open>match.finished\<close>.\<close>

record finished =
  fi_match :: string
  fi_winner :: string
  fi_loser :: string

definition finished_contract :: event_contract where
  "finished_contract = \<lparr>ct_topic = ''match.finished'', ct_version = 1, ct_history = MinRetention 7\<rparr>"

datatype match_stmt = M_existing | M_begin | M_insert | M_reread | M_rollback | M_commit

text \<open>
  \<open>me_mmr\<close> is what the rating capability answers for a player; \<open>me_interim\<close> what other sessions commit between the
  first lookup of the report id and the insert; \<open>me_match_id\<close> and \<open>me_event_id\<close> are fresh ids.
\<close>

record match_env =
  me_tx :: pg_tx
  me_match_id :: string
  me_event_id :: string
  me_text :: "sql_error \<Rightarrow> string"
  me_bus_text :: "bus_error \<Rightarrow> string"
  me_transport :: bool
  me_encode :: "finished \<Rightarrow> string option"
  me_json :: "string \<Rightarrow> string option"
  me_fault :: "match_stmt \<Rightarrow> bool"
  me_commit_applied :: bool
  me_mmr :: "string \<Rightarrow> (op_error, int) result"
  me_interim :: "match_db store \<Rightarrow> match_db store"

definition max_report_id_bytes :: nat where "max_report_id_bytes = 128"
definition max_participant_bytes :: nat where "max_participant_bytes = 128"

definition validate_report_id :: "string \<Rightarrow> (op_error, unit) result" where
  "validate_report_id report_id =
     (if trim report_id = [] then Err (op_err Invalid ''ReportId must be a non-empty idempotency key'')
      else if length report_id > max_report_id_bytes then Err (op_err Invalid ''ReportId exceeds the 128-byte limit'')
      else Ok ())"

definition validate_participant :: "string \<Rightarrow> string \<Rightarrow> (op_error, unit) result" where
  "validate_participant field participant =
     (if participant = [] then Err (op_err Invalid (field @ '' must be non-empty''))
      else if length participant > max_participant_bytes then Err (op_err Invalid (field @ '' exceeds the 128-byte limit''))
      else Ok ())"

definition validate_new_participants :: "string \<Rightarrow> string \<Rightarrow> (op_error, unit) result" where
  "validate_new_participants winner loser =
     (case validate_participant ''Winner'' winner of
        Inl e \<Rightarrow> Err e
      | Inr _ \<Rightarrow>
          (case validate_participant ''Loser'' loser of
             Inl e \<Rightarrow> Err e
           | Inr _ \<Rightarrow> if winner = loser then Err (op_err Invalid ''Winner and Loser must be different'') else Ok ()))"

definition match_internal :: "match_env \<Rightarrow> sql_error \<Rightarrow> op_error" where
  "match_internal env e = op_err Internal (me_text env e)"

text \<open>A \<open>text\<close> parameter with a zero byte is refused by the server.\<close>

definition nul_free :: "string \<Rightarrow> bool" where
  "nul_free s \<longleftrightarrow> CHR 0x00 \<notin> set s"

definition existing_report :: "match_env \<Rightarrow> match_stmt \<Rightarrow> string \<Rightarrow> match_db \<Rightarrow> (sql_error, (string \<times> string) option) result" where
  "existing_report env stmt report_id db =
     (if me_fault env stmt then Err conn_lost
      else if \<not> nul_free report_id then Err (Sqlstate ''22021'' None)
      else Ok (map_option (\<lambda>r. (mt_winner r, mt_loser r)) (sql_find (\<lambda>r. mt_report r = report_id) (match_rows db))))"

definition match_insert_tx :: "match_env \<Rightarrow> string \<Rightarrow> string \<Rightarrow> string \<Rightarrow> match_db \<Rightarrow> (sql_error, string option \<times> match_db) result" where
  "match_insert_tx env report_id winner loser db =
     (if me_fault env M_insert then Err conn_lost
      else if \<not> (nul_free report_id \<and> nul_free winner \<and> nul_free loser) then Err (Sqlstate ''22021'' None)
      else if sql_find (\<lambda>r. mt_report r = report_id) (match_rows db) \<noteq> None then Ok (None, db)
      else if sql_find (\<lambda>r. mt_id r = me_match_id env) (match_rows db) \<noteq> None then Err (Sqlstate ''23505'' (Some ''matches_pkey''))
      else Ok (Some (me_match_id env), db\<lparr>match_rows := match_rows db @
        [\<lparr>mt_id = me_match_id env, mt_report = report_id, mt_winner = winner, mt_loser = loser, mt_at = xact_now (me_tx env)\<rparr>]\<rparr>))"

definition duplicate_result :: "string \<times> string \<Rightarrow> string \<Rightarrow> string \<Rightarrow> (op_error, unit) result" where
  "duplicate_result existing winner loser =
     (if fst existing = winner \<and> snd existing = loser then Ok ()
      else Err (op_err Conflict ''ReportId already used for a different match''))"

definition read_mmr :: "match_env \<Rightarrow> string \<Rightarrow> (op_error, int) result" where
  "read_mmr env player = (case me_mmr env player of
     Inl _ \<Rightarrow> Err (op_err Unavailable ''rating service unavailable'') | Inr n \<Rightarrow> Ok n)"

text \<open>The report's transaction up to its commit: the row and its event, or nothing for a report id already used.\<close>

definition report_tx :: "match_env \<Rightarrow> string \<Rightarrow> string \<Rightarrow> string \<Rightarrow> match_db store \<Rightarrow> (op_error, bool \<times> match_db store) result" where
  "report_tx env report_id winner loser st =
     (case match_insert_tx env report_id winner loser (domain st) of
        Inl e \<Rightarrow> Err (match_internal env e)
      | Inr (None, _) \<Rightarrow> Ok (False, st)
      | Inr (Some match_id, db) \<Rightarrow>
          (case emit_tx (me_transport env) (me_json env) (me_tx env) (me_event_id env) PgConnection finished_contract
                  (me_encode env \<lparr>fi_match = match_id, fi_winner = winner, fi_loser = loser\<rparr>) (plane st) of
             Inl e \<Rightarrow> Err (op_err Internal (me_bus_text env e))
           | Inr plane' \<Rightarrow> Ok (True, \<lparr>plane = plane', domain = db\<rparr>)))"

definition report :: "match_env \<Rightarrow> string \<Rightarrow> string \<Rightarrow> string \<Rightarrow> match_db store \<Rightarrow> (op_error, unit) result \<times> match_db store" where
  "report env report_id winner loser st =
     (case validate_report_id report_id of
        Inl e \<Rightarrow> (Err e, st)
      | Inr _ \<Rightarrow>
     (case existing_report env M_existing report_id (domain st) of
        Inl e \<Rightarrow> (Err (match_internal env e), st)
      | Inr (Some existing) \<Rightarrow> (duplicate_result existing winner loser, st)
      | Inr None \<Rightarrow>
     (case validate_new_participants winner loser of
        Inl e \<Rightarrow> (Err e, st)
      | Inr _ \<Rightarrow>
     (case read_mmr env winner of
        Inl e \<Rightarrow> (Err e, st)
      | Inr _ \<Rightarrow>
     (case read_mmr env loser of
        Inl e \<Rightarrow> (Err e, st)
      | Inr _ \<Rightarrow>
     (let base = me_interim env st in
      if me_fault env M_begin then (Err (match_internal env conn_lost), base)
      else case report_tx env report_id winner loser base of
        Inl e \<Rightarrow> (Err e, base)
      | Inr (False, _) \<Rightarrow>
          (case existing_report env M_reread report_id (domain base) of
             Inl e \<Rightarrow> (Err (match_internal env e), base)
           | Inr None \<Rightarrow> (Err (op_err Internal ''conflicting ReportId row disappeared''), base)
           | Inr (Some existing) \<Rightarrow>
               if me_fault env M_rollback then (Err (match_internal env conn_lost), base)
               else (duplicate_result existing winner loser, base))
      | Inr (True, st') \<Rightarrow>
          if me_fault env M_commit then (Err (match_internal env conn_lost), if me_commit_applied env then st' else base)
          else (Ok (), st')))))))"

section \<open>Ratings\<close>

record rating_row =
  rr_player :: string
  rr_mmr :: int

definition default_mmr :: int where "default_mmr = 1000"
definition win_delta :: int where "win_delta = 15"
definition loss_delta :: int where "loss_delta = 15"

definition i32_min :: int where "i32_min = -2147483648"

text \<open>The \<open>k\<close>-th statement of a handler; an \<open>integer\<close> or \<open>bigint\<close> out of range fails its statement.\<close>

definition upsert_delta :: "bool \<Rightarrow> string \<Rightarrow> int \<Rightarrow> rating_row list \<Rightarrow> (sql_error, rating_row list) result" where
  "upsert_delta fault player delta rows =
     (if fault then Err conn_lost
      else if \<not> nul_free player then Err (Sqlstate ''22021'' None)
      else case sql_find (\<lambda>r. rr_player r = player) rows of
        None \<Rightarrow> Ok (rows @ [\<lparr>rr_player = player, rr_mmr = default_mmr + delta\<rparr>])
      | Some r \<Rightarrow>
          if rr_mmr r + delta < i32_min \<or> i32_max < rr_mmr r + delta then Err (Sqlstate ''22003'' None)
          else Ok (sql_update (\<lambda>r. rr_player r = player) (\<lambda>r. r\<lparr>rr_mmr := rr_mmr r + delta\<rparr>) rows))"

definition apply_result :: "(nat \<Rightarrow> bool) \<Rightarrow> string \<Rightarrow> string \<Rightarrow> rating_row list \<Rightarrow> (sql_error, rating_row list) result" where
  "apply_result fault winner loser rows =
     (case upsert_delta (fault 0) winner win_delta rows of
        Inl e \<Rightarrow> Err e
      | Inr rows1 \<Rightarrow> upsert_delta (fault 1) loser (- loss_delta) rows1)"

definition mmr :: "bool \<Rightarrow> (sql_error \<Rightarrow> string) \<Rightarrow> string \<Rightarrow> rating_row list \<Rightarrow> (op_error, int) result" where
  "mmr fault text player rows =
     (if fault then Err (op_err Internal (text conn_lost))
      else if \<not> nul_free player then Err (op_err Internal (text (Sqlstate ''22021'' None)))
      else Ok (case sql_find (\<lambda>r. rr_player r = player) rows of Some r \<Rightarrow> rr_mmr r | None \<Rightarrow> default_mmr))"

definition rating_entry :: sub_entry where
  "rating_entry = \<lparr>en_id = ''rating.match-finished.v1'', en_start = Genesis, en_topic = ''match.finished'', en_version = 1,
     en_history = Some (MinRetention 7)\<rparr>"

definition rate_finished :: "(nat \<Rightarrow> bool) \<Rightarrow> (string \<Rightarrow> finished option) \<Rightarrow> (sql_error \<Rightarrow> string) \<Rightarrow> rating_row list tx_handler" where
  "rate_finished fault decode text eid payload st =
     (case decode payload of
        None \<Rightarrow> Failed ''codec''
      | Some e \<Rightarrow>
          (case apply_result fault (fi_winner e) (fi_loser e) (domain st) of
             Inl err \<Rightarrow> Failed (text err)
           | Inr rows \<Rightarrow> Handled (st\<lparr>domain := rows\<rparr>)))"

section \<open>The leaderboard\<close>

record score_row =
  sc_player :: string
  sc_wins :: int

definition record_win :: "bool \<Rightarrow> string \<Rightarrow> score_row list \<Rightarrow> (sql_error, score_row list) result" where
  "record_win fault player rows =
     (if fault then Err conn_lost
      else if \<not> nul_free player then Err (Sqlstate ''22021'' None)
      else case sql_find (\<lambda>r. sc_player r = player) rows of
        None \<Rightarrow> Ok (rows @ [\<lparr>sc_player = player, sc_wins = 1\<rparr>])
      | Some r \<Rightarrow>
          if i64_max < sc_wins r + 1 then Err (Sqlstate ''22003'' None)
          else Ok (sql_update (\<lambda>r. sc_player r = player) (\<lambda>r. r\<lparr>sc_wins := sc_wins r + 1\<rparr>) rows))"

text \<open>The database orders equal win counts by the collation of its text type, ties by the bytes.\<close>

definition top_scores :: "bool \<Rightarrow> (string \<Rightarrow> string) \<Rightarrow> (sql_error \<Rightarrow> string) \<Rightarrow> score_row list \<Rightarrow> (op_error, (string \<times> int) list) result" where
  "top_scores fault collate text rows =
     (if fault then Err (op_err Internal (text conn_lost))
      else Ok (map (\<lambda>r. (sc_player r, sc_wins r))
        (take 100 (sort_key (\<lambda>r. (- sc_wins r, collate (sc_player r), sc_player r)) rows))))"

definition board_entry :: sub_entry where
  "board_entry = \<lparr>en_id = ''leaderboard.match-finished.v1'', en_start = Genesis, en_topic = ''match.finished'', en_version = 1,
     en_history = Some (MinRetention 7)\<rparr>"

definition score_finished :: "bool \<Rightarrow> (string \<Rightarrow> finished option) \<Rightarrow> (sql_error \<Rightarrow> string) \<Rightarrow> score_row list tx_handler" where
  "score_finished fault decode text eid payload st =
     (case decode payload of
        None \<Rightarrow> Failed ''codec''
      | Some e \<Rightarrow>
          (case record_win fault (fi_winner e) (domain st) of
             Inl err \<Rightarrow> Failed (text err)
           | Inr rows \<Rightarrow> Handled (st\<lparr>domain := rows\<rparr>)))"

end
