(* ===== verification/Match_Flow.thy ===== *)
theory Match_Flow
  imports Match_Report
begin

text \<open>
  The three modules over the event plane: open transactions of reports, deliveries to the two projections and everything
  else the plane does, as one step relation, and its invariant - committed matches and committed events correspond one to
  one, and each projection is the tally of what it was delivered.
\<close>

section \<open>The three modules over one log\<close>

definition is_finished :: "event_row \<Rightarrow> bool" where
  "is_finished e \<longleftrightarrow> ev_topic e = ''match.finished'' \<and> ev_version e = 1"

definition finished_of :: "match_row \<Rightarrow> finished" where
  "finished_of r = \<lparr>fi_match = mt_id r, fi_winner = mt_winner r, fi_loser = mt_loser r\<rparr>"

text \<open>
  The plane next to the committed rows of the three modules and the row each open transaction of a report has
  inserted.
\<close>

record flow =
  fw_plane :: plane_state
  fw_matches :: "match_row list"
  fw_pending :: "nat \<rightharpoonup> match_row"
  fw_ratings :: "rating_row list"
  fw_scores :: "score_row list"

definition open_finished :: "plane_state \<Rightarrow> nat \<Rightarrow> event_row list" where
  "open_finished p x = (case ps_open p x of None \<Rightarrow> [] | Some rows \<Rightarrow> filter is_finished rows)"

definition appended :: "nat \<Rightarrow> plane_db \<Rightarrow> plane_state \<Rightarrow> plane_state" where
  "appended x view p = p\<lparr>ps_open := (ps_open p)(x \<mapsto> drop (length (events (ps_db p))) (events view)),
     ps_db := (ps_db p)\<lparr>histories := histories view, next_tie := next_tie view\<rparr>\<rparr>"

definition delivered :: "instant \<Rightarrow> string \<Rightarrow> event_row \<Rightarrow> nat \<Rightarrow> plane_state \<Rightarrow> plane_state" where
  "delivered now sid ev x p = stepped sid ev (release sid x
     ((commit_rows [] p)\<lparr>ps_db := advance_cursor now sid (ev_pos ev) (ps_db (commit_rows [] p))\<rparr>))"

text \<open>
  Everything else on the plane goes on around them, as long as no other module appends to \<open>match.finished\<close> and no
  operator skips an event of the two subscriptions. An insert waits for the open transactions that hold the same key.
\<close>

inductive flow_step :: "(finished \<Rightarrow> string option) \<Rightarrow> (string \<Rightarrow> string option) \<Rightarrow> (string \<Rightarrow> finished option) \<Rightarrow> flow \<Rightarrow> flow \<Rightarrow> bool"
  for enc jin decode where
  Elsewhere: "flow_step enc jin decode f (f\<lparr>fw_plane := p'\<rparr>)"
  if "plane_step (fw_plane f) p'" and "{e \<in> ps_all p'. is_finished e} = {e \<in> ps_all (fw_plane f). is_finished e}"
    and "open_finished p' = open_finished (fw_plane f)"
    and "ps_done p' (en_id rating_entry) = ps_done (fw_plane f) (en_id rating_entry)"
    and "ps_done p' (en_id board_entry) = ps_done (fw_plane f) (en_id board_entry)"
| Reported: "flow_step enc jin decode f (f\<lparr>fw_plane := appended x (plane st) (fw_plane f),
       fw_pending := (fw_pending f)(x \<mapsto> last (match_rows (domain st)))\<rparr>)"
  if "ps_open (fw_plane f) x = Some []" and "fw_pending f x = None"
    and "me_encode env = enc" and "me_json env = jin" and "xact_id (me_tx env) = x"
    and "report_tx env rid winner loser \<lparr>plane = ps_db (fw_plane f), domain = \<lparr>match_rows = fw_matches f\<rparr>\<rparr> = Ok (True, st)"
    and "\<forall>r \<in> ran (fw_pending f). mt_report r \<noteq> rid \<and> mt_id r \<noteq> me_match_id env"
| Committed: "flow_step enc jin decode f (f\<lparr>fw_plane := end_tx x (commit_rows rows (fw_plane f)), fw_matches := fw_matches f @ [r],
       fw_pending := (fw_pending f)(x := None)\<rparr>)"
  if "ps_open (fw_plane f) x = Some rows" and "idle x (fw_plane f)" and "fw_pending f x = Some r"
| Aborted: "flow_step enc jin decode f (f\<lparr>fw_plane := end_tx x (fw_plane f), fw_pending := (fw_pending f)(x := None)\<rparr>)"
  if "idle x (fw_plane f)"
| Rated: "flow_step enc jin decode f (f\<lparr>fw_plane := delivered now (en_id rating_entry) ev x (fw_plane f), fw_ratings := domain st\<rparr>)"
  if "ps_claims (fw_plane f) (en_id rating_entry) = Some (ev, x)" and "ps_open (fw_plane f) x = Some []"
    and "rate_finished fault decode text (ev_id ev) (ev_payload ev) \<lparr>plane = ps_db (fw_plane f), domain = fw_ratings f\<rparr> = Handled st"
| Scored: "flow_step enc jin decode f (f\<lparr>fw_plane := delivered now (en_id board_entry) ev x (fw_plane f), fw_scores := domain st\<rparr>)"
  if "ps_claims (fw_plane f) (en_id board_entry) = Some (ev, x)" and "ps_open (fw_plane f) x = Some []"
    and "score_finished sfault decode text (ev_id ev) (ev_payload ev) \<lparr>plane = ps_db (fw_plane f), domain = fw_scores f\<rparr> = Handled st"

definition flow_start :: "flow \<Rightarrow> bool" where
  "flow_start f \<longleftrightarrow> plane_init (fw_plane f) \<and> fw_matches f = [] \<and> fw_pending f = Map.empty \<and> fw_ratings f = [] \<and> fw_scores f = []"

section \<open>The projections\<close>

definition rating_of :: "string \<Rightarrow> rating_row list \<Rightarrow> int" where
  "rating_of player rows = (case sql_find (\<lambda>r. rr_player r = player) rows of Some r \<Rightarrow> rr_mmr r | None \<Rightarrow> default_mmr)"

definition wins_of :: "string \<Rightarrow> score_row list \<Rightarrow> int" where
  "wins_of player rows = (case sql_find (\<lambda>r. sc_player r = player) rows of Some r \<Rightarrow> sc_wins r | None \<Rightarrow> 0)"

definition rated_by :: "finished list \<Rightarrow> rating_row list \<Rightarrow> bool" where
  "rated_by fs rows \<longleftrightarrow> (\<forall>player. rating_of player rows =
     default_mmr + win_delta * int (length (filter (\<lambda>e. fi_winner e = player) fs))
       - loss_delta * int (length (filter (\<lambda>e. fi_loser e = player) fs)))"

definition scored_by :: "finished list \<Rightarrow> score_row list \<Rightarrow> bool" where
  "scored_by fs rows \<longleftrightarrow> (\<forall>player. wins_of player rows = int (length (filter (\<lambda>e. fi_winner e = player) fs)))"

lemma find_update_key:
  assumes "\<And>r. key (g r) = key r"
  shows "sql_find (\<lambda>r. key r = k) (sql_update (\<lambda>r. key r = k') g rows)
    = map_option (\<lambda>r. if k = k' then g r else r) (sql_find (\<lambda>r. key r = k) rows)"
  using assms by (induction rows) auto

lemma upsert_delta_rating:
  assumes "upsert_delta fault player delta rows = Ok rows'"
  shows "rating_of q rows' = rating_of q rows + (if q = player then delta else 0)"
  using assms by (auto simp: upsert_delta_def rating_of_def sql_find_append find_update_key [of rr_player] split: if_splits option.splits)

lemma record_win_score:
  assumes "record_win fault player rows = Ok rows'"
  shows "wins_of q rows' = wins_of q rows + (if q = player then 1 else 0)"
  using assms by (auto simp: record_win_def wins_of_def sql_find_append find_update_key [of sc_player] split: if_splits option.splits)

lemma rate_finished_rates:
  assumes "rate_finished fault decode text eid payload st = Handled st'" "rated_by fs (domain st)"
  shows "\<exists>e. decode payload = Some e \<and> rated_by (fs @ [e]) (domain st')"
proof -
  obtain e rows1 where e: "decode payload = Some e" "upsert_delta (fault 0) (fi_winner e) win_delta (domain st) = Ok rows1"
      "upsert_delta (fault 1) (fi_loser e) (- loss_delta) rows1 = Ok (domain st')"
    using assms(1) by (auto simp: rate_finished_def apply_result_def split: option.splits sum.splits)
  have "rated_by (fs @ [e]) (domain st')"
    using assms(2) upsert_delta_rating [OF e(2)] upsert_delta_rating [OF e(3)]
    by (auto simp: rated_by_def win_delta_def loss_delta_def)
  with e(1) show ?thesis by blast
qed

lemma score_finished_scores:
  assumes "score_finished fault decode text eid payload st = Handled st'" "scored_by fs (domain st)"
  shows "\<exists>e. decode payload = Some e \<and> scored_by (fs @ [e]) (domain st')"
proof -
  obtain e where e: "decode payload = Some e" "record_win fault (fi_winner e) (domain st) = Ok (domain st')"
    using assms(1) by (auto simp: score_finished_def split: option.splits sum.splits)
  have "scored_by (fs @ [e]) (domain st')" using assms(2) record_win_score [OF e(2)] by (auto simp: scored_by_def)
  with e(1) show ?thesis by blast
qed

section \<open>A report on the plane\<close>

lemma ensure_history_only:
  assumes "ensure_history_contract topic v h db = Ok db'"
  shows "db' = db\<lparr>histories := histories db'\<rparr>"
  using assms by (auto simp: ensure_history_contract_def Let_def split: prod.splits option.splits if_splits)

lemma emit_finishedD:
  assumes "emit_tx tr jin tx eid PgConnection finished_contract (Some payload) db = Ok view"
  shows "\<exists>db1 json. ensure_history_contract ''match.finished'' 1 (MinRetention 7) db = Ok db1 \<and> events db1 = events db \<and> histories view = histories db1
    \<and> jin payload = Some json \<and> append_event tx eid ''match.finished'' 1 json db1 = Ok (eid, view)"
proof -
  obtain db1 json where h: "ensure_history_contract ''match.finished'' 1 (MinRetention 7) db = Ok db1"
      and j: "jin payload = Some json" "append_event tx eid ''match.finished'' 1 json db1 = Ok (eid, view)"
    using assms by (auto simp: emit_tx_def enqueue_tx_def append_def finished_contract_def i32_try_from_def i32_max_def append_event_def
        split: if_splits sum.splits option.splits)
  moreover have "histories view = histories db1" using j(2) by (auto simp: append_event_def split: option.splits if_splits)
  moreover have "events db1 = events db"
    using ensure_history_frame [OF h] by simp
  ultimately show ?thesis by blast
qed

lemma emit_finished:
  assumes "emit_tx tr jin tx eid PgConnection finished_contract (Some payload) db = Ok view"
  shows "\<exists>ev. events view = events db @ [ev] \<and> is_finished ev \<and> ev_xid ev = xact_id tx \<and> jin payload = Some (ev_payload ev)"
  using emit_finishedD [OF assms] by (auto simp: append_event_def is_finished_def split: option.splits if_splits)

lemma emit_steps:
  assumes e: "emit_tx tr jin tx eid PgConnection finished_contract (Some payload) (ps_db p) = Ok view"
    and x: "ps_open p (xact_id tx) = Some []"
  shows "plane_step\<^sup>*\<^sup>* p (appended (xact_id tx) view p)"
proof -
  obtain db1 json where h: "ensure_history_contract ''match.finished'' 1 (MinRetention 7) (ps_db p) = Ok db1" "events db1 = events (ps_db p)"
      "histories view = histories db1" and a: "append_event tx eid ''match.finished'' 1 json db1 = Ok (eid, view)"
    using emit_finishedD [OF e] by blast
  let ?p1 = "p\<lparr>ps_db := db1\<rparr>"
  have s1: "plane_step p ?p1" by (rule plane_step.history [OF h(1)])
  have "plane_step ?p1 (?p1\<lparr>ps_open := (ps_open ?p1)(xact_id tx \<mapsto> drop (length (events (ps_db ?p1))) (events view)),
      ps_db := (ps_db ?p1)\<lparr>next_tie := next_tie view\<rparr>\<rparr>)"
    by (rule plane_step.append_row [of ?p1 "xact_id tx" "[]" tx eid "''match.finished''" 1 json view]) (use x a in simp_all)
  moreover have "db1\<lparr>next_tie := next_tie view\<rparr> = (ps_db p)\<lparr>histories := histories db1, next_tie := next_tie view\<rparr>"
    by (subst ensure_history_only [OF h(1)]) simp
  ultimately show ?thesis using s1 h(2,3) by (simp add: appended_def)
qed

lemma report_txD:
  assumes "report_tx env rid winner loser st0 = Ok (True, st)"
  shows "\<exists>payload. me_encode env (finished_of (last (match_rows (domain st)))) = Some payload
      \<and> emit_tx (me_transport env) (me_json env) (me_tx env) (me_event_id env) PgConnection finished_contract (Some payload) (plane st0) = Ok (plane st)"
    and "mt_id (last (match_rows (domain st))) = me_match_id env" "mt_report (last (match_rows (domain st))) = rid"
    and "\<forall>r \<in> set (match_rows (domain st0)). mt_report r \<noteq> rid \<and> mt_id r \<noteq> me_match_id env"
  using assms by (auto simp: report_tx_def match_insert_tx_def finished_of_def sql_find_None emit_tx_def
      split: sum.splits option.splits if_splits)

section \<open>The invariant of the flow\<close>

definition payload_of :: "(string \<Rightarrow> finished option) \<Rightarrow> event_row \<Rightarrow> finished" where
  "payload_of decode e = the (decode (ev_payload e))"

text \<open>Committed matches and committed events correspond one to one, and so do open ones.\<close>

definition open_ok :: "(string \<Rightarrow> finished option) \<Rightarrow> flow \<Rightarrow> nat \<Rightarrow> bool" where
  "open_ok decode f x \<longleftrightarrow> (case fw_pending f x of
     None \<Rightarrow> open_finished (fw_plane f) x = []
   | Some r \<Rightarrow> \<exists>e. open_finished (fw_plane f) x = [e] \<and> decode (ev_payload e) = Some (finished_of r))"

definition booked :: "(string \<Rightarrow> finished option) \<Rightarrow> flow \<Rightarrow> bool" where
  "booked decode f \<longleftrightarrow>
     (\<forall>e \<in> ps_all (fw_plane f). is_finished e \<longrightarrow> decode (ev_payload e) \<noteq> None)
     \<and> bij_betw (payload_of decode) {e \<in> ps_all (fw_plane f). is_finished e} (finished_of ` set (fw_matches f))
     \<and> (\<forall>x. open_ok decode f x)"

definition keys_ok :: "flow \<Rightarrow> bool" where
  "keys_ok f \<longleftrightarrow> distinct (map mt_id (fw_matches f)) \<and> distinct (map mt_report (fw_matches f))
     \<and> (\<forall>x r. fw_pending f x = Some r \<longrightarrow> mt_id r \<notin> mt_id ` set (fw_matches f) \<and> mt_report r \<notin> mt_report ` set (fw_matches f))
     \<and> (\<forall>x y r r'. x \<noteq> y \<longrightarrow> fw_pending f x = Some r \<longrightarrow> fw_pending f y = Some r' \<longrightarrow> mt_id r \<noteq> mt_id r' \<and> mt_report r \<noteq> mt_report r')"

definition tallied :: "(string \<Rightarrow> finished option) \<Rightarrow> flow \<Rightarrow> bool" where
  "tallied decode f \<longleftrightarrow>
     rated_by (map (payload_of decode) (ps_done (fw_plane f) (en_id rating_entry))) (fw_ratings f)
     \<and> scored_by (map (payload_of decode) (ps_done (fw_plane f) (en_id board_entry))) (fw_scores f)"

definition flow_inv :: "(string \<Rightarrow> finished option) \<Rightarrow> flow \<Rightarrow> bool" where
  "flow_inv decode f \<longleftrightarrow> plane_inv (fw_plane f) \<and> booked decode f \<and> keys_ok f \<and> tallied decode f"

lemma delivered_frame [simp]:
  "ps_all (delivered now sid ev x p) = ps_all p"
  "ps_done (delivered now sid ev x p) = (ps_done p)(sid := ps_done p sid @ [ev])"
  "ps_open (delivered now sid ev x p) = (ps_open p)(x := None)"
  by (simp_all add: delivered_def stepped_def release_def end_tx_def commit_rows_def)

lemma appended_frame [simp]:
  "ps_all (appended x view p) = ps_all p" "ps_done (appended x view p) = ps_done p"
  "ps_open (appended x view p) = (ps_open p)(x \<mapsto> drop (length (events (ps_db p))) (events view))"
  by (simp_all add: appended_def)

lemma end_tx_frame [simp]:
  "ps_all (end_tx x p) = ps_all p" "ps_done (end_tx x p) = ps_done p" "ps_open (end_tx x p) = (ps_open p)(x := None)"
  by (simp_all add: end_tx_def)

lemma commit_rows_frame [simp]:
  "ps_all (commit_rows rows p) = ps_all p \<union> set rows" "ps_done (commit_rows rows p) = ps_done p" "ps_open (commit_rows rows p) = ps_open p"
  by (simp_all add: commit_rows_def)

text \<open>Steps on the plane.\<close>

lemma flow_step_plane:
  "flow_step enc jin decode f f' \<Longrightarrow> plane_step\<^sup>*\<^sup>* (fw_plane f) (fw_plane f')"
proof (induction rule: flow_step.induct)
  case (Reported f x env rid winner loser st)
  from report_txD(1) [OF Reported(6)] obtain payload where
    "emit_tx (me_transport env) (me_json env) (me_tx env) (me_event_id env) PgConnection finished_contract (Some payload) (ps_db (fw_plane f)) = Ok (plane st)"
    by auto
  from emit_steps [OF this] Reported(1,5) show ?case by simp
next
  case (Committed f x rows r)
  then show ?case by (auto intro: plane_step.commit_tx)
next
  case (Aborted x f)
  then show ?case by (auto intro: plane_step.abort_tx)
next
  case (Rated f ev x fault _ st now)
  then show ?case by (auto simp: delivered_def intro: plane_step.deliver)
next
  case (Scored f ev x sfault _ st now)
  then show ?case by (auto simp: delivered_def intro: plane_step.deliver)
qed auto

lemma flow_step_keys: "flow_step enc jin decode f f' \<Longrightarrow> keys_ok f \<Longrightarrow> keys_ok f'"
proof (induction rule: flow_step.induct)
  case (Reported f x env rid winner loser st)
  note k = report_txD(2-4) [OF Reported(6)]
  show ?case using Reported(7,8) k by (auto simp: keys_ok_def ran_def)
next
  case (Committed f x rows r)
  then have "mt_id r \<notin> mt_id ` set (fw_matches f)" "mt_report r \<notin> mt_report ` set (fw_matches f)" by (auto simp: keys_ok_def)
  with Committed show ?case unfolding keys_ok_def by (auto simp: image_iff)
next
  case (Aborted x f)
  then show ?case by (auto simp: keys_ok_def)
qed (simp_all add: keys_ok_def)

lemma flow_step_tallied: "flow_step enc jin decode f f' \<Longrightarrow> tallied decode f \<Longrightarrow> tallied decode f'"
proof (induction rule: flow_step.induct)
  case (Rated f ev x fault _ st now)
  then obtain e where "decode (ev_payload ev) = Some e" "rated_by (map (payload_of decode) (ps_done (fw_plane f) (en_id rating_entry)) @ [e]) (domain st)"
    using rate_finished_rates [OF Rated(3)] by (auto simp: tallied_def)
  then show ?case using Rated(4) by (simp add: tallied_def payload_of_def rating_entry_def board_entry_def)
next
  case (Scored f ev x sfault _ st now)
  then obtain e where "decode (ev_payload ev) = Some e" "scored_by (map (payload_of decode) (ps_done (fw_plane f) (en_id board_entry)) @ [e]) (domain st)"
    using score_finished_scores [OF Scored(3)] by (auto simp: tallied_def)
  then show ?case using Scored(4) by (simp add: tallied_def payload_of_def rating_entry_def board_entry_def)
qed (simp_all add: tallied_def)

lemma open_finished_close: "open_finished (end_tx x p) y = (if y = x then [] else open_finished p y)"
  by (simp add: open_finished_def)

lemma open_ok_carry:
  "open_ok decode f y \<Longrightarrow> fw_pending f' y = fw_pending f y \<Longrightarrow> open_finished (fw_plane f') y = open_finished (fw_plane f) y \<Longrightarrow> open_ok decode f' y"
  by (cases "fw_pending f y") (simp_all add: open_ok_def)

lemma open_ok_closed: "fw_pending f y = None \<Longrightarrow> ps_open (fw_plane f) y = None \<Longrightarrow> open_ok decode f y"
  by (simp add: open_ok_def open_finished_def)

lemma booked_commit:
  assumes b: "booked decode f" and k: "keys_ok f" and x: "ps_open (fw_plane f) x = Some rows" "fw_pending f x = Some r"
  shows "booked decode (f\<lparr>fw_plane := end_tx x (commit_rows rows (fw_plane f)), fw_matches := fw_matches f @ [r], fw_pending := (fw_pending f)(x := None)\<rparr>)"
proof -
  let ?F = "{e \<in> ps_all (fw_plane f). is_finished e}" and ?M = "finished_of ` set (fw_matches f)"
  have "open_ok decode f x" using b by (simp add: booked_def)
  then obtain e where e: "filter is_finished rows = [e]" "decode (ev_payload e) = Some (finished_of r)"
    using x by (auto simp: open_ok_def open_finished_def)
  have all: "{e' \<in> ps_all (fw_plane f) \<union> set rows. is_finished e'} = ?F \<union> {e}"
    using arg_cong [OF e(1), of set] by auto
  have new: "payload_of decode e = finished_of r" using e(2) by (simp add: payload_of_def)
  have "finished_of r \<notin> ?M" using k x(2) by (auto simp: keys_ok_def finished_of_def)
  moreover have bij: "bij_betw (payload_of decode) ?F ?M" using b by (simp add: booked_def)
  ultimately have "e \<notin> ?F" using bij_betwE [OF bij] by (auto simp: new)
  from notIn_Un_bij_betw [OF this _ bij] new \<open>finished_of r \<notin> ?M\<close> have "bij_betw (payload_of decode) (?F \<union> {e}) (?M \<union> {finished_of r})" by simp
  moreover have "?M \<union> {finished_of r} = finished_of ` set (fw_matches f @ [r])" by auto
  moreover have "decode (ev_payload e') \<noteq> None" if "e' \<in> ?F \<union> {e}" for e' using that b e(2) by (auto simp: booked_def)
  moreover have "open_ok decode (f\<lparr>fw_plane := end_tx x (commit_rows rows (fw_plane f)), fw_matches := fw_matches f @ [r], fw_pending := (fw_pending f)(x := None)\<rparr>) y" for y
  proof (cases "y = x")
    case False
    moreover have "open_ok decode f y" using b by (simp add: booked_def)
    ultimately show ?thesis by (auto intro: open_ok_carry [where f = f] simp: open_finished_def)
  qed (simp add: open_ok_closed)
  ultimately show ?thesis unfolding booked_def using all by auto
qed

lemma booked_frame:
  assumes "booked decode f" "{e \<in> ps_all (fw_plane f'). is_finished e} = {e \<in> ps_all (fw_plane f). is_finished e}"
    and "fw_matches f' = fw_matches f" "\<And>x. open_ok decode f x \<Longrightarrow> open_ok decode f' x"
  shows "booked decode f'"
proof -
  have "decode (ev_payload e) \<noteq> None" if "e \<in> ps_all (fw_plane f')" "is_finished e" for e
    using that assms(1,2) by (auto simp: booked_def)
  then show ?thesis using assms by (simp add: booked_def)
qed

lemma flow_step_booked:
  assumes "flow_step enc jin decode f f'" "booked decode f" "keys_ok f"
    and json: "\<And>e p q. enc e = Some p \<Longrightarrow> jin p = Some q \<Longrightarrow> decode q = Some e"
  shows "booked decode f'"
  using assms(1-3)
proof (induction rule: flow_step.induct)
  case (Elsewhere f p')
  show ?case by (rule booked_frame [OF Elsewhere(6)]) (use Elsewhere(2,3) in \<open>auto intro: open_ok_carry\<close>)
next
  case (Reported f x env rid winner loser st)
  obtain payload where p: "enc (finished_of (last (match_rows (domain st)))) = Some payload"
      "emit_tx (me_transport env) jin (me_tx env) (me_event_id env) PgConnection finished_contract (Some payload) (ps_db (fw_plane f)) = Ok (plane st)"
    using report_txD(1) [OF Reported(6)] Reported(3,4) by auto
  obtain ev where "events (plane st) = events (ps_db (fw_plane f)) @ [ev]" "is_finished ev" "jin payload = Some (ev_payload ev)"
    using emit_finished [OF p(2)] by auto
  then have o: "open_finished (appended x (plane st) (fw_plane f)) x = [ev]"
      "decode (ev_payload ev) = Some (finished_of (last (match_rows (domain st))))"
    using json [OF p(1)] by (simp_all add: open_finished_def)
  show ?case
  proof (rule booked_frame [OF Reported(8)])
    fix y assume "open_ok decode f y"
    then show "open_ok decode (f\<lparr>fw_plane := appended x (plane st) (fw_plane f), fw_pending := (fw_pending f)(x \<mapsto> last (match_rows (domain st)))\<rparr>) y"
    proof (cases "y = x")
      case True
      then show ?thesis using o by (simp add: open_ok_def)
    next
      case False
      then show ?thesis using \<open>open_ok decode f y\<close> by (auto intro: open_ok_carry simp: open_finished_def)
    qed
  qed simp_all
next
  case (Committed f x rows r)
  show ?case by (rule booked_commit [OF Committed(4,5,1,3)])
next
  case (Aborted x f)
  show ?case
  proof (rule booked_frame [OF Aborted(2)])
    fix y assume "open_ok decode f y"
    then show "open_ok decode (f\<lparr>fw_plane := end_tx x (fw_plane f), fw_pending := (fw_pending f)(x := None)\<rparr>) y"
      by (cases "y = x") (auto intro: open_ok_closed open_ok_carry [where f = f] simp: open_finished_def)
  qed simp_all
next
  case (Rated f ev x fault _ st now)
  have "open_finished (delivered now (en_id rating_entry) ev x (fw_plane f)) = open_finished (fw_plane f)"
    using Rated(2) by (auto simp: open_finished_def fun_eq_iff)
  then show ?case by - (rule booked_frame [OF Rated(4)], auto intro: open_ok_carry)
next
  case (Scored f ev x sfault _ st now)
  have "open_finished (delivered now (en_id board_entry) ev x (fw_plane f)) = open_finished (fw_plane f)"
    using Scored(2) by (auto simp: open_finished_def fun_eq_iff)
  then show ?case by - (rule booked_frame [OF Scored(4)], auto intro: open_ok_carry)
qed

lemma flow_step_inv:
  assumes "flow_step enc jin decode f f'" "flow_inv decode f" "\<And>e p q. enc e = Some p \<Longrightarrow> jin p = Some q \<Longrightarrow> decode q = Some e"
  shows "flow_inv decode f'"
  using assms flow_step_booked [OF assms(1) _ _ assms(3)] flow_step_keys [OF assms(1)] flow_step_tallied [OF assms(1)]
    plane_sys.run_inv [OF flow_step_plane [OF assms(1)]]
  by (simp add: flow_inv_def)

lemma flow_start_inv: "flow_start f \<Longrightarrow> flow_inv decode f"
  by (simp add: flow_start_def flow_inv_def plane_init_inv booked_def keys_ok_def tallied_def rated_by_def scored_by_def rating_of_def wins_of_def
      bij_betw_def open_ok_def open_finished_def plane_init_def)

end
