(* ===== verification/Match_Standings.thy ===== *)
theory Match_Standings
  imports Match_Flow
begin

text \<open>
  What the flow of match results guarantees: the standings are those of the matches, and a report takes effect at most
  once however often it is retried.
\<close>

section \<open>Standings\<close>

definition follows :: "sub_entry \<Rightarrow> flow \<Rightarrow> subscription_row \<Rightarrow> bool" where
  "follows entry f row \<longleftrightarrow> find_sub (en_id entry) (ps_db (fw_plane f)) = Some row \<and> sub_topic row = ''match.finished'' \<and> sub_version row = 1
     \<and> en_id entry \<notin> ps_retired (fw_plane f)"

text \<open>The matches whose event a subscription has stepped past.\<close>

definition counted :: "(string \<Rightarrow> finished option) \<Rightarrow> sub_entry \<Rightarrow> flow \<Rightarrow> match_row set" where
  "counted decode entry f =
     {r \<in> set (fw_matches f). \<exists>e \<in> set (ps_done (fw_plane f) (en_id entry)). decode (ev_payload e) = Some (finished_of r)}"

text \<open>A subscription that saw every event of the log so far and has none ahead of it.\<close>

definition up_to_date :: "sub_entry \<Rightarrow> flow \<Rightarrow> subscription_row \<Rightarrow> bool" where
  "up_to_date entry f row \<longleftrightarrow> (\<forall>e \<in> ps_all (fw_plane f). is_finished e \<longrightarrow>
     e \<in> ps_log (fw_plane f) (en_id entry) \<and> ps_start (fw_plane f) (en_id entry) < ev_pos e \<and> ev_pos e \<le> sub_cursor row)"

lemma follows_done:
  assumes "flow_inv decode f" "follows entry f row"
  shows "set (ps_done (fw_plane f) (en_id entry)) = {e \<in> ps_log (fw_plane f) (en_id entry). is_finished e
      \<and> ps_start (fw_plane f) (en_id entry) < ev_pos e \<and> ev_pos e \<le> sub_cursor row}"
    and "distinct (ps_done (fw_plane f) (en_id entry))"
    and "set (ps_done (fw_plane f) (en_id entry)) \<subseteq> {e \<in> ps_all (fw_plane f). is_finished e}"
proof -
  have inv: "plane_inv (fw_plane f)" using assms(1) by (simp add: flow_inv_def)
  have r: "row \<in> set (subs (ps_db (fw_plane f)))" "sub_id row = en_id entry" using assms(2) find_subD by (auto simp: follows_def)
  have ok: "checkpoint_ok (fw_plane f) row" "log_ok (fw_plane f)" using plane_invD [OF inv r(1)] assms(2) r(2) by (auto simp: follows_def)
  show s: "set (ps_done (fw_plane f) (en_id entry)) = {e \<in> ps_log (fw_plane f) (en_id entry). is_finished e
      \<and> ps_start (fw_plane f) (en_id entry) < ev_pos e \<and> ev_pos e \<le> sub_cursor row}"
    using ok(1) r(2) assms(2) by (auto simp: checkpoint_ok_def matches_def is_finished_def follows_def)
  have "sorted_wrt (<) (map ev_pos (ps_done (fw_plane f) (en_id entry)))" using ok(1) r(2) by (simp add: checkpoint_ok_def)
  then show "distinct (ps_done (fw_plane f) (en_id entry))" by (meson distinct_map strict_sorted_iff)
  show "set (ps_done (fw_plane f) (en_id entry)) \<subseteq> {e \<in> ps_all (fw_plane f). is_finished e}"
    using s ok(2) by (auto simp: log_ok_def)
qed

text \<open>Counting deliveries is counting matches.\<close>

lemma counted_card:
  assumes inv: "flow_inv decode f" and fo: "follows entry f row" and P: "\<And>r. P (finished_of r) = Q r"
  shows "length (filter P (map (payload_of decode) (ps_done (fw_plane f) (en_id entry)))) = card {r \<in> counted decode entry f. Q r}"
proof -
  let ?D = "ps_done (fw_plane f) (en_id entry)" and ?F = "{e \<in> ps_all (fw_plane f). is_finished e}"
  have b: "bij_betw (payload_of decode) ?F (finished_of ` set (fw_matches f))" "\<And>e. e \<in> ?F \<Longrightarrow> decode (ev_payload e) = Some (payload_of decode e)"
    using inv by (auto simp: flow_inv_def booked_def payload_of_def)
  have sub: "set ?D \<subseteq> ?F" using follows_done(3) [OF inv fo] .
  have "inj_on (payload_of decode) (set ?D)" using b(1) sub by (meson bij_betw_def inj_on_subset)
  then have d: "distinct (map (payload_of decode) ?D)" using follows_done(2) [OF inv fo] by (simp add: distinct_map)
  have "inj_on mt_id (set (fw_matches f))" using inv by (simp add: flow_inv_def keys_ok_def distinct_map)
  then have inj: "inj_on finished_of (set (fw_matches f))" by (auto simp: inj_on_def finished_of_def)
  have img: "payload_of decode ` set ?D = finished_of ` counted decode entry f"
  proof (intro equalityI subsetI)
    fix p assume "p \<in> payload_of decode ` set ?D"
    then obtain e where e: "e \<in> set ?D" "p = payload_of decode e" by blast
    then have "p \<in> finished_of ` set (fw_matches f)" using bij_betwE [OF b(1)] sub by blast
    then obtain r where r: "r \<in> set (fw_matches f)" "p = finished_of r" by blast
    have "decode (ev_payload e) = Some (finished_of r)" using b(2) [of e] e r(2) sub by auto
    then show "p \<in> finished_of ` counted decode entry f" using e(1) r by (auto simp: counted_def)
  next
    fix p assume "p \<in> finished_of ` counted decode entry f"
    then obtain r e where "p = finished_of r" "e \<in> set ?D" "decode (ev_payload e) = Some (finished_of r)" by (auto simp: counted_def)
    then show "p \<in> payload_of decode ` set ?D" by (intro image_eqI [of _ _ e]) (simp_all add: payload_of_def)
  qed
  have "length (filter P (map (payload_of decode) ?D)) = card (set (filter P (map (payload_of decode) ?D)))"
    using d by (metis distinct_card distinct_filter)
  also have "set (filter P (map (payload_of decode) ?D)) = finished_of ` {r \<in> counted decode entry f. Q r}"
    using img P by (auto simp: set_eq_iff image_iff)
  also have "card \<dots> = card {r \<in> counted decode entry f. Q r}"
    by (rule card_image, rule inj_on_subset [OF inj]) (auto simp: counted_def)
  finally show ?thesis .
qed

lemma up_to_date_counts:
  assumes inv: "flow_inv decode f" and fo: "follows entry f row" and "up_to_date entry f row"
  shows "counted decode entry f = set (fw_matches f)"
proof -
  let ?F = "{e \<in> ps_all (fw_plane f). is_finished e}"
  have b: "bij_betw (payload_of decode) ?F (finished_of ` set (fw_matches f))" "\<And>e. e \<in> ?F \<Longrightarrow> decode (ev_payload e) = Some (payload_of decode e)"
    using inv by (auto simp: flow_inv_def booked_def payload_of_def)
  have "?F \<subseteq> set (ps_done (fw_plane f) (en_id entry))"
    unfolding follows_done(1) [OF inv fo] using assms(3) by (auto simp: up_to_date_def)
  moreover have "\<exists>e \<in> ?F. decode (ev_payload e) = Some (finished_of r)" if "r \<in> set (fw_matches f)" for r
  proof -
    have "finished_of r \<in> payload_of decode ` ?F" using that b(1) by (simp add: bij_betw_def)
    then obtain e where "e \<in> ?F" "finished_of r = payload_of decode e" by blast
    then show ?thesis using b(2) by auto
  qed
  ultimately show ?thesis unfolding counted_def by blast
qed

lemma flow_reachable_inv:
  assumes "flow_start f0" "(flow_step enc jin decode)\<^sup>*\<^sup>* f0 f" "\<And>e p q. enc e = Some p \<Longrightarrow> jin p = Some q \<Longrightarrow> decode q = Some e"
  shows "flow_inv decode f"
  using assms(2)
proof (induction rule: rtranclp_induct)
  case base
  then show ?case using assms(1) by (rule flow_start_inv)
next
  case (step g h)
  then show ?case using flow_step_inv assms(3) by blast
qed


section \<open>One match, followed through\<close>

definition demo_result :: finished where
  "demo_result = \<lparr>fi_match = ''m'', fi_winner = ''ann'', fi_loser = ''bob''\<rparr>"

definition demo_enc :: "finished \<Rightarrow> string option" where
  "demo_enc e = (if e = demo_result then Some ''{}'' else None)"

definition demo_dec :: "string \<Rightarrow> finished option" where
  "demo_dec s = (if s = ''{}'' then Some demo_result else None)"

definition demo_match_env :: match_env where
  "demo_match_env = \<lparr>me_tx = demo_tx, me_match_id = ''m'', me_event_id = ''e'', me_text = (\<lambda>_. []), me_bus_text = (\<lambda>_. []),
     me_transport = True, me_encode = demo_enc, me_json = Some, me_fault = (\<lambda>_. False), me_commit_applied = False,
     me_mmr = (\<lambda>_. Ok 1000), me_interim = (\<lambda>st. st)\<rparr>"

definition demo_match :: match_row where
  "demo_match = \<lparr>mt_id = ''m'', mt_report = ''r'', mt_winner = ''ann'', mt_loser = ''bob'', mt_at = 0\<rparr>"

definition demo_event :: event_row where
  "demo_event = \<lparr>ev_gen = 1, ev_xid = 5, ev_tie = 1, ev_id = ''e'', ev_topic = ''match.finished'', ev_version = 1, ev_payload = ''{}'', ev_created = 0\<rparr>"

definition demo_seat :: "sub_entry \<Rightarrow> subscription_row" where
  "demo_seat entry = \<lparr>sub_id = en_id entry, sub_topic = ''match.finished'', sub_version = 1, sub_status = Active, sub_cursor = Position 0 0 0,
     sub_next_attempt = None, sub_failures = 0, sub_error = None, sub_hash = spec_hash entry, sub_start_kind = ''genesis'', sub_updated = 0\<rparr>"

definition demo_history :: history_row where
  "demo_history = \<lparr>hc_topic = ''match.finished'', hc_version = 1, hc_policy = ''min_retention'', hc_days = 7\<rparr>"

definition demo_seated :: "sub_entry list \<Rightarrow> plane_state" where
  "demo_seated entries = demo_init\<lparr>ps_db := (ps_db demo_init)\<lparr>subs := map demo_seat entries, histories := [demo_history]\<rparr>\<rparr>"

definition demo_flow :: "plane_state \<Rightarrow> match_row list \<Rightarrow> (nat \<rightharpoonup> match_row) \<Rightarrow> rating_row list \<Rightarrow> flow" where
  "demo_flow p ms pend rs = \<lparr>fw_plane = p, fw_matches = ms, fw_pending = pend, fw_ratings = rs, fw_scores = []\<rparr>"

abbreviation demo_flow_step :: "flow \<Rightarrow> flow \<Rightarrow> bool" where
  "demo_flow_step \<equiv> flow_step demo_enc Some demo_dec"

lemmas seat_simps = demo_seated_def demo_init_def registered_def reconcile_one_def insert_subscription_def i32_try_from_def i32_max_def
  initial_cursor_def start_kind_def find_sub_def Let_def demo_seat_def demo_history_def demo_tx_def ensure_history_contract_def policy_columns_def
  history_drifted_def

lemma demo_first_seat: "registered rating_entry (snd (reconcile_one demo_tx rating_entry (ps_db demo_init))) demo_init = demo_seated [rating_entry]"
  by (rule plane_state.equality) (simp_all add: seat_simps rating_entry_def fun_eq_iff)

lemma demo_second_seat:
  "registered board_entry (snd (reconcile_one demo_tx board_entry (ps_db (demo_seated [rating_entry])))) (demo_seated [rating_entry])
    = demo_seated [rating_entry, board_entry]"
  by (rule plane_state.equality) (simp_all add: seat_simps rating_entry_def board_entry_def fun_eq_iff)

definition demo_plane :: "plane_db \<Rightarrow> plane_db" where
  "demo_plane db = db\<lparr>events := [demo_event], next_tie := 2, notifications := [''match.finished'']\<rparr>"

definition demo_open :: plane_state where
  "demo_open = (demo_seated [rating_entry, board_entry])\<lparr>ps_open := [5 \<mapsto> []], ps_next_xid := 6\<rparr>"

definition demo_told :: plane_state where
  "demo_told = demo_open\<lparr>ps_open := [5 \<mapsto> [demo_event]], ps_db := (ps_db demo_open)\<lparr>next_tie := 2\<rparr>\<rparr>"

definition demo_logged :: plane_state where
  "demo_logged = (end_tx 5 (commit_rows [demo_event] demo_told))\<lparr>ps_open := [6 \<mapsto> []], ps_next_xid := 7\<rparr>"

definition demo_held :: plane_state where
  "demo_held = demo_logged\<lparr>ps_claims := [en_id rating_entry \<mapsto> (demo_event, 6)]\<rparr>"

definition demo_end :: flow where
  "demo_end = demo_flow (delivered 3 (en_id rating_entry) demo_event 6 demo_held) [demo_match] Map.empty
     [\<lparr>rr_player = ''ann'', rr_mmr = 1015\<rparr>, \<lparr>rr_player = ''bob'', rr_mmr = 985\<rparr>]"

lemma demo_report:
  "report_tx demo_match_env ''r'' ''ann'' ''bob'' \<lparr>plane = ps_db demo_open, domain = \<lparr>match_rows = []\<rparr>\<rparr>
    = Ok (True, \<lparr>plane = demo_plane (ps_db demo_open), domain = \<lparr>match_rows = [demo_match]\<rparr>\<rparr>)"
  by (simp add: report_tx_def match_insert_tx_def demo_match_env_def nul_free_def emit_tx_def enqueue_tx_def append_def append_event_def
      finished_contract_def ensure_history_contract_def policy_columns_def history_drifted_def demo_enc_def demo_result_def demo_open_def demo_seated_def
      demo_init_def demo_history_def Let_def i32_try_from_def i32_max_def from_utf8_def demo_plane_def demo_event_def demo_tx_def demo_match_def)

lemma demo_rated:
  "rate_finished (\<lambda>_. False) demo_dec (\<lambda>_. []) ''e'' ''{}'' \<lparr>plane = db, domain = []\<rparr>
    = Handled \<lparr>plane = db, domain = [\<lparr>rr_player = ''ann'', rr_mmr = 1015\<rparr>, \<lparr>rr_player = ''bob'', rr_mmr = 985\<rparr>]\<rparr>"
  by (simp add: rate_finished_def demo_dec_def demo_result_def apply_result_def upsert_delta_def nul_free_def default_mmr_def win_delta_def loss_delta_def)

lemmas demo_planes = demo_held_def demo_logged_def demo_told_def demo_open_def demo_seated_def demo_init_def

lemma elsewhere_step:
  assumes "plane_step p p'" "ps_all p' = ps_all p" "open_finished p' = open_finished p" "ps_done p' = ps_done p"
  shows "demo_flow_step (demo_flow p ms pend rs) (demo_flow p' ms pend rs)"
  using flow_step.Elsewhere [of "demo_flow p ms pend rs" p' demo_enc Some demo_dec] assms by (simp add: demo_flow_def)

lemma demo_boot: "demo_flow_step\<^sup>*\<^sup>* (demo_flow demo_init [] Map.empty []) (demo_flow demo_open [] Map.empty [])"
proof -
  have "plane_step demo_init (demo_seated [rating_entry])"
    unfolding demo_first_seat [symmetric] by (rule plane_step.register) (rule prod.collapse [symmetric])
  then have 1: "demo_flow_step (demo_flow demo_init [] Map.empty []) (demo_flow (demo_seated [rating_entry]) [] Map.empty [])"
    by (rule elsewhere_step) (simp_all add: demo_seated_def demo_init_def open_finished_def fun_eq_iff)
  have "plane_step (demo_seated [rating_entry]) (demo_seated [rating_entry, board_entry])"
    unfolding demo_second_seat [symmetric] by (rule plane_step.register) (rule prod.collapse [symmetric])
  then have 2: "demo_flow_step (demo_flow (demo_seated [rating_entry]) [] Map.empty []) (demo_flow (demo_seated [rating_entry, board_entry]) [] Map.empty [])"
    by (rule elsewhere_step) (simp_all add: demo_seated_def demo_init_def open_finished_def fun_eq_iff)
  have "plane_step (demo_seated [rating_entry, board_entry]) demo_open"
    using plane_step.begin_tx [of "demo_seated [rating_entry, board_entry]"] by (simp add: demo_open_def demo_seated_def demo_init_def)
  then have 3: "demo_flow_step (demo_flow (demo_seated [rating_entry, board_entry]) [] Map.empty []) (demo_flow demo_open [] Map.empty [])"
    by (rule elsewhere_step) (simp_all add: demo_open_def demo_seated_def demo_init_def open_finished_def fun_eq_iff)
  from 1 2 3 show ?thesis by (simp add: converse_rtranclp_into_rtranclp)
qed

lemma demo_commit: "demo_flow_step\<^sup>*\<^sup>* (demo_flow demo_open [] Map.empty []) (demo_flow demo_logged [demo_match] Map.empty [])"
proof -
  have a: "appended 5 (demo_plane (ps_db demo_open)) demo_open = demo_told"
    by (rule plane_state.equality) (simp_all add: appended_def demo_told_def demo_plane_def demo_open_def demo_seated_def demo_init_def)
  have 1: "demo_flow_step (demo_flow demo_open [] Map.empty []) (demo_flow demo_told [] [5 \<mapsto> demo_match] [])"
    using flow_step.Reported [of "demo_flow demo_open [] Map.empty []" 5 demo_match_env demo_enc Some "''r''" "''ann''" "''bob''"
        "\<lparr>plane = demo_plane (ps_db demo_open), domain = \<lparr>match_rows = [demo_match]\<rparr>\<rparr>" demo_dec] demo_report a
    by (simp add: demo_flow_def) (simp add: demo_match_env_def demo_tx_def demo_open_def)
  let ?c = "end_tx 5 (commit_rows [demo_event] demo_told)"
  have 2: "demo_flow_step (demo_flow demo_told [] [5 \<mapsto> demo_match] []) (demo_flow ?c [demo_match] Map.empty [])"
    using flow_step.Committed [of "demo_flow demo_told [] [5 \<mapsto> demo_match] []" 5 "[demo_event]" demo_match demo_enc Some demo_dec]
    by (simp add: demo_flow_def) (simp add: demo_told_def demo_open_def demo_seated_def demo_init_def idle_def)
  have "plane_step ?c demo_logged"
    using plane_step.begin_tx [of ?c] by (simp add: demo_logged_def demo_told_def demo_open_def demo_seated_def demo_init_def end_tx_def commit_rows_def)
  then have "demo_flow_step (demo_flow ?c [demo_match] Map.empty []) (demo_flow demo_logged [demo_match] Map.empty [])"
    by (rule elsewhere_step) (simp_all add: demo_planes end_tx_def commit_rows_def open_finished_def fun_eq_iff)
  with 1 2 show ?thesis by (simp add: converse_rtranclp_into_rtranclp)
qed

lemma demo_deliver: "demo_flow_step\<^sup>*\<^sup>* (demo_flow demo_logged [demo_match] Map.empty []) demo_end"
proof -
  have "plane_step demo_logged (demo_logged\<lparr>ps_claims := (ps_claims demo_logged)(en_id rating_entry \<mapsto> (demo_event, 6))\<rparr>)"
  proof (rule plane_step.claim [where now = 1 and row = "demo_seat rating_entry" and m = 6])
    show "claim_due 1 False (en_id rating_entry) (ps_db demo_logged) = Some (demo_seat rating_entry)"
      by (simp add: claim_due_def demo_planes end_tx_def commit_rows_def demo_seat_def rating_entry_def)
    show "next_event 6 (en_topic rating_entry) (worker_version rating_entry) (sub_cursor (demo_seat rating_entry)) (ps_db demo_logged) = Some demo_event"
      by (simp add: next_event_def sql_first_def eligible_def rating_entry_def demo_event_def worker_version_def i32_try_from_def i32_max_def ev_pos_def
          demo_planes end_tx_def commit_rows_def demo_seat_def)
  qed (simp_all add: frontier_def idle_def end_tx_def commit_rows_def demo_planes demo_seat_def)
  then have "plane_step demo_logged demo_held" by (simp add: demo_held_def demo_planes end_tx_def commit_rows_def)
  then have "demo_flow_step (demo_flow demo_logged [demo_match] Map.empty []) (demo_flow demo_held [demo_match] Map.empty [])"
    by (rule elsewhere_step) (simp_all add: demo_held_def open_finished_def fun_eq_iff)
  moreover have "demo_flow_step (demo_flow demo_held [demo_match] Map.empty []) demo_end"
    using flow_step.Rated [of "demo_flow demo_held [demo_match] Map.empty []" demo_event 6 "\<lambda>_. False" demo_dec "\<lambda>_. []" _ demo_enc Some 3] demo_rated
    by (simp add: demo_flow_def demo_end_def) (simp add: demo_held_def demo_logged_def demo_event_def)
  ultimately show ?thesis by (simp add: converse_rtranclp_into_rtranclp)
qed

lemma demo_end_facts:
  "follows rating_entry demo_end ((demo_seat rating_entry)\<lparr>sub_cursor := ev_pos demo_event, sub_updated := 3\<rparr>)"
  "follows board_entry demo_end (demo_seat board_entry)"
  "up_to_date rating_entry demo_end ((demo_seat rating_entry)\<lparr>sub_cursor := ev_pos demo_event, sub_updated := 3\<rparr>)"
  "fw_matches demo_end = [demo_match]"
  by (simp_all add: follows_def up_to_date_def demo_end_def demo_flow_def delivered_def stepped_def release_def demo_planes end_tx_def commit_rows_def
      advance_cursor_def find_sub_def demo_seat_def rating_entry_def board_entry_def ev_pos_def demo_event_def)


section \<open>Retried reports\<close>

definition reported :: "string \<Rightarrow> string \<Rightarrow> string \<Rightarrow> match_db \<Rightarrow> bool" where
  "reported rid winner loser db \<longleftrightarrow> (\<exists>r. sql_find (\<lambda>r. mt_report r = rid) (match_rows db) = Some r \<and> mt_winner r = winner \<and> mt_loser r = loser)"

text \<open>The committed state grew by one match and its event.\<close>

definition match_added :: "match_env \<Rightarrow> string \<Rightarrow> string \<Rightarrow> string \<Rightarrow> match_db store \<Rightarrow> match_db store \<Rightarrow> bool" where
  "match_added env rid winner loser base st \<longleftrightarrow>
     sql_find (\<lambda>r. mt_report r = rid) (match_rows (domain base)) = None
     \<and> match_rows (domain st) = match_rows (domain base) @
         [\<lparr>mt_id = me_match_id env, mt_report = rid, mt_winner = winner, mt_loser = loser, mt_at = xact_now (me_tx env)\<rparr>]
     \<and> (\<exists>ev p. me_encode env \<lparr>fi_match = me_match_id env, fi_winner = winner, fi_loser = loser\<rparr> = Some p \<and> me_json env p = Some (ev_payload ev)
          \<and> is_finished ev \<and> ev_xid ev = xact_id (me_tx env) \<and> events (plane st) = events (plane base) @ [ev])"

lemma report_tx_adds:
  assumes "report_tx env rid winner loser base = Ok (True, st)"
  shows "match_added env rid winner loser base st"
proof -
  obtain payload db where m: "match_insert_tx env rid winner loser (domain base) = Ok (Some (me_match_id env), db)" "domain st = db"
      "me_encode env \<lparr>fi_match = me_match_id env, fi_winner = winner, fi_loser = loser\<rparr> = Some payload"
      "emit_tx (me_transport env) (me_json env) (me_tx env) (me_event_id env) PgConnection finished_contract (Some payload) (plane base) = Ok (plane st)"
    using assms by (auto simp: report_tx_def match_insert_tx_def emit_tx_def split: sum.splits option.splits if_splits)
  have "sql_find (\<lambda>r. mt_report r = rid) (match_rows (domain base)) = None \<and> match_rows db = match_rows (domain base) @
      [\<lparr>mt_id = me_match_id env, mt_report = rid, mt_winner = winner, mt_loser = loser, mt_at = xact_now (me_tx env)\<rparr>]"
    using m(1) by (auto simp: match_insert_tx_def split: if_splits)
  then show ?thesis using m(2,3) emit_finished [OF m(4)] by (auto simp: match_added_def)
qed

lemma report_effect:
  assumes "report env rid winner loser st = (res, st')"
  shows "st' = st \<or> st' = me_interim env st \<or> match_added env rid winner loser (me_interim env st) st'"
    and "res = Ok () \<Longrightarrow> reported rid winner loser (domain st')"
proof -
  show "st' = st \<or> st' = me_interim env st \<or> match_added env rid winner loser (me_interim env st) st'"
    using assms by (auto simp: report_def Let_def dest: report_tx_adds split: sum.splits option.splits if_splits prod.splits bool.splits)
  assume ok: "res = Ok ()"
  have ex: "reported rid winner loser db" if "existing_report env stmt rid db = Ok (Some x)" "duplicate_result x winner loser = Ok ()" for stmt x db
    using that by (auto simp: existing_report_def duplicate_result_def reported_def split: if_splits)
  have "reported rid winner loser (domain s)" if "match_added env rid winner loser b s" for b s
    using that by (auto simp: match_added_def reported_def sql_find_append)
  then show "reported rid winner loser (domain st')"
    using assms ok by (auto simp: report_def Let_def dest: ex report_tx_adds split: sum.splits option.splits if_splits prod.splits bool.splits)
qed

text \<open>
  C14. A report takes effect at most once. Whatever faults a report meets and whatever other sessions commit meanwhile, it
  leaves the state as they left it, or adds exactly one match, under a report id that was free, together with its
  one event in the same transaction; if it answers success, its match is recorded under its id. From then on every report
  under that id changes nothing: the same result is answered with success, without asking for ratings, also when it would not
  pass today's validation, and another result with a conflict.
\<close>
theorem report_at_most_once:
  assumes "report env rid winner loser st = (res, st')"
  shows "(st' = st \<or> st' = me_interim env st \<or> match_added env rid winner loser (me_interim env st) st')
    \<and> (res = Ok () \<longrightarrow> reported rid winner loser (domain st'))
    \<and> (reported rid w l (domain st2) \<and> validate_report_id rid = Ok () \<and> nul_free rid \<and> \<not> me_fault env2 M_existing \<longrightarrow>
         report env2 rid w' l' st2 = (if w' = w \<and> l' = l then Ok () else Err (op_err Conflict ''ReportId already used for a different match''), st2))"
  using report_effect [OF assms] by (auto simp: reported_def report_def existing_report_def duplicate_result_def)

definition demo_store :: "match_db store" where
  "demo_store = \<lparr>plane = ps_db demo_open, domain = \<lparr>match_rows = []\<rparr>\<rparr>"

theorem report_at_most_once_witness:
  "\<exists>st. report demo_match_env ''r'' ''ann'' ''bob'' demo_store = (Ok (), st) \<and> match_added demo_match_env ''r'' ''ann'' ''bob'' demo_store st
     \<and> report demo_match_env ''r'' ''ann'' ''bob'' st = (Ok (), st)
     \<and> report demo_match_env ''r'' ''bob'' ''ann'' st = (Err (op_err Conflict ''ReportId already used for a different match''), st)"
proof -
  let ?st = "\<lparr>plane = demo_plane (ps_db demo_open), domain = \<lparr>match_rows = [demo_match]\<rparr>\<rparr>"
  have "trim ''r'' = ''r''" by (rule trim_id) simp_all
  then have v: "validate_report_id ''r'' = Ok ()" "nul_free ''r''" "\<not> me_fault demo_match_env M_existing" "me_interim demo_match_env = (\<lambda>s. s)"
    by (simp_all add: validate_report_id_def max_report_id_bytes_def nul_free_def demo_match_env_def)
  have r: "report demo_match_env ''r'' ''ann'' ''bob'' demo_store = (Ok (), ?st)"
    using demo_report v by (simp add: report_def existing_report_def demo_store_def validate_new_participants_def validate_participant_def
        max_participant_bytes_def read_mmr_def demo_match_env_def)
  have n: "?st \<noteq> demo_store" by (simp add: demo_store_def)
  note t = report_at_most_once [OF r, where w = "''ann''" and l = "''bob''" and ?st2.0 = ?st and ?env2.0 = demo_match_env]
  have "reported ''r'' ''ann'' ''bob'' (domain ?st)" using t by blast
  then have "report demo_match_env ''r'' ''ann'' ''bob'' ?st = (Ok (), ?st)"
      "report demo_match_env ''r'' ''bob'' ''ann'' ?st = (Err (op_err Conflict ''ReportId already used for a different match''), ?st)"
    using t [where w' = "''ann''" and l' = "''bob''"] t [where w' = "''bob''" and l' = "''ann''"] v by simp_all
  moreover have "match_added demo_match_env ''r'' ''ann'' ''bob'' demo_store ?st" using t n v(4) by auto
  ultimately show ?thesis using r by blast
qed

end
