(* ===== verification/Gateway_Routes.thy ===== *)
theory Gateway_Routes
  imports Opsapi
begin

text \<open>
  The gateway's routing (\<open>core/opsapi/src/lib.rs\<close>, \<open>modules/gateway/src/lib.rs\<close>): path patterns and
  the overlap predicate, the route table built from the contributed operations, matching a
  request, and the table rebuilt from the peers' \<open>__describe\<close> manifests.

  An in-process invoker and a peer's connection pool act on the world \<open>'w\<close> behind the front
  door; a \<open>HashMap\<close> is a partial map where only lookups matter and an association list, in
  its iteration order, where the code iterates over it.
\<close>

section \<open>Patterns\<close>

datatype seg = Lit string | Wild string

lemma strip_suffix_shorter: "strip_suffix u s = Some t \<Longrightarrow> u \<noteq> [] \<Longrightarrow> length t < length s"
  by (cases u) (auto simp: strip_suffix_def split: if_splits)

function trim_end_matches :: "string \<Rightarrow> string \<Rightarrow> string" where
  "trim_end_matches pat s =
     (if pat = [] then s else case strip_suffix pat s of None \<Rightarrow> s | Some t \<Rightarrow> trim_end_matches pat t)"
  by pat_completeness auto
termination
  by (relation "measure (\<lambda>(pat, s). length s)") (auto dest: strip_suffix_shorter)

declare trim_end_matches.simps [simp del]

definition parse_seg :: "string \<Rightarrow> seg" where
  "parse_seg s = (case Option.bind (strip_prefix ''{'' s) (strip_suffix ''}'') of
     Some name \<Rightarrow> Wild (trim_end_matches ''...'' name)
   | None \<Rightarrow> Lit s)"

definition path_segments :: "string \<Rightarrow> string list" where
  "path_segments path = filter (\<lambda>s. s \<noteq> []) (split_on (CHR ''/'') path)"

definition parse_pattern :: "string \<Rightarrow> seg list" where
  "parse_pattern path = map parse_seg (filter (\<lambda>s. s \<noteq> []) (split_on (CHR ''/'') path))"

definition segs_overlap :: "seg \<Rightarrow> seg \<Rightarrow> bool" where
  "segs_overlap x y = (case (x, y) of (Lit l, Lit r) \<Rightarrow> l = r | _ \<Rightarrow> True)"

definition pattern_overlaps :: "seg list \<Rightarrow> seg list \<Rightarrow> bool" where
  "pattern_overlaps a b = (length a = length b \<and> list_all (\<lambda>(x, y). segs_overlap x y) (zip a b))"

type_synonym path_args = "string \<rightharpoonup> string"

fun match_segs :: "(seg \<times> string) list \<Rightarrow> path_args \<Rightarrow> path_args option" where
  "match_segs [] args = Some args"
| "match_segs ((Lit l, part) # rest) args = (if l \<noteq> part then None else match_segs rest args)"
| "match_segs ((Wild name, part) # rest) args = match_segs rest (args(name \<mapsto> part))"

definition match_pattern :: "seg list \<Rightarrow> string list \<Rightarrow> path_args option" where
  "match_pattern pat parts =
     (if length pat \<noteq> length parts then None else match_segs (zip pat parts) Map.empty)"

section \<open>Operations and their bindings\<close>

datatype auth_req = Auth_none | Auth_player
datatype retry_mode = Never | Once_after_reconnect

record operation =
  op_method :: string
  op_verb :: string
  op_path :: string
  op_auth :: auth_req
  op_success :: nat
  op_retry :: retry_mode

record op_binding =
  ob_method :: string
  ob_decode :: "string option \<Rightarrow> path_args \<Rightarrow> (op_error, string) result"
  ob_encode :: "string \<Rightarrow> (op_error, string option \<times> status) result"

type_synonym 'w invoker = "identity \<Rightarrow> string \<Rightarrow> 'w \<Rightarrow> (op_error, string) result \<times> 'w"

record 'w local_op =
  lo_method :: string
  lo_invoke :: "'w invoker"

record peer_addr =
  pr_provider :: string
  pr_addrs :: "string list"

text \<open>A dispatch pool: which one it is, and the addresses it round-robins over.\<close>

record pool =
  pl_id :: nat
  pl_addrs :: "string list"

record route =
  rt_op :: operation
  rt_binding :: op_binding
  rt_pattern :: "seg list"

record 'w route_table =
  tb_routes :: "route list"
  tb_invokers :: "string \<rightharpoonup> 'w invoker"
  tb_peers :: "string \<rightharpoonup> string list"
  tb_remotes :: "string \<rightharpoonup> pool"
  tb_pools :: "string \<rightharpoonup> pool"

datatype route_error =
    Duplicate_binding string | Duplicate_local string | Duplicate_peer string
  | Duplicate_operation string | Routes_overlap string string | Foreign_method string string

section \<open>Building the table\<close>

fun collect_bindings :: "op_binding list \<Rightarrow> (string \<rightharpoonup> op_binding) \<Rightarrow> (route_error, string \<rightharpoonup> op_binding) result" where
  "collect_bindings [] m = Ok m"
| "collect_bindings (b # bs) m =
     (if m (ob_method b) \<noteq> None then Err (Duplicate_binding (ob_method b))
      else collect_bindings bs (m(ob_method b \<mapsto> b)))"

fun collect_locals :: "'w local_op list \<Rightarrow> (string \<rightharpoonup> 'w invoker) \<Rightarrow> (route_error, string \<rightharpoonup> 'w invoker) result" where
  "collect_locals [] m = Ok m"
| "collect_locals (l # ls) m =
     (if m (lo_method l) \<noteq> None then Err (Duplicate_local (lo_method l))
      else collect_locals ls (m(lo_method l \<mapsto> lo_invoke l)))"

fun collect_peers :: "peer_addr list \<Rightarrow> (string \<rightharpoonup> string list) \<Rightarrow> (route_error, string \<rightharpoonup> string list) result" where
  "collect_peers [] m = Ok m"
| "collect_peers (p # ps) m =
     (if m (pr_provider p) \<noteq> None then Err (Duplicate_peer (pr_provider p))
      else collect_peers ps (m(pr_provider p \<mapsto> pr_addrs p)))"

fun collect_routes ::
  "(string \<rightharpoonup> op_binding) \<Rightarrow> operation list \<Rightarrow> route list \<Rightarrow> (route_error, route list) result" where
  "collect_routes bm [] routes = Ok routes"
| "collect_routes bm (op # ops) routes =
     (if \<exists>r \<in> set routes. op_method (rt_op r) = op_method op then Err (Duplicate_operation (op_method op))
      else case bm (op_method op) of
        None \<Rightarrow> collect_routes bm ops routes
      | Some binding \<Rightarrow>
          let pat = parse_pattern (op_path op) in
          case find (\<lambda>r. eq_ignore_ascii_case (op_verb (rt_op r)) (op_verb op) \<and> pattern_overlaps (rt_pattern r) pat) routes of
            Some existing \<Rightarrow> Err (Routes_overlap (op_method (rt_op existing)) (op_method op))
          | None \<Rightarrow> collect_routes bm ops (routes @ [\<lparr>rt_op = op, rt_binding = binding, rt_pattern = pat\<rparr>]))"

definition build_from_parts ::
  "operation list \<Rightarrow> op_binding list \<Rightarrow> 'w local_op list \<Rightarrow> peer_addr list \<Rightarrow> (route_error, 'w route_table) result" where
  "build_from_parts operations bindings locals peer_addrs =
     (case collect_bindings bindings Map.empty of Inl e \<Rightarrow> Err e | Inr bm \<Rightarrow>
      case collect_locals locals Map.empty of Inl e \<Rightarrow> Err e | Inr invokers \<Rightarrow>
      case collect_peers peer_addrs Map.empty of Inl e \<Rightarrow> Err e | Inr peers \<Rightarrow>
      case collect_routes bm operations [] of Inl e \<Rightarrow> Err e | Inr routes \<Rightarrow>
        Ok \<lparr>tb_routes = routes, tb_invokers = invokers, tb_peers = peers, tb_remotes = Map.empty, tb_pools = Map.empty\<rparr>)"

section \<open>Finding a route\<close>

definition route_match :: "string \<Rightarrow> string list \<Rightarrow> route \<Rightarrow> path_args option" where
  "route_match verb parts r =
     (if eq_ignore_ascii_case (op_verb (rt_op r)) verb then match_pattern (rt_pattern r) parts else None)"

fun find_in :: "string \<Rightarrow> string list \<Rightarrow> route list \<Rightarrow> (route \<times> path_args) option" where
  "find_in verb parts [] = None"
| "find_in verb parts (r # rs) =
     (case route_match verb parts r of Some args \<Rightarrow> Some (r, args) | None \<Rightarrow> find_in verb parts rs)"

definition find_route :: "'w route_table \<Rightarrow> string \<Rightarrow> string \<Rightarrow> (route \<times> path_args) option" where
  "find_route t verb path = find_in verb (path_segments path) (tb_routes t)"

definition find_by_method :: "'w route_table \<Rightarrow> string \<Rightarrow> route option" where
  "find_by_method t m = find (\<lambda>r. op_method (rt_op r) = m) (tb_routes t)"

datatype backend_kind = Local | Remote

definition select_kind :: "(string \<rightharpoonup> 'w invoker) \<Rightarrow> string \<Rightarrow> backend_kind" where
  "select_kind invokers m = (if invokers m \<noteq> None then Local else Remote)"

text \<open>The text before the first dot, or the whole method.\<close>

definition provider_of :: "string \<Rightarrow> string" where
  "provider_of m = takeWhile (\<lambda>c. c \<noteq> CHR ''.'') m"

section \<open>Manifests as data\<close>

datatype arg_source = Arg_body | Arg_path string

record arg_mapping =
  am_param :: string
  am_key :: string
  am_source :: arg_source

record op_manifest =
  mf_method :: string
  mf_verb :: string
  mf_path :: string
  mf_auth :: auth_req
  mf_success :: nat
  mf_retry :: retry_mode
  mf_args :: "arg_mapping list"

record describe_manifest =
  dm_ops :: "op_manifest list"

definition concat_manifests :: "describe_manifest list \<Rightarrow> describe_manifest" where
  "concat_manifests ms = \<lparr>dm_ops = concat (map dm_ops ms)\<rparr>"

text \<open>
  \<open>serde_json\<close>'s value, an object being its entries by ascending key; the parser, the printer
  and the derived reader of a \<open>Status\<close> are the library's, and so parameters.
\<close>

datatype json =
  JNull | JBool bool | JNumber string | JString string | JArray "json list" | JObject "(string \<times> json) list"

record json_codec =
  jc_parse :: "string \<Rightarrow> (string, json) result"
  jc_write :: "json \<Rightarrow> (string, string) result"
  jc_status :: "json \<Rightarrow> (string, status) result"

fun jinsert :: "string \<Rightarrow> json \<Rightarrow> (string \<times> json) list \<Rightarrow> (string \<times> json) list" where
  "jinsert k v [] = [(k, v)]"
| "jinsert k v ((k', v') # m) =
     (if k = k' then (k, v) # m else if k < k' then (k, v) # (k', v') # m else (k', v') # jinsert k v m)"

definition manifest_operation :: "op_manifest \<Rightarrow> operation" where
  "manifest_operation m = \<lparr>op_method = mf_method m, op_verb = mf_verb m, op_path = mf_path m, op_auth = mf_auth m,
     op_success = mf_success m, op_retry = mf_retry m\<rparr>"

definition path_injections :: "op_manifest \<Rightarrow> (string \<times> string) list" where
  "path_injections m = List.map_filter (\<lambda>a. case am_source a of
     Arg_path wildcard \<Rightarrow> Some (am_key a, wildcard) | Arg_body \<Rightarrow> None) (mf_args m)"

definition has_body :: "op_manifest \<Rightarrow> bool" where
  "has_body m = list_ex (\<lambda>a. am_source a = Arg_body) (mf_args m)"

definition inject_path :: "path_args \<Rightarrow> (string \<times> string) list \<Rightarrow> (string \<times> json) list \<Rightarrow> (string \<times> json) list" where
  "inject_path path injections obj =
     foldl (\<lambda>obj (key, wildcard). jinsert key (JString (case path wildcard of None \<Rightarrow> [] | Some v \<Rightarrow> v)) obj) obj injections"

definition manifest_decode :: "json_codec \<Rightarrow> op_manifest \<Rightarrow> string option \<Rightarrow> path_args \<Rightarrow> (op_error, string) result" where
  "manifest_decode jc m body path =
     (let obj = (case body of
          Some b \<Rightarrow>
            if has_body m \<and> b \<noteq> [] then
              (case jc_parse jc b of
                 Inr (JObject obj_entries) \<Rightarrow> Ok obj_entries
               | Inr _ \<Rightarrow> Err (op_err Invalid ''request body must be a json object'')
               | Inl _ \<Rightarrow> Err (op_err Invalid ''invalid json''))
            else Ok []
        | None \<Rightarrow> Ok [])
      in case obj of
        Inl e \<Rightarrow> Err e
      | Inr obj_entries \<Rightarrow>
          (case jc_write jc (JObject (inject_path path (path_injections m) obj_entries)) of
             Inl e \<Rightarrow> Err (op_err Internal e)
           | Inr bytes \<Rightarrow> Ok bytes))"

definition manifest_encode :: "json_codec \<Rightarrow> string \<Rightarrow> (op_error, string option \<times> status) result" where
  "manifest_encode jc resp =
     (case jc_parse jc resp of
        Inl e \<Rightarrow> Err (op_err Internal e)
      | Inr (JObject obj) \<Rightarrow>
          (case map_of obj ''status'' of
             None \<Rightarrow> Err (op_err Internal ''response envelope missing `status`'')
           | Some s \<Rightarrow>
               (case jc_status jc s of
                  Inl e \<Rightarrow> Err (op_err Internal e)
                | Inr st \<Rightarrow>
                    if st \<noteq> Status_ok
                    then Err (op_err st (case map_of obj ''err'' of Some (JString e) \<Rightarrow> e | _ \<Rightarrow> []))
                    else (case map_of obj ''value'' of
                            None \<Rightarrow> Ok (None, Status_ok)
                          | Some v \<Rightarrow>
                              (case jc_write jc v of
                                 Inl e \<Rightarrow> Err (op_err Internal e)
                               | Inr body \<Rightarrow> Ok (Some body, Status_ok)))))
      | Inr _ \<Rightarrow> Err (op_err Internal ''response envelope must be a json object''))"

definition manifest_binding :: "json_codec \<Rightarrow> op_manifest \<Rightarrow> op_binding" where
  "manifest_binding jc m = \<lparr>ob_method = mf_method m, ob_decode = manifest_decode jc m, ob_encode = manifest_encode jc\<rparr>"

section \<open>The table of the described peers\<close>

type_synonym described = "(string \<times> string list \<times> describe_manifest) list"

definition owns_method :: "string \<Rightarrow> string \<Rightarrow> bool" where
  "owns_method provider m = (provider \<noteq> [] \<and> provider_of m = provider \<and> length provider + 1 < length m)"

fun check_ops :: "string \<Rightarrow> op_manifest list \<Rightarrow> (route_error, unit) result" where
  "check_ops provider [] = Ok ()"
| "check_ops provider (m # ms) =
     (if owns_method provider (mf_method m) then check_ops provider ms else Err (Foreign_method provider (mf_method m)))"

fun check_described :: "described \<Rightarrow> (route_error, unit) result" where
  "check_described [] = Ok ()"
| "check_described ((provider, addrs, manifest) # rest) =
     (case check_ops provider (dm_ops manifest) of Inl e \<Rightarrow> Err e | Inr _ \<Rightarrow> check_described rest)"

definition described_ops :: "described \<Rightarrow> op_manifest list" where
  "described_ops fetched = concat (map (\<lambda>(provider, addrs, manifest). dm_ops manifest) fetched)"

definition build_describe_table :: "json_codec \<Rightarrow> described \<Rightarrow> (route_error, 'w route_table) result" where
  "build_describe_table jc fetched =
     (case check_described fetched of
        Inl e \<Rightarrow> Err e
      | Inr _ \<Rightarrow>
          build_from_parts (map manifest_operation (described_ops fetched)) (map (manifest_binding jc) (described_ops fetched)) []
            (map (\<lambda>(provider, addrs, manifest). \<lparr>pr_provider = provider, pr_addrs = addrs\<rparr>) fetched))"

section \<open>Dispatch pools and the refresh pass\<close>

definition cached_remote :: "'w route_table \<Rightarrow> string \<Rightarrow> pool option" where
  "cached_remote t provider = tb_remotes t provider"

definition publish_caller :: "string \<Rightarrow> pool option \<Rightarrow> pool \<Rightarrow> 'w route_table \<Rightarrow> 'w route_table" where
  "publish_caller provider pool caller t =
     (let t1 = (case pool of None \<Rightarrow> t | Some p \<Rightarrow> t\<lparr>tb_pools := (tb_pools t)(provider \<mapsto> p)\<rparr>)
      in t1\<lparr>tb_remotes := (tb_remotes t1)(provider \<mapsto> caller)\<rparr>)"

definition insert_caller :: "string \<Rightarrow> pool \<Rightarrow> 'w route_table \<Rightarrow> 'w route_table" where
  "insert_caller provider p t = publish_caller provider (Some p) p t"

text \<open>\<open>fresh\<close> identifies the pool a cache miss would make.\<close>

definition remote_caller :: "nat \<Rightarrow> string \<Rightarrow> 'w route_table \<Rightarrow> (op_error, pool) result \<times> 'w route_table" where
  "remote_caller fresh provider t =
     (case cached_remote t provider of
        Some c \<Rightarrow> (Ok c, t)
      | None \<Rightarrow>
          (case tb_peers t provider of
             None \<Rightarrow> (Err (op_err Unavailable ''gateway: no peer contributed for provider''), t)
           | Some addrs \<Rightarrow>
               let p = \<lparr>pl_id = fresh, pl_addrs = addrs\<rparr> in (Ok p, insert_caller provider p t)))"

definition adopt_remote :: "'w route_table \<Rightarrow> string \<Rightarrow> 'w route_table \<Rightarrow> 'w route_table" where
  "adopt_remote installed provider t =
     (case cached_remote installed provider of
        None \<Rightarrow> t
      | Some caller \<Rightarrow> publish_caller provider (tb_pools installed provider) caller t)"

definition stop_pools :: "'w route_table \<Rightarrow> pool set \<times> 'w route_table" where
  "stop_pools t = (ran (tb_pools t), t\<lparr>tb_pools := Map.empty\<rparr>)"

text \<open>\<open>HashMap::insert\<close> and \<open>==\<close> on the association list of a map.\<close>

fun hash_insert :: "'k \<Rightarrow> 'v \<Rightarrow> ('k \<times> 'v) list \<Rightarrow> ('k \<times> 'v) list" where
  "hash_insert k v [] = [(k, v)]"
| "hash_insert k v ((k', v') # m) = (if k = k' then (k, v) # m else (k', v') # hash_insert k v m)"

definition hash_eq :: "('k \<times> 'v) list \<Rightarrow> ('k \<times> 'v) list \<Rightarrow> bool" where
  "hash_eq m m' = (length m = length m' \<and> list_all (\<lambda>(k, v). map_of m' k = Some v) m)"

record 'w describe_router =
  dr_peers :: "peer_addr list"
  dr_known :: described
  dr_built :: "described option"
  dr_table :: "'w route_table"

definition learn :: "(peer_addr \<times> describe_manifest option) list \<Rightarrow> described \<Rightarrow> described" where
  "learn fetched known =
     foldl (\<lambda>known (p, manifest). case manifest of
        Some m \<Rightarrow> hash_insert (pr_provider p) (pr_addrs p, m) known | None \<Rightarrow> known) known fetched"

text \<open>
  One pass: \<open>fetched\<close> gives each peer's manifest by its position, \<open>None\<close> where the fetch failed, timed out
  or panicked; \<open>iter\<close> is the iteration order of the map.
\<close>

definition refresh_once ::
  "json_codec \<Rightarrow> (described \<Rightarrow> described) \<Rightarrow> describe_manifest option list \<Rightarrow> 'w describe_router
     \<Rightarrow> (route_error, unit) result \<times> 'w describe_router" where
  "refresh_once jc iter fetched dr =
     (let known = learn (zip (dr_peers dr) fetched) (dr_known dr); dr1 = dr\<lparr>dr_known := known\<rparr> in
      if (case dr_built dr of None \<Rightarrow> False | Some b \<Rightarrow> hash_eq b known) then (Ok (), dr1)
      else case build_describe_table jc (iter known) of
        Inl e \<Rightarrow> (Err e, dr1)
      | Inr t \<Rightarrow>
          let t1 = (case dr_built dr of
                None \<Rightarrow> t
              | Some prev \<Rightarrow>
                  foldl (\<lambda>t (provider, entry). if map_of prev provider = Some entry
                           then adopt_remote (dr_table dr) provider t else t) t (iter known))
          in (Ok (), dr1\<lparr>dr_table := t1, dr_built := Some known\<rparr>))"

end
