(* ===== verification/Gateway_Front.thy ===== *)
theory Gateway_Front
  imports Gateway_Routes
begin

text \<open>
  The gateway's front door (\<open>modules/gateway/src\<close>): the api-key check behind its cache, the session
  check, admission within its budget, dispatch to an in-process invoker or to a peer's pool, the
  player and the HTTP handler, and the reverse proxy for what is no operation.

  The apikeys and accounts capabilities, the peers and the proxied origins are reached through traits, so
  what they answer is given by the environment of a call, as are its clock and what other requests
  do to the shared key cache while this one waits.
\<close>

section \<open>Api keys\<close>

record key_record =
  kr_name :: string
  kr_policy :: string

definition key_cache_ttl :: int where "key_cache_ttl = 5000000"
definition key_cache_max_entries :: nat where "key_cache_max_entries = 10000"
definition key_lookup_max_in_flight :: nat where "key_lookup_max_in_flight = 64"
definition max_key_bytes :: nat where "max_key_bytes = 256"

record cache_entry =
  ce_record :: "key_record option"
  ce_inserted :: instant
  ce_seq :: nat

text \<open>A flight lock is known by its strong count: the requests that hold or await it.\<close>

record key_verifier =
  kv_entries :: "(string \<times> cache_entry) list"
  kv_seq :: nat
  kv_locks :: "(string \<times> nat \<times> nat) list"
  kv_lock_seq :: nat
  kv_misses :: nat
  kv_permits :: nat \<comment> \<open>the lookups in flight\<close>

datatype key_denial = Key_missing | Key_invalid | Key_forbidden | Key_unavailable

definition key_denial_message :: "key_denial \<Rightarrow> string" where
  "key_denial_message d = (case d of
     Key_missing \<Rightarrow> ''missing api key'' | Key_invalid \<Rightarrow> ''invalid api key''
   | Key_forbidden \<Rightarrow> ''api key policy forbids this operation'' | Key_unavailable \<Rightarrow> ''api key verification unavailable'')"

definition key_denial_status :: "key_denial \<Rightarrow> status" where
  "key_denial_status d = (case d of
     Key_missing \<Rightarrow> Unauthorized | Key_invalid \<Rightarrow> Unauthorized | Key_forbidden \<Rightarrow> Forbidden | Key_unavailable \<Rightarrow> Unavailable)"

datatype key_check = Policy string | Presence_only

definition policy_allows :: "string \<Rightarrow> string \<Rightarrow> bool" where
  "policy_allows policy m = (policy = ''full'' \<or> list_ex (\<lambda>p. trim p = m) (split_on (CHR '','') policy))"

definition wrapping_add_u64 :: "nat \<Rightarrow> nat \<Rightarrow> nat" where
  "wrapping_add_u64 a b = (a + b) mod 2 ^ 64"

definition cached :: "int \<Rightarrow> instant \<Rightarrow> string \<Rightarrow> key_verifier \<Rightarrow> key_record option option" where
  "cached ttl now key kv = (case map_of (kv_entries kv) key of
     Some e \<Rightarrow> if now - ce_inserted e < ttl then Some (ce_record e) else None
   | None \<Rightarrow> None)"

definition key_insert :: "int \<Rightarrow> instant \<Rightarrow> string \<Rightarrow> key_record option \<Rightarrow> key_verifier \<Rightarrow> key_verifier" where
  "key_insert ttl now key r kv =
     (let live = filter (\<lambda>(k, e). now - ce_inserted e < ttl) (kv_entries kv);
          kept = (if key_cache_max_entries \<le> length live \<and> map_of live key = None
                  then (case sql_first (\<lambda>(k, e). (ce_inserted e, ce_seq e)) (\<lambda>_. True) live of
                          None \<Rightarrow> live | Some oldest \<Rightarrow> filter (\<lambda>(k, e). k \<noteq> fst oldest) live)
                  else live);
          s = wrapping_add_u64 (kv_seq kv) 1
      in kv\<lparr>kv_entries := hash_insert key \<lparr>ce_record = r, ce_inserted = now, ce_seq = s\<rparr> kept, kv_seq := s\<rparr>)"

definition live_locks :: "(string \<times> nat \<times> nat) list \<Rightarrow> (string \<times> nat \<times> nat) list" where
  "live_locks locks = filter (\<lambda>(k, count, s). count \<noteq> 0) locks"

definition flight :: "string \<Rightarrow> key_verifier \<Rightarrow> bool \<times> key_verifier" where
  "flight key kv0 =
     (let misses = wrapping_add_u64 (kv_misses kv0) 1;
          kv = kv0\<lparr>kv_misses := misses, kv_locks := (if misses mod 256 = 0 then live_locks (kv_locks kv0) else kv_locks kv0)\<rparr>
      in case map_of (kv_locks kv) key of
           Some (Suc n, s) \<Rightarrow> (True, kv\<lparr>kv_locks := hash_insert key (Suc (Suc n), s) (kv_locks kv)\<rparr>)
         | _ \<Rightarrow>
             let others = filter (\<lambda>(k, v). k \<noteq> key) (kv_locks kv);
                 kept = (if key_cache_max_entries \<le> length others then live_locks others else others)
             in if key_cache_max_entries \<le> length kept then (False, kv\<lparr>kv_locks := kept\<rparr>)
                else let s = wrapping_add_u64 (kv_lock_seq kv) 1
                     in (True, kv\<lparr>kv_locks := hash_insert key (1, s) kept, kv_lock_seq := s\<rparr>))"

text \<open>Dropping the guard of a flight lock.\<close>

definition unflight :: "string \<Rightarrow> key_verifier \<Rightarrow> key_verifier" where
  "unflight key kv = kv\<lparr>kv_locks := map (\<lambda>(k, count, s). if k = key then (k, count - 1, s) else (k, count, s)) (kv_locks kv)\<rparr>"

datatype key_point = Key_asked | Key_locked | Key_answered
datatype key_answer = Key_found "key_record option" | Key_failed | Key_hangs

record key_env =
  ke_time :: "key_point \<Rightarrow> instant"
  ke_others :: "key_point \<Rightarrow> key_verifier \<Rightarrow> key_verifier" \<comment> \<open>while waiting up to this point\<close>
  ke_lock_hangs :: bool
  ke_answer :: key_answer

text \<open>\<open>Looked\<close> is an answer, \<open>None\<close> being \<open>LookupUnavailable\<close>; \<open>Cut\<close> is a future dropped by the budget.\<close>

datatype 'a looked = Looked 'a | Cut

definition take_permit :: "key_verifier \<Rightarrow> key_verifier" where
  "take_permit kv = kv\<lparr>kv_permits := Suc (kv_permits kv)\<rparr>"

definition release :: "string \<Rightarrow> key_verifier \<Rightarrow> key_verifier" where
  "release key kv = unflight key (kv\<lparr>kv_permits := kv_permits kv - 1\<rparr>)"

definition lookup_key ::
  "key_env \<Rightarrow> string \<Rightarrow> key_verifier \<Rightarrow> key_record option option looked \<times> key_verifier" where
  "lookup_key ke key kv =
     (if length key > max_key_bytes then (Looked (Some None), kv)
      else case cached key_cache_ttl (ke_time ke Key_asked) key kv of
        Some r \<Rightarrow> (Looked (Some r), kv)
      | None \<Rightarrow>
          (case flight key kv of
             (False, kv1) \<Rightarrow> (Looked None, kv1)
           | (True, kv1) \<Rightarrow>
               let kv2 = ke_others ke Key_locked kv1 in
               if ke_lock_hangs ke then (Cut, unflight key kv2)
               else case cached key_cache_ttl (ke_time ke Key_locked) key kv2 of
                 Some r \<Rightarrow> (Looked (Some r), unflight key kv2)
               | None \<Rightarrow>
                   if key_lookup_max_in_flight \<le> kv_permits kv2 then (Looked None, unflight key kv2)
                   else let kv3 = ke_others ke Key_answered (take_permit kv2) in
                        case ke_answer ke of
                          Key_found r \<Rightarrow> (Looked (Some r), release key (key_insert key_cache_ttl (ke_time ke Key_answered) key r kv3))
                        | Key_failed \<Rightarrow> (Looked None, release key kv3)
                        | Key_hangs \<Rightarrow> (Cut, release key kv3)))"

datatype verifier_kind = Real | Dev

definition key_lookup ::
  "verifier_kind \<Rightarrow> key_env \<Rightarrow> string \<Rightarrow> key_verifier \<Rightarrow> key_record option option looked \<times> key_verifier" where
  "key_lookup kind ke key kv = (case kind of
     Real \<Rightarrow> lookup_key ke key kv
   | Dev \<Rightarrow> (Looked (Some (Some \<lparr>kr_name = ''dev-allow-all'', kr_policy = ''full''\<rparr>)), kv))"

definition check_api_key ::
  "verifier_kind \<Rightarrow> key_env \<Rightarrow> string option \<Rightarrow> key_check \<Rightarrow> key_verifier \<Rightarrow> (key_denial, unit) result looked \<times> key_verifier" where
  "check_api_key kind ke key check kv = (case key of
     None \<Rightarrow> (Looked (Err Key_missing), kv)
   | Some k \<Rightarrow>
       (case key_lookup kind ke k kv of
          (Cut, kv') \<Rightarrow> (Cut, kv')
        | (Looked None, kv') \<Rightarrow> (Looked (Err Key_unavailable), kv')
        | (Looked (Some None), kv') \<Rightarrow> (Looked (Err Key_invalid), kv')
        | (Looked (Some (Some r)), kv') \<Rightarrow>
            (case check of
               Policy m \<Rightarrow> if policy_allows (kr_policy r) m then (Looked (Ok ()), kv') else (Looked (Err Key_forbidden), kv')
             | Presence_only \<Rightarrow> (Looked (Ok ()), kv'))))"

section \<open>Sessions\<close>

definition max_session_token_bytes :: nat where "max_session_token_bytes = 128"

datatype session_answer = Session_found "string option" | Session_failed | Session_hangs

text \<open>\<open>SessionsVerifier::verify\<close> and \<open>DevSessionVerifier::verify\<close>; \<open>None\<close> is \<open>VerifyUnavailable\<close>.\<close>

definition verify_session :: "verifier_kind \<Rightarrow> (string \<Rightarrow> session_answer) \<Rightarrow> string \<Rightarrow> string option option looked" where
  "verify_session kind sessions token =
     (if length token > max_session_token_bytes then Looked (Some None)
      else case kind of
        Real \<Rightarrow>
          (case sessions token of
             Session_found pid \<Rightarrow> Looked (Some (case pid of Some p \<Rightarrow> if p \<noteq> [] then Some p else None | None \<Rightarrow> None))
           | Session_failed \<Rightarrow> Looked None
           | Session_hangs \<Rightarrow> Cut)
      | Dev \<Rightarrow> Looked (Some (case strip_prefix ''dev-'' token of Some p \<Rightarrow> if p \<noteq> [] then Some p else None | None \<Rightarrow> None)))"

datatype admission_denial = Key_denied key_denial | Missing_bearer | Invalid_session | Session_unavailable | Admission_timeout

definition denial_status :: "admission_denial \<Rightarrow> status" where
  "denial_status d = (case d of
     Key_denied k \<Rightarrow> key_denial_status k
   | Missing_bearer \<Rightarrow> Unauthorized | Invalid_session \<Rightarrow> Unauthorized
   | Session_unavailable \<Rightarrow> Unavailable | Admission_timeout \<Rightarrow> Unavailable)"

definition denial_message :: "admission_denial \<Rightarrow> string" where
  "denial_message d = (case d of
     Key_denied k \<Rightarrow> key_denial_message k
   | Missing_bearer \<Rightarrow> ''unauthorized'' | Invalid_session \<Rightarrow> ''unauthorized''
   | Session_unavailable \<Rightarrow> ''session verification unavailable''
   | Admission_timeout \<Rightarrow> ''credential admission timed out (CREDENTIAL_ADMISSION_TIMEOUT_MS)'')"

definition verify_bearer ::
  "verifier_kind \<Rightarrow> (string \<Rightarrow> session_answer) \<Rightarrow> string option \<Rightarrow> auth_req \<Rightarrow> (admission_denial, identity) result looked" where
  "verify_bearer kind sessions bearer auth = (case auth of
     Auth_player \<Rightarrow>
       (case bearer of
          None \<Rightarrow> Looked (Err Missing_bearer)
        | Some token \<Rightarrow>
            (case verify_session kind sessions token of
               Cut \<Rightarrow> Cut
             | Looked (Some (Some pid)) \<Rightarrow> Looked (Ok (identity_player pid))
             | Looked (Some None) \<Rightarrow> Looked (Err Invalid_session)
             | Looked None \<Rightarrow> Looked (Err Session_unavailable)))
   | Auth_none \<Rightarrow> Looked (Ok identity_none))"

section \<open>Admission and dispatch\<close>

type_synonym headers = "(string \<times> string) list" \<comment> \<open>names are lower case\<close>

record upstream_response =
  up_code :: nat
  up_headers :: headers
  up_body :: string

record 'w front_env =
  fe_keys :: verifier_kind
  fe_key_env :: key_env
  fe_verifier :: verifier_kind
  fe_sessions :: "string \<Rightarrow> session_answer"
  fe_is_json :: "string \<Rightarrow> bool" \<comment> \<open>\<open>serde_json\<close> accepts the bytes\<close>
  fe_fresh_pool :: nat
  fe_call :: "pool \<Rightarrow> string \<Rightarrow> string option \<Rightarrow> string \<Rightarrow> retry_mode \<Rightarrow> 'w \<Rightarrow> (op_error, string) result \<times> 'w"
  fe_to_str :: "string \<Rightarrow> string option" \<comment> \<open>the \<open>http\<close> crate's: \<open>None\<close> unless visible ASCII\<close>
  fe_send :: "string \<Rightarrow> string \<Rightarrow> headers \<Rightarrow> string option \<Rightarrow> upstream_response option" \<comment> \<open>an origin's answer\<close>
  fe_proxy :: "(string \<times> string) list"

record 'w front_state =
  fs_keys :: key_verifier
  fs_table :: "'w route_table"
  fs_world :: 'w

definition admit_inner ::
  "'w front_env \<Rightarrow> string option \<Rightarrow> string option \<Rightarrow> auth_req \<Rightarrow> key_check \<Rightarrow> 'w front_state
     \<Rightarrow> (admission_denial, identity) result looked \<times> 'w front_state" where
  "admit_inner env api_key bearer auth check fs =
     (case check_api_key (fe_keys env) (fe_key_env env) api_key check (fs_keys fs) of
        (Cut, kv) \<Rightarrow> (Cut, fs\<lparr>fs_keys := kv\<rparr>)
      | (Looked (Inl d), kv) \<Rightarrow> (Looked (Err (Key_denied d)), fs\<lparr>fs_keys := kv\<rparr>)
      | (Looked (Inr _), kv) \<Rightarrow> (verify_bearer (fe_verifier env) (fe_sessions env) bearer auth, fs\<lparr>fs_keys := kv\<rparr>))"

definition admit ::
  "'w front_env \<Rightarrow> string option \<Rightarrow> string option \<Rightarrow> auth_req \<Rightarrow> key_check \<Rightarrow> 'w front_state
     \<Rightarrow> (admission_denial, identity) result \<times> 'w front_state" where
  "admit env api_key bearer auth check fs =
     (case admit_inner env api_key bearer auth check fs of
        (Looked r, fs') \<Rightarrow> (r, fs')
      | (Cut, fs') \<Rightarrow> (Err Admission_timeout, fs'))"

definition reverify_push :: "'w front_env \<Rightarrow> string \<Rightarrow> (admission_denial, identity) result" where
  "reverify_push env bearer = (case verify_bearer (fe_verifier env) (fe_sessions env) (Some bearer) Auth_player of
     Looked r \<Rightarrow> r | Cut \<Rightarrow> Err Admission_timeout)"

definition invoke_local :: "operation \<Rightarrow> identity \<Rightarrow> string \<Rightarrow> 'w front_state \<Rightarrow> (op_error, string) result \<times> 'w front_state" where
  "invoke_local op i req fs = (case tb_invokers (fs_table fs) (op_method op) of
     None \<Rightarrow> (Err (op_err Internal ''gateway: no local invoker for operation''), fs)
   | Some invoke \<Rightarrow> (case invoke i req (fs_world fs) of (r, w) \<Rightarrow> (r, fs\<lparr>fs_world := w\<rparr>)))"

definition invoke_remote ::
  "'w front_env \<Rightarrow> pool \<Rightarrow> operation \<Rightarrow> identity \<Rightarrow> string \<Rightarrow> 'w front_state \<Rightarrow> (op_error, string) result \<times> 'w front_state" where
  "invoke_remote env caller op i req fs =
     (case fe_call env caller (op_method op) (player_id i) req (op_retry op) (fs_world fs) of (r, w) \<Rightarrow> (r, fs\<lparr>fs_world := w\<rparr>))"

definition dispatch ::
  "'w front_env \<Rightarrow> operation \<Rightarrow> identity \<Rightarrow> string \<Rightarrow> 'w front_state \<Rightarrow> (op_error, string) result \<times> 'w front_state" where
  "dispatch env op i req fs = (case select_kind (tb_invokers (fs_table fs)) (op_method op) of
     Local \<Rightarrow> invoke_local op i req fs
   | Remote \<Rightarrow>
       (case remote_caller (fe_fresh_pool env) (provider_of (op_method op)) (fs_table fs) of
          (Inl e, t) \<Rightarrow> (Err e, fs\<lparr>fs_table := t\<rparr>)
        | (Inr caller, t) \<Rightarrow> invoke_remote env caller op i req (fs\<lparr>fs_table := t\<rparr>)))"

section \<open>The two planes\<close>

text \<open>A player's response: a wire response passed on verbatim, or the front's own envelope.\<close>

datatype player_response = Wire string | Envelope status string

definition handle_player ::
  "'w front_env \<Rightarrow> string \<Rightarrow> string option \<Rightarrow> string option \<Rightarrow> string \<Rightarrow> 'w front_state \<Rightarrow> player_response \<times> 'w front_state" where
  "handle_player env m token api_key payload fs =
     (if \<not> fe_is_json env payload then (Envelope Invalid ''malformed request payload'', fs)
      else case find_by_method (fs_table fs) m of
        None \<Rightarrow> (Envelope Not_found ''unknown operation'', fs)
      | Some r \<Rightarrow>
          (case admit env api_key token (op_auth (rt_op r)) (Policy (op_method (rt_op r))) fs of
             (Inl d, fs1) \<Rightarrow> (Envelope (denial_status d) (denial_message d), fs1)
           | (Inr i, fs1) \<Rightarrow>
               (case dispatch env (rt_op r) i payload fs1 of
                  (Inr bytes, fs2) \<Rightarrow> (Wire bytes, fs2)
                | (Inl e, fs2) \<Rightarrow> (Envelope (err_status e) (err_msg e), fs2))))"

record http_response =
  hr_code :: nat
  hr_body :: string
  hr_json :: bool

definition from_u16 :: "nat \<Rightarrow> nat option" where
  "from_u16 n = (if 100 \<le> n \<and> n < 1000 then Some n else None)"

definition code_or :: "nat \<Rightarrow> nat \<Rightarrow> nat" where
  "code_or fallback n = (case from_u16 n of Some c \<Rightarrow> c | None \<Rightarrow> fallback)"

definition error_response :: "nat \<Rightarrow> string \<Rightarrow> http_response" where
  "error_response code msg = \<lparr>hr_code = code, hr_body = msg, hr_json = False\<rparr>"

definition op_error_response :: "op_error \<Rightarrow> http_response" where
  "op_error_response e = error_response (code_or 500 (http (err_status e))) (err_msg e)"

definition admission_denial_response :: "admission_denial \<Rightarrow> http_response" where
  "admission_denial_response d = error_response (code_or 500 (http (denial_status d))) (denial_message d)"

definition success_response :: "nat \<Rightarrow> string option \<Rightarrow> http_response" where
  "success_response success body = (case body of
     Some b \<Rightarrow> if b \<noteq> [] then \<lparr>hr_code = code_or 200 success, hr_body = b, hr_json = True\<rparr>
               else \<lparr>hr_code = code_or 200 success, hr_body = [], hr_json = False\<rparr>
   | None \<Rightarrow> \<lparr>hr_code = code_or 200 success, hr_body = [], hr_json = False\<rparr>)"

definition max_body_bytes :: nat where "max_body_bytes = 1048576"

text \<open>A request: its path with and without the query, its headers, its body, \<open>None\<close> where reading it fails, and its peer.\<close>

record http_request =
  rq_verb :: string
  rq_path :: string
  rq_path_and_query :: string
  rq_headers :: headers
  rq_body :: "string option"
  rq_peer :: "string option"

definition bearer :: "(string \<Rightarrow> string option) \<Rightarrow> headers \<Rightarrow> string option" where
  "bearer to_str hs = Option.bind (Option.bind (map_of hs ''authorization'') to_str) (strip_prefix ''Bearer '')"

definition api_key_header :: "(string \<Rightarrow> string option) \<Rightarrow> headers \<Rightarrow> string option" where
  "api_key_header to_str hs = Option.bind (map_of hs ''x-api-key'') to_str"

definition dispatch_matched_op ::
  "'w front_env \<Rightarrow> operation \<Rightarrow> op_binding \<Rightarrow> path_args \<Rightarrow> http_request \<Rightarrow> 'w front_state \<Rightarrow> http_response \<times> 'w front_state" where
  "dispatch_matched_op env op binding path_args rq fs =
     (case admit env (api_key_header (fe_to_str env) (rq_headers rq)) (bearer (fe_to_str env) (rq_headers rq)) (op_auth op) (Policy (op_method op)) fs of
        (Inl d, fs1) \<Rightarrow> (admission_denial_response d, fs1)
      | (Inr i, fs1) \<Rightarrow>
          (case (case rq_body rq of Some b \<Rightarrow> if length b \<le> max_body_bytes then Some b else None | None \<Rightarrow> None) of
             None \<Rightarrow> (error_response 413 ''request body too large'', fs1)
           | Some b \<Rightarrow>
               (case ob_decode binding (if b = [] then None else Some b) path_args of
                  Inl e \<Rightarrow> (op_error_response e, fs1)
                | Inr wire_req \<Rightarrow>
                    (case dispatch env op i wire_req fs1 of
                       (Inl e, fs2) \<Rightarrow> (op_error_response e, fs2)
                     | (Inr wire_resp, fs2) \<Rightarrow>
                         (case ob_encode binding wire_resp of
                            Inl e \<Rightarrow> (op_error_response e, fs2)
                          | Inr (body, _) \<Rightarrow> (success_response (op_success op) body, fs2))))))"

section \<open>The reverse proxy\<close>

definition hop_by_hop :: "string list" where
  "hop_by_hop = [''connection'', ''keep-alive'', ''proxy-authenticate'', ''proxy-authorization'', ''te'', ''trailer'',
     ''transfer-encoding'', ''upgrade'', ''host'']"

definition contains_scheme :: "string \<Rightarrow> bool" where
  "contains_scheme s = list_ex (\<lambda>i. take 3 (drop i s) = ''://'') [0..<length s]"

definition normalize_origin :: "string \<Rightarrow> string" where
  "normalize_origin addr = trim_end_matches ''/'' (if contains_scheme addr then addr else ''http://'' @ addr)"

definition proxy_routes :: "(string \<times> string) list \<Rightarrow> (string \<times> string) list" where
  "proxy_routes routes = sort_key (\<lambda>(prefix, origin). - int (length prefix))
     (List.map_filter (\<lambda>(prefix, origin). if trim origin \<noteq> [] then Some (prefix, normalize_origin (trim origin)) else None) routes)"

definition under_prefix :: "string \<Rightarrow> string \<Rightarrow> bool" where
  "under_prefix path prefix = (path = prefix \<or> take (length prefix + 1) path = prefix @ ''/'')"

definition origin_for :: "(string \<times> string) list \<Rightarrow> string \<Rightarrow> string option" where
  "origin_for routes path = map_option snd (find (\<lambda>(prefix, origin). under_prefix path prefix) routes)"

definition pattern_for :: "(string \<times> string) list \<Rightarrow> string \<Rightarrow> string option" where
  "pattern_for routes path = map_option (\<lambda>(prefix, origin). prefix @ ''/*'') (find (\<lambda>(prefix, origin). under_prefix path prefix) routes)"

definition connection_named :: "(string \<Rightarrow> string option) \<Rightarrow> headers \<Rightarrow> string list" where
  "connection_named to_str hs =
     filter (\<lambda>tok. tok \<noteq> []) (map (\<lambda>tok. map to_ascii_lowercase (trim tok))
       (concat (map (split_on (CHR '',''))
         (List.map_filter (\<lambda>(name, v). if name = ''connection'' then to_str v else None) hs))))"

definition strip_hop_by_hop :: "(string \<Rightarrow> string option) \<Rightarrow> headers \<Rightarrow> headers" where
  "strip_hop_by_hop to_str hs =
     filter (\<lambda>(name, v). name \<notin> set (connection_named to_str hs) \<and> name \<notin> set hop_by_hop) hs"

definition build_xff :: "(string \<Rightarrow> string option) \<Rightarrow> headers \<Rightarrow> string option \<Rightarrow> string option" where
  "build_xff to_str hs peer_ip =
     (case (Option.bind (map_of hs ''x-forwarded-for'') to_str, peer_ip) of
        (Some chain, Some ip) \<Rightarrow> Some (chain @ '', '' @ ip)
      | (Some chain, None) \<Rightarrow> Some chain
      | (None, Some ip) \<Rightarrow> Some ip
      | (None, None) \<Rightarrow> None)"

definition header_set :: "string \<Rightarrow> string \<Rightarrow> headers \<Rightarrow> headers" where
  "header_set name v hs = filter (\<lambda>(n, _). n \<noteq> name) hs @ [(name, v)]"

definition forward_headers :: "(string \<Rightarrow> string option) \<Rightarrow> headers \<Rightarrow> string option \<Rightarrow> headers" where
  "forward_headers to_str hs peer_ip =
     (let stripped = strip_hop_by_hop to_str hs
      in case build_xff to_str hs peer_ip of None \<Rightarrow> stripped | Some xff \<Rightarrow> header_set ''x-forwarded-for'' xff stripped)"

definition relay_response :: "(string \<Rightarrow> string option) \<Rightarrow> upstream_response \<Rightarrow> upstream_response" where
  "relay_response to_str up = up\<lparr>up_headers := strip_hop_by_hop to_str (up_headers up)\<rparr>"

definition plain_upstream :: "nat \<Rightarrow> string \<Rightarrow> upstream_response" where
  "plain_upstream code body = \<lparr>up_code = code, up_headers = [], up_body = body\<rparr>"

definition forward :: "'w front_env \<Rightarrow> http_request \<Rightarrow> upstream_response" where
  "forward env rq =
     (case origin_for (fe_proxy env) (rq_path rq) of
        None \<Rightarrow> plain_upstream 404 ''not found''
      | Some origin \<Rightarrow>
          (case fe_send env (rq_verb rq) (origin @ rq_path_and_query rq)
                  (forward_headers (fe_to_str env) (rq_headers rq) (rq_peer rq)) (rq_body rq) of
             Some up \<Rightarrow> relay_response (fe_to_str env) up
           | None \<Rightarrow> plain_upstream 502 ''upstream unavailable''))"

section \<open>The HTTP front handler\<close>

text \<open>The response with its metrics label: the route's pattern or the proxied prefix.\<close>

datatype front_response = Answered http_response | Proxied upstream_response

definition handle :: "'w front_env \<Rightarrow> http_request \<Rightarrow> 'w front_state \<Rightarrow> (front_response \<times> string option) \<times> 'w front_state" where
  "handle env rq fs =
     (case find_route (fs_table fs) (rq_verb rq) (rq_path rq) of
        None \<Rightarrow> ((Proxied (forward env rq), pattern_for (fe_proxy env) (rq_path rq)), fs)
      | Some (r, args) \<Rightarrow>
          (case dispatch_matched_op env (rt_op r) (rt_binding r) args rq fs of
             (resp, fs') \<Rightarrow> ((Answered resp, Some (op_path (rt_op r))), fs')))"

end
