(* ===== verification/Gateway_Table.thy ===== *)
theory Gateway_Table
  imports Gateway_Routes
begin

text \<open>
  What the gateway's routing guarantees: overlap of patterns is sharing a request, a built table
  answers each request by at most one route, a described route is dispatched to the peer that
  owns it, a refresh keeps what it cannot renew, and path arguments cannot be overridden by a
  body.
\<close>

section \<open>Overlap is sharing a request\<close>

fun seg_accepts :: "seg \<Rightarrow> string \<Rightarrow> bool" where
  "seg_accepts (Lit l) part = (l = part)"
| "seg_accepts (Wild n) part = True"

lemma match_segs_iff: "match_segs xs args \<noteq> None \<longleftrightarrow> (\<forall>(s, part) \<in> set xs. seg_accepts s part)"
  by (induction xs args rule: match_segs.induct) (auto simp del: fun_upd_apply)

lemma match_pattern_iff:
  "match_pattern pat parts \<noteq> None \<longleftrightarrow> list_all2 seg_accepts pat parts"
  using match_segs_iff [of "zip pat parts" Map.empty]
  by (auto simp: match_pattern_def list_all2_iff)

lemma pattern_overlaps_iff: "pattern_overlaps a b \<longleftrightarrow> list_all2 segs_overlap a b"
  by (auto simp: pattern_overlaps_def list_all2_iff list_all_iff)

lemma segs_overlap_common: "seg_accepts x part \<Longrightarrow> seg_accepts y part \<Longrightarrow> segs_overlap x y"
  by (cases x; cases y) (auto simp: segs_overlap_def)

lemma common_overlaps:
  assumes "list_all2 seg_accepts a parts" and "list_all2 seg_accepts b parts"
  shows "list_all2 segs_overlap a b"
  using assms by (auto simp: list_all2_conv_all_nth intro!: segs_overlap_common)

text \<open>A part of a path: not empty, and without the separator.\<close>

definition path_part :: "string \<Rightarrow> bool" where
  "path_part s = (s \<noteq> [] \<and> CHR ''/'' \<notin> set s)"

lemma path_segments_parts: "s \<in> set (path_segments path) \<Longrightarrow> path_part s"
  by (auto simp: path_segments_def path_part_def dest: split_on_parts)

definition path_of :: "string list \<Rightarrow> string" where
  "path_of parts = concat (map (\<lambda>s. CHR ''/'' # s) parts)"

lemma split_path_of:
  "CHR ''/'' \<notin> set s \<Longrightarrow> \<forall>p \<in> set parts. path_part p \<Longrightarrow> split_on (CHR ''/'') (s @ path_of parts) = s # parts"
  by (induction parts arbitrary: s) (auto simp: path_of_def path_part_def)

lemma path_segments_path_of: "\<forall>p \<in> set parts. path_part p \<Longrightarrow> path_segments (path_of parts) = parts"
  using split_path_of [of "[]" parts] by (simp add: path_segments_def path_part_def)

definition seg_text :: "seg \<Rightarrow> seg \<Rightarrow> string" where
  "seg_text x y = (case x of Lit l \<Rightarrow> l | Wild _ \<Rightarrow> (case y of Lit r \<Rightarrow> r | Wild _ \<Rightarrow> ''x''))"

lemma seg_text_accepts: "segs_overlap x y \<Longrightarrow> seg_accepts x (seg_text x y) \<and> seg_accepts y (seg_text x y)"
  by (cases x; cases y) (auto simp: seg_text_def segs_overlap_def)

lemma parse_pattern_Lit: "Lit l \<in> set (parse_pattern p) \<Longrightarrow> path_part l"
  by (auto simp: parse_pattern_def parse_seg_def path_part_def split: option.splits dest: split_on_parts)

lemma seg_text_part:
  assumes "x \<in> set (parse_pattern p)" and "y \<in> set (parse_pattern q)"
  shows "path_part (seg_text x y)"
  by (cases x rule: seg.exhaust; cases y rule: seg.exhaust)
    (use assms in \<open>auto simp: seg_text_def path_part_def dest: parse_pattern_Lit [unfolded path_part_def]\<close>)

text \<open>
  C35. The overlap check decides exactly what it is for: two path patterns overlap if and only if some
  request path is matched by both.
\<close>

theorem overlap_iff_common_request:
  "pattern_overlaps (parse_pattern p) (parse_pattern q) \<longleftrightarrow>
     (\<exists>path. match_pattern (parse_pattern p) (path_segments path) \<noteq> None \<and>
             match_pattern (parse_pattern q) (path_segments path) \<noteq> None)"
proof
  assume ov: "pattern_overlaps (parse_pattern p) (parse_pattern q)"
  let ?parts = "map (\<lambda>(x, y). seg_text x y) (zip (parse_pattern p) (parse_pattern q))"
  have "path_segments (path_of ?parts) = ?parts"
    by (rule path_segments_path_of) (auto dest: set_zip_leftD set_zip_rightD intro: seg_text_part)
  moreover have "list_all2 seg_accepts (parse_pattern p) ?parts" "list_all2 seg_accepts (parse_pattern q) ?parts"
    using ov by (auto simp: pattern_overlaps_iff list_all2_conv_all_nth seg_text_accepts)
  ultimately show "\<exists>path. match_pattern (parse_pattern p) (path_segments path) \<noteq> None \<and>
      match_pattern (parse_pattern q) (path_segments path) \<noteq> None"
    unfolding match_pattern_iff by (metis (no_types, lifting))
next
  assume "\<exists>path. match_pattern (parse_pattern p) (path_segments path) \<noteq> None \<and>
      match_pattern (parse_pattern q) (path_segments path) \<noteq> None"
  then show "pattern_overlaps (parse_pattern p) (parse_pattern q)"
    unfolding match_pattern_iff pattern_overlaps_iff by (auto intro: common_overlaps)
qed

section \<open>A built table answers each request by one route\<close>

lemma eq_ignore_ascii_case_euclid:
  "eq_ignore_ascii_case a c \<Longrightarrow> eq_ignore_ascii_case b c \<Longrightarrow> eq_ignore_ascii_case a b"
  by (simp add: eq_ignore_ascii_case_def)

definition routes_apart :: "route \<Rightarrow> route \<Rightarrow> bool" where
  "routes_apart r s = (\<not> (eq_ignore_ascii_case (op_verb (rt_op r)) (op_verb (rt_op s)) \<and> pattern_overlaps (rt_pattern r) (rt_pattern s)))"

definition routes_ok :: "(string \<rightharpoonup> op_binding) \<Rightarrow> route list \<Rightarrow> bool" where
  "routes_ok bm routes = (sorted_wrt routes_apart routes
     \<and> (\<forall>r \<in> set routes. rt_pattern r = parse_pattern (op_path (rt_op r)) \<and> bm (op_method (rt_op r)) = Some (rt_binding r))
     \<and> distinct (map (\<lambda>r. op_method (rt_op r)) routes))"

lemma collect_routes_step:
  assumes "collect_routes bm (op # ops) routes = Ok routes'" and "bm (op_method op) = Some b"
  defines "r \<equiv> \<lparr>rt_op = op, rt_binding = b, rt_pattern = parse_pattern (op_path op)\<rparr>"
  shows "\<forall>s \<in> set routes. op_method (rt_op s) \<noteq> op_method op" and "\<forall>s \<in> set routes. routes_apart s r"
    and "collect_routes bm ops (routes @ [r]) = Ok routes'"
proof -
  show fresh: "\<forall>s \<in> set routes. op_method (rt_op s) \<noteq> op_method op"
    using assms(1) by (auto split: if_splits)
  let ?p = "\<lambda>s. eq_ignore_ascii_case (op_verb (rt_op s)) (op_verb op) \<and> pattern_overlaps (rt_pattern s) (parse_pattern (op_path op))"
  have "collect_routes bm (op # ops) routes = (case find ?p routes of
      Some existing \<Rightarrow> Err (Routes_overlap (op_method (rt_op existing)) (op_method op)) | None \<Rightarrow> collect_routes bm ops (routes @ [r]))"
    using fresh assms(2) unfolding r_def by (auto simp: Let_def)
  with assms(1) have "find ?p routes = None" "collect_routes bm ops (routes @ [r]) = Ok routes'"
    by (cases "find ?p routes"; simp)+
  then show "\<forall>s \<in> set routes. routes_apart s r" "collect_routes bm ops (routes @ [r]) = Ok routes'"
    by (auto simp: routes_apart_def r_def find_None_iff)
qed

lemma collect_routes_ok:
  assumes "collect_routes bm ops routes = Ok routes'" and "routes_ok bm routes"
  shows "routes_ok bm routes' \<and> map rt_op routes' = map rt_op routes @ filter (\<lambda>op. bm (op_method op) \<noteq> None) ops"
  using assms
proof (induction ops arbitrary: routes)
  case (Cons op ops)
  show ?case
  proof (cases "bm (op_method op)")
    case None
    with Cons show ?thesis by (auto split: if_splits)
  next
    case (Some b)
    let ?r = "\<lparr>rt_op = op, rt_binding = b, rt_pattern = parse_pattern (op_path op)\<rparr>"
    note step = collect_routes_step [OF Cons.prems(1) Some]
    have "routes_ok bm (routes @ [?r])"
      using Cons.prems(2) step(1,2) Some by (auto simp: routes_ok_def sorted_wrt_append)
    from Cons.IH [OF step(3) this] Some show ?thesis by simp
  qed
qed simp

lemma build_from_parts_ok:
  assumes "build_from_parts ops bs ls ps = Ok t"
  obtains bm where "collect_bindings bs Map.empty = Ok bm" and "routes_ok bm (tb_routes t)"
    and "map rt_op (tb_routes t) = filter (\<lambda>op. bm (op_method op) \<noteq> None) ops"
    and "collect_locals ls Map.empty = Ok (tb_invokers t)" and "collect_peers ps Map.empty = Ok (tb_peers t)"
    and "tb_remotes t = Map.empty" and "tb_pools t = Map.empty"
proof -
  from assms obtain bm where bm: "collect_bindings bs Map.empty = Ok bm" and
      rest: "collect_routes bm ops [] = Ok (tb_routes t)" "collect_locals ls Map.empty = Ok (tb_invokers t)"
        "collect_peers ps Map.empty = Ok (tb_peers t)" "tb_remotes t = Map.empty" "tb_pools t = Map.empty"
    by (auto simp: build_from_parts_def split: sum.splits)
  from collect_routes_ok [OF rest(1)] have "routes_ok bm (tb_routes t)"
      "map rt_op (tb_routes t) = filter (\<lambda>op. bm (op_method op) \<noteq> None) ops"
    by (simp_all add: routes_ok_def)
  from that [OF bm this rest(2-)] show thesis .
qed

lemma sorted_wrt_unique:
  assumes "sorted_wrt P xs" and "x \<in> set xs" and "y \<in> set xs" and "\<not> P x y" and "\<not> P y x"
  shows "x = y"
  using assms by (induction xs) auto

lemma find_in_unique:
  assumes "r \<in> set routes" and "route_match verb parts r = Some args"
    and "\<And>s. s \<in> set routes \<Longrightarrow> route_match verb parts s \<noteq> None \<Longrightarrow> s = r"
  shows "find_in verb parts routes = Some (r, args)"
  using assms
proof (induction routes)
  case (Cons s routes)
  show ?case
  proof (cases "route_match verb parts s")
    case None
    then have "r \<in> set routes" using Cons.prems(1,2) by auto
    from Cons.IH [OF this Cons.prems(2)] have "find_in verb parts routes = Some (r, args)"
      by (rule meta_mp) (rule Cons.prems(3), simp_all)
    with None show ?thesis by simp
  next
    case (Some a)
    with Cons.prems(2) Cons.prems(3) [of s] show ?thesis by simp
  qed
qed simp

lemma matching_routes_clash:
  assumes "route_match verb parts r \<noteq> None" and "route_match verb parts s \<noteq> None"
  shows "\<not> routes_apart r s"
proof -
  have "eq_ignore_ascii_case (op_verb (rt_op r)) (op_verb (rt_op s))"
    using assms by (auto simp: route_match_def split: if_splits intro: eq_ignore_ascii_case_euclid)
  moreover have "match_pattern (rt_pattern r) parts \<noteq> None" "match_pattern (rt_pattern s) parts \<noteq> None"
    using assms by (auto simp: route_match_def split: if_splits)
  then have "pattern_overlaps (rt_pattern r) (rt_pattern s)"
    unfolding match_pattern_iff pattern_overlaps_iff by (rule common_overlaps)
  ultimately show ?thesis by (simp add: routes_apart_def)
qed

lemma collect_bindings_dom:
  "collect_bindings bs m = Ok m' \<Longrightarrow> m' k \<noteq> None \<longleftrightarrow> m k \<noteq> None \<or> k \<in> ob_method ` set bs"
  by (induction bs arbitrary: m) (auto split: if_splits)

text \<open>
  C18. A route table that builds is unambiguous: it holds exactly the contributed operations that have a
  binding, and whenever a route matches a request no other route does, so that the first match
  found is that route, whatever order the modules contributed in.
\<close>

theorem table_routes_unambiguous:
  assumes "build_from_parts ops bs ls ps = Ok t"
  shows "map rt_op (tb_routes t) = filter (\<lambda>op. op_method op \<in> ob_method ` set bs) ops \<and>
    (\<forall>r \<in> set (tb_routes t). \<forall>verb path args. route_match verb (path_segments path) r = Some args \<longrightarrow>
       find_route t verb path = Some (r, args) \<and>
       (\<forall>s \<in> set (tb_routes t). route_match verb (path_segments path) s \<noteq> None \<longrightarrow> s = r))"
proof -
  obtain bm where bm: "collect_bindings bs Map.empty = Ok bm" and ok: "routes_ok bm (tb_routes t)"
      and ops: "map rt_op (tb_routes t) = filter (\<lambda>op. bm (op_method op) \<noteq> None) ops"
    using build_from_parts_ok [OF assms] by metis
  have "bm k \<noteq> None \<longleftrightarrow> k \<in> ob_method ` set bs" for k using collect_bindings_dom [OF bm] by simp
  with ops have "map rt_op (tb_routes t) = filter (\<lambda>op. op_method op \<in> ob_method ` set bs) ops" by simp
  moreover have uniq: "s = r" if "r \<in> set (tb_routes t)" "s \<in> set (tb_routes t)"
      "route_match verb parts r = Some args" "route_match verb parts s \<noteq> None" for r s verb parts args
  proof (rule sorted_wrt_unique [where P = routes_apart and xs = "tb_routes t"])
    show "sorted_wrt routes_apart (tb_routes t)" using ok by (simp add: routes_ok_def)
    show "\<not> routes_apart s r" "\<not> routes_apart r s" using that matching_routes_clash [of verb parts s r] matching_routes_clash [of verb parts r s] by simp_all
  qed (use that in auto)
  moreover have "find_route t verb path = Some (r, args)"
    if "r \<in> set (tb_routes t)" "route_match verb (path_segments path) r = Some args" for r verb path args
    unfolding find_route_def by (rule find_in_unique [OF that]) (use that uniq in blast)
  ultimately show ?thesis by (intro conjI ballI allI impI) simp_all
qed

section \<open>Routes described by peers\<close>

lemma collect_bindings_member:
  "collect_bindings bs m = Ok m' \<Longrightarrow> (b \<in> set bs \<longrightarrow> m' (ob_method b) = Some b) \<and> (\<forall>k. m k \<noteq> None \<longrightarrow> m' k = m k)"
proof (induction bs arbitrary: m)
  case (Cons b' bs)
  then have fresh: "m (ob_method b') = None" and rest: "collect_bindings bs (m(ob_method b' \<mapsto> b')) = Ok m'"
    by (auto split: if_splits)
  note ih = Cons.IH [OF rest]
  have "m' (ob_method b') = Some (b')" using ih by simp
  moreover have "m' k = m k" if "m k \<noteq> None" for k
  proof -
    have "k \<noteq> ob_method b'" using that fresh by auto
    with that ih show ?thesis by simp
  qed
  ultimately show ?case using ih by auto
qed simp

lemma collect_peers_member:
  "collect_peers ps m = Ok m' \<Longrightarrow> (p \<in> set ps \<longrightarrow> m' (pr_provider p) = Some (pr_addrs p)) \<and> (\<forall>k. m k \<noteq> None \<longrightarrow> m' k = m k)"
proof (induction ps arbitrary: m)
  case (Cons p' ps)
  then have fresh: "m (pr_provider p') = None" and rest: "collect_peers ps (m(pr_provider p' \<mapsto> pr_addrs p')) = Ok m'"
    by (auto split: if_splits)
  note ih = Cons.IH [OF rest]
  have "m' (pr_provider p') = Some (pr_addrs p')" using ih by simp
  moreover have "m' k = m k" if "m k \<noteq> None" for k
  proof -
    have "k \<noteq> pr_provider p'" using that fresh by auto
    with that ih show ?thesis by simp
  qed
  ultimately show ?case using ih by auto
qed simp

lemma check_ops_Ok: "check_ops provider ms = Ok u \<longleftrightarrow> (\<forall>m \<in> set ms. owns_method provider (mf_method m))"
  by (induction ms) auto

lemma check_described_Ok:
  "check_described fetched = Ok u \<Longrightarrow> (provider, addrs, manifest) \<in> set fetched \<Longrightarrow> m \<in> set (dm_ops manifest) \<Longrightarrow>
     owns_method provider (mf_method m)"
  by (induction fetched rule: check_described.induct) (auto simp: check_ops_Ok split: sum.splits)

lemma manifest_operation_method [simp]: "op_method (manifest_operation m) = mf_method m"
  by (simp add: manifest_operation_def)

lemma manifest_binding_method [simp]: "ob_method (manifest_binding jc m) = mf_method m"
  by (simp add: manifest_binding_def)

text \<open>
  C36. Routing as data never sends a request to a peer that does not own it: every route of a table built
  from the peers' manifests is an operation one of those peers advertised under its own provider
  name, is bound to that manifest's decoder, and dispatches remotely to that peer's addresses.
\<close>

theorem described_routes_owned:
  assumes "build_describe_table jc fetched = Ok t"
  shows "\<forall>r \<in> set (tb_routes t). \<exists>provider addrs manifest m.
    (provider, addrs, manifest) \<in> set fetched \<and> m \<in> set (dm_ops manifest) \<and>
    rt_op r = manifest_operation m \<and> rt_binding r = manifest_binding jc m \<and>
    provider_of (op_method (rt_op r)) = provider \<and> provider \<noteq> [] \<and>
    tb_peers t provider = Some addrs \<and> select_kind (tb_invokers t) (op_method (rt_op r)) = Remote"
proof
  fix r assume r: "r \<in> set (tb_routes t)"
  let ?ops = "described_ops fetched"
  let ?ps = "map (\<lambda>(provider, addrs, manifest). \<lparr>pr_provider = provider, pr_addrs = addrs\<rparr>) fetched"
  from assms have chk: "check_described fetched = Ok ()"
      and built: "build_from_parts (map manifest_operation ?ops) (map (manifest_binding jc) ?ops) [] ?ps = Ok t"
    by (auto simp: build_describe_table_def split: sum.splits)
  obtain bm where bm: "collect_bindings (map (manifest_binding jc) ?ops) Map.empty = Ok bm" and ok: "routes_ok bm (tb_routes t)"
      and ops: "map rt_op (tb_routes t) = filter (\<lambda>op. bm (op_method op) \<noteq> None) (map manifest_operation ?ops)"
      and locs: "collect_locals [] Map.empty = Ok (tb_invokers t)" and peers: "collect_peers ?ps Map.empty = Ok (tb_peers t)"
    using build_from_parts_ok [OF built] by metis
  have "rt_op r \<in> set (map rt_op (tb_routes t))" using r by simp
  then obtain m where m: "m \<in> set ?ops" "rt_op r = manifest_operation m" unfolding ops by auto
  then obtain provider addrs manifest where f: "(provider, addrs, manifest) \<in> set fetched" "m \<in> set (dm_ops manifest)"
    by (auto simp: described_ops_def)
  have own: "owns_method provider (mf_method m)" by (rule check_described_Ok [OF chk f])
  have "bm (mf_method m) = Some (manifest_binding jc m)"
    using collect_bindings_member [OF bm, of "manifest_binding jc m"] m(1) by simp
  moreover have "bm (op_method (rt_op r)) = Some (rt_binding r)" using ok r by (simp add: routes_ok_def)
  ultimately have "rt_binding r = manifest_binding jc m" using m(2) by simp
  moreover have "tb_peers t provider = Some addrs"
  proof -
    have "\<lparr>pr_provider = provider, pr_addrs = addrs\<rparr> \<in> set ?ps" using f(1) by (auto intro: rev_image_eqI)
    with collect_peers_member [OF peers, of "\<lparr>pr_provider = provider, pr_addrs = addrs\<rparr>"] show ?thesis by simp
  qed
  moreover have "select_kind (tb_invokers t) (op_method (rt_op r)) = Remote" using locs [symmetric] by (simp add: select_kind_def)
  ultimately show "\<exists>provider addrs manifest m.
    (provider, addrs, manifest) \<in> set fetched \<and> m \<in> set (dm_ops manifest) \<and>
    rt_op r = manifest_operation m \<and> rt_binding r = manifest_binding jc m \<and>
    provider_of (op_method (rt_op r)) = provider \<and> provider \<noteq> [] \<and>
    tb_peers t provider = Some addrs \<and> select_kind (tb_invokers t) (op_method (rt_op r)) = Remote"
    using f m(2) own by (intro exI [of _ provider] exI [of _ addrs] exI [of _ manifest] exI [of _ m]) (simp add: owns_method_def)
qed

section \<open>Refreshing the table\<close>

lemma map_of_hash_insert: "map_of (hash_insert k v m) = (map_of m)(k \<mapsto> v)"
  by (induction m) (auto simp: fun_eq_iff)

lemma learn_other:
  "(\<And>p m. (p, Some m) \<in> set fetched \<Longrightarrow> pr_provider p \<noteq> k) \<Longrightarrow> map_of (learn fetched known) k = map_of known k"
proof (induction fetched arbitrary: known)
  case (Cons f fetched)
  obtain p m where f: "f = (p, m)" by (cases f)
  show ?case
  proof (cases m)
    case None
    with Cons f show ?thesis by (simp add: learn_def)
  next
    case (Some m')
    then have "pr_provider p \<noteq> k" using Cons.prems [of p m'] f by simp
    moreover have "map_of (learn fetched (hash_insert (pr_provider p) (pr_addrs p, m') known)) k
        = map_of (hash_insert (pr_provider p) (pr_addrs p, m') known) k"
      by (rule Cons.IH) (rule Cons.prems, erule list.set_intros(2))
    ultimately show ?thesis using f Some by (simp add: learn_def map_of_hash_insert)
  qed
qed (simp add: learn_def)

lemma publish_caller_sel [simp]:
  "tb_remotes (publish_caller p pool c t) = (tb_remotes t)(p \<mapsto> c)"
  "tb_pools (publish_caller p pool c t) = (case pool of None \<Rightarrow> tb_pools t | Some q \<Rightarrow> (tb_pools t)(p \<mapsto> q))"
  by (auto simp: publish_caller_def Let_def split: option.split)

text \<open>Every pool a request may be sent to can also be stopped.\<close>

definition pools_owned :: "'w route_table \<Rightarrow> bool" where
  "pools_owned t = (\<forall>p c. tb_remotes t p = Some c \<longrightarrow> tb_pools t p = Some c)"

lemma remote_caller_owned: "pools_owned t \<Longrightarrow> pools_owned (snd (remote_caller fresh provider t))"
  by (auto simp: remote_caller_def insert_caller_def pools_owned_def Let_def split: option.split)

lemma adopt_remote_owned: "pools_owned installed \<Longrightarrow> pools_owned t \<Longrightarrow> pools_owned (adopt_remote installed p t)"
  by (auto simp: adopt_remote_def cached_remote_def pools_owned_def split: option.split)

abbreviation adopt_all :: "described \<Rightarrow> 'w route_table \<Rightarrow> described \<Rightarrow> 'w route_table \<Rightarrow> 'w route_table" where
  "adopt_all prev installed known t \<equiv>
     foldl (\<lambda>t (provider, entry). if map_of prev provider = Some entry then adopt_remote installed provider t else t) t known"

lemma adopt_all_owned: "pools_owned installed \<Longrightarrow> pools_owned t \<Longrightarrow> pools_owned (adopt_all prev installed known t)"
proof (induction known arbitrary: t)
  case (Cons e known)
  then show ?case by (cases e) (simp add: adopt_remote_owned)
qed simp

lemma adopt_remote_keeps: "tb_remotes t p = tb_remotes installed p \<Longrightarrow> tb_remotes (adopt_remote installed q t) p = tb_remotes installed p"
  by (auto simp: adopt_remote_def cached_remote_def split: option.split)

lemma adopt_all_keeps:
  "tb_remotes t p = tb_remotes installed p \<Longrightarrow> tb_remotes (adopt_all prev installed known t) p = tb_remotes installed p"
proof (induction known arbitrary: t)
  case (Cons e known)
  then show ?case by (cases e) (simp add: adopt_remote_keeps)
qed simp

lemma adopt_all_adopts:
  "(p, entry) \<in> set known \<Longrightarrow> map_of prev p = Some entry \<Longrightarrow> tb_remotes installed p = Some c \<Longrightarrow>
     tb_remotes (adopt_all prev installed known t) p = Some c"
proof (induction known arbitrary: t)
  case (Cons e known)
  show ?case
  proof (cases "e = (p, entry)")
    case True
    have "tb_remotes (adopt_remote installed p t) p = tb_remotes installed p"
      using Cons.prems(3) by (simp add: adopt_remote_def cached_remote_def)
    from adopt_all_keeps [OF this] show ?thesis using True Cons.prems by simp
  next
    case False
    with Cons show ?thesis by (auto split: prod.splits)
  qed
qed simp

lemma build_describe_fresh: "build_describe_table jc fetched = Ok t \<Longrightarrow> pools_owned t"
proof -
  assume "build_describe_table jc fetched = Ok t"
  then obtain ops bs ls ps where "build_from_parts ops bs ls ps = Ok t"
    unfolding build_describe_table_def by (auto split: sum.splits)
  then have "tb_remotes t = Map.empty" by (rule build_from_parts_ok)
  then show ?thesis by (simp add: pools_owned_def)
qed

abbreviation known_after :: "describe_manifest option list \<Rightarrow> 'w describe_router \<Rightarrow> described" where
  "known_after fetched dr \<equiv> learn (zip (dr_peers dr) fetched) (dr_known dr)"

lemma refresh_once_cases:
  fixes dr :: "'w describe_router"
  obtains (same) "refresh_once jc iter fetched dr = (Ok (), dr\<lparr>dr_known := known_after fetched dr\<rparr>)"
    | (rejected) e where "refresh_once jc iter fetched dr = (Err e, dr\<lparr>dr_known := known_after fetched dr\<rparr>)"
    | (first) t where "build_describe_table jc (iter (known_after fetched dr)) = Ok t" "dr_built dr = None"
        "refresh_once jc iter fetched dr =
           (Ok (), dr\<lparr>dr_known := known_after fetched dr, dr_table := t, dr_built := Some (known_after fetched dr)\<rparr>)"
    | (swapped) t prev where "build_describe_table jc (iter (known_after fetched dr)) = Ok t" "dr_built dr = Some prev"
        "refresh_once jc iter fetched dr = (Ok (), dr\<lparr>dr_known := known_after fetched dr,
           dr_table := adopt_all prev (dr_table dr) (iter (known_after fetched dr)) t, dr_built := Some (known_after fetched dr)\<rparr>)"
proof (cases "case dr_built dr of None \<Rightarrow> False | Some b \<Rightarrow> hash_eq b (known_after fetched dr)")
  case True
  then show thesis by (intro same) (simp add: refresh_once_def Let_def)
next
  case False
  show thesis
  proof (cases "build_describe_table jc (iter (known_after fetched dr)) :: (route_error, 'w route_table) result")
    case (Inl e)
    then show thesis using False by (intro rejected [of e]) (simp add: refresh_once_def Let_def)
  next
    case (Inr t)
    then show thesis using False first [OF Inr] swapped [OF Inr]
      by (cases "dr_built dr") (simp_all add: refresh_once_def Let_def)
  qed
qed

text \<open>
  C37. A refresh pass keeps what it cannot renew. A provider none of whose fetches succeeded keeps its
  last manifest; a rejected build leaves the installed table in place; a provider whose
  addresses and manifest did not change keeps its dispatch pool across the swap; and every pool that
  dispatches stays reachable for teardown.
\<close>

theorem refresh_keeps_last:
  assumes "\<And>m. set (iter m) = set m"
  shows "case refresh_once jc iter fetched dr of (res, dr') \<Rightarrow>
    (\<forall>provider. (\<forall>p m. (p, Some m) \<in> set (zip (dr_peers dr) fetched) \<longrightarrow> pr_provider p \<noteq> provider) \<longrightarrow>
       map_of (dr_known dr') provider = map_of (dr_known dr) provider) \<and>
    (res \<noteq> Ok () \<longrightarrow> dr_table dr' = dr_table dr \<and> dr_built dr' = dr_built dr) \<and>
    (\<forall>prev provider entry c. dr_built dr = Some prev \<and> map_of prev provider = Some entry \<and>
       map_of (dr_known dr') provider = Some entry \<and> tb_remotes (dr_table dr) provider = Some c \<longrightarrow>
       tb_remotes (dr_table dr') provider = Some c) \<and>
    (pools_owned (dr_table dr) \<longrightarrow> pools_owned (dr_table dr'))"
proof -
  let ?known = "known_after fetched dr"
  have keep: "map_of ?known provider = map_of (dr_known dr) provider"
    if "\<forall>p m. (p, Some m) \<in> set (zip (dr_peers dr) fetched) \<longrightarrow> pr_provider p \<noteq> provider" for provider
    by (rule learn_other) (use that in blast)
  have adopts: "tb_remotes (adopt_all prev (dr_table dr) (iter ?known) t) provider = Some c"
    if "map_of prev provider = Some entry" "map_of ?known provider = Some entry" "tb_remotes (dr_table dr) provider = Some c"
    for prev provider entry c t
    by (rule adopt_all_adopts) (use that assms map_of_SomeD in auto)
  show ?thesis
  proof (cases jc iter fetched dr rule: refresh_once_cases)
    case same
    then show ?thesis using keep by simp
  next
    case rejected
    then show ?thesis using keep by simp
  next
    case first
    then show ?thesis using keep build_describe_fresh [OF first(1)] by simp
  next
    case (swapped t prev)
    then show ?thesis using keep adopts build_describe_fresh [OF swapped(1)] adopt_all_owned [of "dr_table dr" t prev "iter ?known"] by simp
  qed
qed

section \<open>Path arguments\<close>

lemma map_of_jinsert: "map_of (jinsert k v m) = (map_of m)(k \<mapsto> v)"
  by (induction m) (auto simp: fun_eq_iff)

definition path_value :: "path_args \<Rightarrow> string \<Rightarrow> string" where
  "path_value path wildcard = (case path wildcard of None \<Rightarrow> [] | Some v \<Rightarrow> v)"

lemma inject_path_simps:
  "inject_path path [] obj = obj"
  "inject_path path ((key, w) # inject) obj = inject_path path inject (jinsert key (JString (path_value path w)) obj)"
  by (simp_all add: inject_path_def path_value_def)

lemma map_of_inject_other: "k \<notin> fst ` set inject \<Longrightarrow> map_of (inject_path path inject obj) k = map_of obj k"
proof (induction inject arbitrary: obj)
  case (Cons e inject)
  then show ?case by (cases e) (simp add: inject_path_simps map_of_jinsert)
qed (simp add: inject_path_simps)

lemma map_of_inject_key:
  "distinct (map fst inject) \<Longrightarrow> (key, w) \<in> set inject \<Longrightarrow> map_of (inject_path path inject obj) key = Some (JString (path_value path w))"
proof (induction inject arbitrary: obj)
  case (Cons e inject)
  obtain k v where e: "e = (k, v)" by (cases e)
  show ?case
  proof (cases "key = k")
    case True
    with Cons.prems e have "v = w" "key \<notin> fst ` set inject" by (auto simp: image_iff)
    with True e show ?thesis by (simp add: inject_path_simps map_of_inject_other map_of_jinsert)
  next
    case False
    with Cons e show ?thesis by (simp add: inject_path_simps)
  qed
qed simp


section \<open>A table of two peers\<close>

definition demo_codec :: json_codec where
  "demo_codec = \<lparr>jc_parse = (\<lambda>s. Ok (JObject [])), jc_write = (\<lambda>v. Ok ''{}''), jc_status = (\<lambda>v. Ok Status_ok)\<rparr>"

definition demo_get :: op_manifest where
  "demo_get = \<lparr>mf_method = ''characters.get'', mf_verb = ''GET'', mf_path = ''/characters/{id}'', mf_auth = Auth_player,
     mf_success = 200, mf_retry = Once_after_reconnect, mf_args = [\<lparr>am_param = ''id'', am_key = ''id'', am_source = Arg_path ''id''\<rparr>]\<rparr>"

definition demo_report :: op_manifest where
  "demo_report = \<lparr>mf_method = ''match.report'', mf_verb = ''POST'', mf_path = ''/match/report'', mf_auth = Auth_none,
     mf_success = 202, mf_retry = Never, mf_args = [\<lparr>am_param = ''winner'', am_key = ''winner'', am_source = Arg_body\<rparr>]\<rparr>"

definition demo_described :: described where
  "demo_described = [(''characters'', [''a:1''], \<lparr>dm_ops = [demo_get]\<rparr>), (''match'', [''b:2''], \<lparr>dm_ops = [demo_report]\<rparr>)]"

lemmas route_eval = build_from_parts_def parse_pattern_def parse_seg_def path_segments_def strip_prefix_def strip_suffix_def
  eq_ignore_ascii_case_def to_ascii_lowercase_def pattern_overlaps_def segs_overlap_def manifest_operation_def manifest_binding_def
  trim_end_matches.simps Let_def

definition demo_table :: "unit route_table" where
  "demo_table = \<lparr>tb_routes =
       [\<lparr>rt_op = manifest_operation demo_get, rt_binding = manifest_binding demo_codec demo_get, rt_pattern = [Lit ''characters'', Wild ''id'']\<rparr>,
        \<lparr>rt_op = manifest_operation demo_report, rt_binding = manifest_binding demo_codec demo_report, rt_pattern = [Lit ''match'', Lit ''report'']\<rparr>],
     tb_invokers = Map.empty, tb_peers = [''characters'' \<mapsto> [''a:1''], ''match'' \<mapsto> [''b:2'']],
     tb_remotes = Map.empty, tb_pools = Map.empty\<rparr>"

lemma demo_parts: "build_from_parts (map manifest_operation [demo_get, demo_report]) (map (manifest_binding demo_codec) [demo_get, demo_report]) []
    [\<lparr>pr_provider = ''characters'', pr_addrs = [''a:1'']\<rparr>, \<lparr>pr_provider = ''match'', pr_addrs = [''b:2'']\<rparr>] = Ok demo_table"
  by (simp add: route_eval demo_get_def demo_report_def demo_table_def)

lemma demo_built: "build_describe_table demo_codec demo_described = Ok demo_table"
  using demo_parts
  by (simp add: build_describe_table_def demo_described_def described_ops_def owns_method_def provider_of_def demo_get_def demo_report_def)

theorem table_routes_unambiguous_witness:
  "find_route demo_table ''GET'' ''/characters/42'' = Some (hd (tb_routes demo_table), [''id'' \<mapsto> ''42''])"
proof -
  have "hd (tb_routes demo_table) \<in> set (tb_routes demo_table)" by (simp add: demo_table_def)
  moreover have "route_match ''GET'' (path_segments ''/characters/42'') (hd (tb_routes demo_table)) = Some [''id'' \<mapsto> ''42'']"
    by (simp add: route_match_def match_pattern_def route_eval demo_table_def demo_get_def)
  ultimately show ?thesis using table_routes_unambiguous [OF demo_parts] by blast
qed

theorem described_routes_owned_witness:
  "\<exists>addrs. tb_peers demo_table ''match'' = Some addrs \<and> (\<exists>manifest. (''match'', addrs, manifest) \<in> set demo_described)"
proof -
  have "last (tb_routes demo_table) \<in> set (tb_routes demo_table)" by (simp add: demo_table_def)
  moreover have "provider_of (op_method (rt_op (last (tb_routes demo_table)))) = ''match''"
    by (simp add: demo_table_def demo_report_def provider_of_def)
  ultimately show ?thesis using described_routes_owned [OF demo_built] by metis
qed

definition demo_router :: "unit describe_router" where
  "demo_router = \<lparr>dr_peers = [\<lparr>pr_provider = ''match'', pr_addrs = [''b:2'']\<rparr>], dr_known = demo_described, dr_built = None, dr_table = demo_table\<rparr>"

theorem refresh_keeps_last_witness:
  "case refresh_once demo_codec (\<lambda>m. m) [None] demo_router of (res, dr') \<Rightarrow> map_of (dr_known dr') ''match'' = Some ([''b:2''], \<lparr>dm_ops = [demo_report]\<rparr>)"
  using refresh_keeps_last [where iter = "\<lambda>m. m" and jc = demo_codec and fetched = "[None]" and dr = demo_router]
  by (auto simp: demo_router_def demo_described_def split: prod.splits)


end
