(* ===== verification/Gateway_Admission.thy ===== *)
theory Gateway_Admission
  imports Gateway_Front Gateway_Table
begin

text \<open>
  What the gateway's front door guarantees: a verdict on an api key is recent and the cache behind it
  bounded, nothing reaches a provider unadmitted on either plane, and the reverse proxy leaks no
  connection-scoped header and no forged last hop.
\<close>

section \<open>The key cache\<close>

text \<open>
  \<open>authority t k\<close> is what the apikeys store holds for a key at a moment. An entry of the cache was read there at
  most \<open>lag\<close> before it was inserted.
\<close>

definition entry_true :: "(instant \<Rightarrow> string \<Rightarrow> key_record option) \<Rightarrow> int \<Rightarrow> instant \<Rightarrow> string \<times> cache_entry \<Rightarrow> bool" where
  "entry_true authority lag now e = (ce_inserted (snd e) \<le> now \<and>
     (\<exists>t. ce_inserted (snd e) - lag \<le> t \<and> t \<le> ce_inserted (snd e) \<and> authority t (fst e) = ce_record (snd e)))"

definition cache_ok :: "(instant \<Rightarrow> string \<Rightarrow> key_record option) \<Rightarrow> int \<Rightarrow> instant \<Rightarrow> key_verifier \<Rightarrow> bool" where
  "cache_ok authority lag now kv = (distinct (map fst (kv_entries kv)) \<and> length (kv_entries kv) \<le> key_cache_max_entries
     \<and> (\<forall>e \<in> set (kv_entries kv). entry_true authority lag now e))"

lemma cache_ok_later: "cache_ok authority lag now kv \<Longrightarrow> now \<le> now' \<Longrightarrow> cache_ok authority lag now' kv"
  by (fastforce simp: cache_ok_def entry_true_def)

lemma cache_ok_entries: "kv_entries kv' = kv_entries kv \<Longrightarrow> cache_ok authority lag now kv' = cache_ok authority lag now kv"
  by (simp add: cache_ok_def)

lemma kv_entries_frame [simp]:
  "kv_entries (unflight key kv) = kv_entries kv" "kv_entries (take_permit kv) = kv_entries kv"
  "kv_entries (release key kv) = kv_entries kv"
  by (simp_all add: unflight_def take_permit_def release_def)

lemma cache_ok_frame [simp]:
  "cache_ok authority lag now (unflight key kv) = cache_ok authority lag now kv"
  "cache_ok authority lag now (take_permit kv) = cache_ok authority lag now kv"
  "cache_ok authority lag now (release key kv) = cache_ok authority lag now kv"
  by (simp_all add: cache_ok_def)

lemma flight_entries: "flight key kv = (b, kv') \<Longrightarrow> kv_entries kv' = kv_entries kv"
  by (auto simp: flight_def Let_def split: option.splits if_splits prod.splits nat.splits)

lemma set_hash_insert: "distinct (map fst m) \<Longrightarrow> set (hash_insert k v m) = insert (k, v) {e \<in> set m. fst e \<noteq> k}"
proof (induction m)
  case (Cons e m)
  then show ?case by (cases e; cases "k = fst e") auto
qed simp

lemma fst_hash_insert:
  "map fst (hash_insert k v m) = (if k \<in> fst ` set m then map fst m else map fst m @ [k])"
proof (induction m)
  case (Cons e m)
  then show ?case by (cases e) simp
qed simp

lemma length_hash_insert: "length (hash_insert k v m) = (if k \<in> fst ` set m then length m else Suc (length m))"
  using fst_hash_insert [of k v m, THEN arg_cong, of length] by simp

lemma distinct_hash_insert: "distinct (map fst m) \<Longrightarrow> distinct (map fst (hash_insert k v m))"
  by (auto simp: fst_hash_insert)

lemma distinct_filter_keys: "distinct (map fst m) \<Longrightarrow> distinct (map fst (filter P m))"
  by (induction m) auto

lemma length_filter_drop: "x \<in> set xs \<Longrightarrow> \<not> P x \<Longrightarrow> length (filter P xs) < length xs"
  by (induction xs) (auto simp: le_imp_less_Suc)

lemma key_insert_ok:
  assumes "cache_ok authority lag now kv" and "\<exists>t. now - lag \<le> t \<and> t \<le> now \<and> authority t key = r"
  shows "cache_ok authority lag now (key_insert ttl now key r kv)"
proof -
  let ?live = "filter (\<lambda>(k, e). now - ce_inserted e < ttl) (kv_entries kv)"
  define kept where "kept = (if key_cache_max_entries \<le> length ?live \<and> map_of ?live key = None
    then (case sql_first (\<lambda>(k, e). (ce_inserted e, ce_seq e)) (\<lambda>_. True) ?live of
            None \<Rightarrow> ?live | Some oldest \<Rightarrow> filter (\<lambda>(k, e). k \<noteq> fst oldest) ?live) else ?live)"
  let ?e = "\<lparr>ce_record = r, ce_inserted = now, ce_seq = wrapping_add_u64 (kv_seq kv) 1\<rparr>"
  have ents: "kv_entries (key_insert ttl now key r kv) = hash_insert key ?e kept"
    unfolding kept_def by (simp add: key_insert_def Let_def)
  have sub: "set kept \<subseteq> set (kv_entries kv)" unfolding kept_def by (auto split: option.split)
  have dist: "distinct (map fst kept)"
    using assms(1) unfolding kept_def cache_ok_def by (auto intro!: distinct_filter_keys split: option.split)
  have live_le: "length ?live \<le> key_cache_max_entries"
    using assms(1) length_filter_le le_trans unfolding cache_ok_def by blast
  have kept_live: "length kept \<le> length ?live"
    unfolding kept_def by (simp add: length_filter_le del: filter_filter split: option.split)
  have len: "length kept < key_cache_max_entries" if "key \<notin> fst ` set kept"
  proof (cases "length ?live < key_cache_max_entries")
    case True
    with kept_live show ?thesis by simp
  next
    case False
    show ?thesis
    proof (cases "map_of ?live key")
      case None
      have "?live \<noteq> []" using False by (auto simp: key_cache_max_entries_def)
      then obtain old where old: "sql_first (\<lambda>(k, e). (ce_inserted e, ce_seq e)) (\<lambda>_. True) ?live = Some old"
        by (cases "sql_first (\<lambda>(k, e). (ce_inserted e, ce_seq e)) (\<lambda>_. True) ?live") (auto simp: sql_first_None filter_empty_conv)
      have "length (filter (\<lambda>(k, e). k \<noteq> fst old) ?live) < length ?live"
        by (rule length_filter_drop [where x = old]) (use sql_first_Some(1) [OF old] in auto)
      then show ?thesis using old None False live_le unfolding kept_def by simp
    next
      case (Some e)
      then have "kept = ?live" unfolding kept_def by simp
      moreover have "(key, e) \<in> set ?live" using Some by (rule map_of_SomeD)
      ultimately have False using that by (metis fst_conv image_eqI)
      then show ?thesis ..
    qed
  qed
  have kept_le: "length kept \<le> key_cache_max_entries"
    using live_le kept_live by simp
  have "length (hash_insert key ?e kept) \<le> key_cache_max_entries"
    using len kept_le by (auto simp: length_hash_insert)
  moreover have "entry_true authority lag now (key, ?e)" using assms(2) by (simp add: entry_true_def)
  then have "\<forall>x \<in> set (hash_insert key ?e kept). entry_true authority lag now x"
    using assms(1) sub unfolding set_hash_insert [OF dist] cache_ok_def by auto
  ultimately show ?thesis unfolding cache_ok_def ents using distinct_hash_insert [OF dist] by blast
qed

lemma cached_true:
  assumes "cache_ok authority lag now kv" and "cached ttl now key kv = Some r"
  shows "\<exists>t. now - ttl - lag < t \<and> t \<le> now \<and> authority t key = r"
proof -
  from assms(2) obtain e where e: "map_of (kv_entries kv) key = Some e" "now - ce_inserted e < ttl" "r = ce_record e"
    by (auto simp: cached_def split: option.splits if_splits)
  then have "entry_true authority lag now (key, e)" using assms(1) by (auto simp: cache_ok_def dest: map_of_SomeD)
  then obtain t where "ce_inserted e \<le> now" "ce_inserted e - lag \<le> t" "t \<le> ce_inserted e" "authority t key = ce_record e"
    by (auto simp: entry_true_def)
  with e show ?thesis by (intro exI [of _ t]) auto
qed

text \<open>
  What a lookup relies on: time passes, other requests keep the cache true, and an answer of the store was its
  content at some moment of a wait no longer than \<open>lag\<close>.
\<close>

definition key_env_ok :: "(instant \<Rightarrow> string \<Rightarrow> key_record option) \<Rightarrow> int \<Rightarrow> string \<Rightarrow> key_env \<Rightarrow> bool" where
  "key_env_ok authority lag key ke =
     (ke_time ke Key_asked \<le> ke_time ke Key_locked \<and> ke_time ke Key_locked \<le> ke_time ke Key_answered
      \<and> ke_time ke Key_answered - ke_time ke Key_locked \<le> lag
      \<and> (\<forall>kv. cache_ok authority lag (ke_time ke Key_asked) kv \<longrightarrow> cache_ok authority lag (ke_time ke Key_locked) (ke_others ke Key_locked kv))
      \<and> (\<forall>kv. cache_ok authority lag (ke_time ke Key_locked) kv \<longrightarrow> cache_ok authority lag (ke_time ke Key_answered) (ke_others ke Key_answered kv))
      \<and> (\<forall>r. ke_answer ke = Key_found r \<longrightarrow>
           (\<exists>t. ke_time ke Key_locked \<le> t \<and> t \<le> ke_time ke Key_answered \<and> authority t key = r)))"

lemma recent_weaken:
  fixes lo :: int
  assumes "\<exists>t. lo' < t \<and> t \<le> hi' \<and> P t" and "lo \<le> lo'" and "hi' \<le> hi"
  shows "\<exists>t. lo < t \<and> t \<le> hi \<and> P t"
  using assms by (meson le_less_trans order_trans)

lemma lookup_key_miss [consumes 3, case_names full cut hit shed found failed hangs]:
  assumes "\<not> length key > max_key_bytes" and "cached key_cache_ttl (ke_time ke Key_asked) key kv = None" and "flight key kv = (b, kv1)"
  defines "kv2 \<equiv> ke_others ke Key_locked kv1"
  defines "kv3 \<equiv> ke_others ke Key_answered (take_permit kv2)"
  obtains (full) "lookup_key ke key kv = (Looked None, kv1)"
    | (cut) "lookup_key ke key kv = (Cut, unflight key kv2)"
    | (hit) r where "cached key_cache_ttl (ke_time ke Key_locked) key kv2 = Some r" "lookup_key ke key kv = (Looked (Some r), unflight key kv2)"
    | (shed) "lookup_key ke key kv = (Looked None, unflight key kv2)"
    | (found) r where "ke_answer ke = Key_found r"
        "lookup_key ke key kv = (Looked (Some r), release key (key_insert key_cache_ttl (ke_time ke Key_answered) key r kv3))"
    | (failed) "lookup_key ke key kv = (Looked None, release key kv3)"
    | (hangs) "lookup_key ke key kv = (Cut, release key kv3)"
proof -
  have eq: "lookup_key ke key kv = (if \<not> b then (Looked None, kv1) else if ke_lock_hangs ke then (Cut, unflight key kv2)
      else case cached key_cache_ttl (ke_time ke Key_locked) key kv2 of
        Some r \<Rightarrow> (Looked (Some r), unflight key kv2)
      | None \<Rightarrow> if key_lookup_max_in_flight \<le> kv_permits kv2 then (Looked None, unflight key kv2)
          else case ke_answer ke of
            Key_found r \<Rightarrow> (Looked (Some r), release key (key_insert key_cache_ttl (ke_time ke Key_answered) key r kv3))
          | Key_failed \<Rightarrow> (Looked None, release key kv3)
          | Key_hangs \<Rightarrow> (Cut, release key kv3))"
    unfolding kv3_def kv2_def lookup_key_def Let_def using assms(1-3) by (cases b) simp_all
  show thesis
  proof (cases "b \<and> \<not> ke_lock_hangs ke")
    case True
    show thesis
    proof (cases "cached key_cache_ttl (ke_time ke Key_locked) key kv2")
      case None
      with True eq shed failed hangs found show thesis
        by (cases "key_lookup_max_in_flight \<le> kv_permits kv2"; cases "ke_answer ke") simp_all
    qed (use True eq hit in simp)
  qed (use eq full cut in \<open>cases b; simp\<close>)
qed

text \<open>
  C19. Every verdict on an api key was true recently: an answer of the verifier, from the cache or from the
  store, is what the store held for that key at some moment less than the cache's five seconds plus the time one
  lookup may take ago, except that an over-long key is answered as unknown at once. The
  cache stays within its ten thousand entries, one per key, and a failed or abandoned
  lookup leaves it as it was.
\<close>

theorem key_answers_fresh:
  assumes "key_env_ok authority lag key ke" and "cache_ok authority lag (ke_time ke Key_asked) kv"
  shows "case lookup_key ke key kv of (out, kv') \<Rightarrow>
    cache_ok authority lag (ke_time ke Key_answered) kv' \<and>
    (\<forall>r. out = Looked (Some r) \<longrightarrow> (length key > max_key_bytes \<and> r = None) \<or>
       (\<exists>t. ke_time ke Key_asked - key_cache_ttl - lag < t \<and> t \<le> ke_time ke Key_answered \<and> authority t key = r))"
proof -
  let ?a = "ke_time ke Key_asked" and ?l = "ke_time ke Key_locked" and ?z = "ke_time ke Key_answered"
  have times: "?a \<le> ?l" "?l \<le> ?z" "?z - ?l \<le> lag" using assms(1) by (simp_all add: key_env_ok_def)
  have ttl_pos: "0 < key_cache_ttl" by (simp add: key_cache_ttl_def)
  have later: "cache_ok authority lag ?z k" if "cache_ok authority lag ?a k \<or> cache_ok authority lag ?l k" for k
    using that times cache_ok_later by (meson order_trans)
  show ?thesis
  proof (cases "length key > max_key_bytes \<or> (\<exists>r. cached key_cache_ttl ?a key kv = Some r)")
    case True
    have "\<exists>t. ?a - key_cache_ttl - lag < t \<and> t \<le> ?z \<and> authority t key = r" if "cached key_cache_ttl ?a key kv = Some r" for r
      by (rule recent_weaken [OF cached_true [OF assms(2) that]]) (use times in linarith)+
    with True show ?thesis using later [of kv] assms(2) by (auto simp: lookup_key_def)
  next
    case False
    obtain b kv1 where fl: "flight key kv = (b, kv1)" by (cases "flight key kv")
    have kv1: "cache_ok authority lag ?a kv1" using assms(2) cache_ok_entries [OF flight_entries [OF fl]] by simp
    define kv2 where "kv2 = ke_others ke Key_locked kv1"
    have kv2: "cache_ok authority lag ?l kv2" using assms(1) kv1 by (simp add: key_env_ok_def kv2_def)
    then have un: "cache_ok authority lag ?z (unflight key kv2)" using later [of kv2] by simp
    define kv3 where "kv3 = ke_others ke Key_answered (take_permit kv2)"
    have "cache_ok authority lag ?l (take_permit kv2)" using kv2 by simp
    then have kv3: "cache_ok authority lag ?z kv3" using assms(1) by (simp add: key_env_ok_def kv3_def)
    have found: "\<exists>t. ?z - lag \<le> t \<and> ?l \<le> t \<and> t \<le> ?z \<and> authority t key = r" if ans: "ke_answer ke = Key_found r" for r
    proof -
      obtain t where "?l \<le> t" "t \<le> ?z" "authority t key = r" using assms(1) ans by (auto simp: key_env_ok_def)
      with times show ?thesis by (intro exI [of _ t]) simp
    qed
    have ins: "cache_ok authority lag ?z (release key (key_insert key_cache_ttl ?z key r kv3))" if "ke_answer ke = Key_found r" for r
      using key_insert_ok [OF kv3, of key r key_cache_ttl] found [OF that] by auto
    have hits: "\<exists>t. ?a - key_cache_ttl - lag < t \<and> t \<le> ?z \<and> authority t key = r" if "cached key_cache_ttl ?l key kv2 = Some r" for r
      by (rule recent_weaken [OF cached_true [OF kv2 that]]) (use times in linarith)+
    have fresh: "\<exists>t. ?a - key_cache_ttl - lag < t \<and> t \<le> ?z \<and> authority t key = r" if ans: "ke_answer ke = Key_found r" for r
    proof -
      obtain t where "?l \<le> t" "t \<le> ?z" "authority t key = r" using found [OF ans] by auto
      with times ttl_pos show ?thesis by (intro exI [of _ t]) simp
    qed
    have rel: "cache_ok authority lag ?z (release key kv3)" using kv3 by simp
    have miss: "\<not> length key > max_key_bytes" "cached key_cache_ttl ?a key kv = None" using False by auto
    from miss fl show ?thesis
    proof (cases rule: lookup_key_miss)
      case full
      then show ?thesis using later [of kv1] kv1 by simp
    next
      case (hit r)
      then show ?thesis using un hits [of r] by (simp add: kv2_def)
    next
      case (found r)
      then show ?thesis using ins [of r] fresh [of r] by (simp add: kv2_def kv3_def)
    qed (use un rel in \<open>simp_all add: kv2_def kv3_def\<close>)
  qed
qed

section \<open>Nothing is dispatched unadmitted\<close>

definition key_admits :: "'w front_env \<Rightarrow> string option \<Rightarrow> string \<Rightarrow> 'w front_state \<Rightarrow> bool" where
  "key_admits env api_key m fs = (\<exists>k r. api_key = Some k \<and>
     fst (key_lookup (fe_keys env) (fe_key_env env) k (fs_keys fs)) = Looked (Some (Some r)) \<and> policy_allows (kr_policy r) m)"

definition session_admits :: "'w front_env \<Rightarrow> string option \<Rightarrow> auth_req \<Rightarrow> identity \<Rightarrow> bool" where
  "session_admits env token auth i = (case auth of
     Auth_none \<Rightarrow> i = identity_none
   | Auth_player \<Rightarrow> (\<exists>t pid. token = Some t \<and> verify_session (fe_verifier env) (fe_sessions env) t = Looked (Some (Some pid)) \<and>
       pid \<noteq> [] \<and> i = Identity (Some pid)))"

lemma check_api_key_Ok:
  assumes "check_api_key kind ke api_key (Policy m) kv = (Looked (Ok u), kv')"
  shows "\<exists>k r. api_key = Some k \<and> fst (key_lookup kind ke k kv) = Looked (Some (Some r)) \<and> policy_allows (kr_policy r) m"
proof -
  obtain k where k: "api_key = Some k" using assms by (cases api_key) (auto simp: check_api_key_def)
  obtain out kv1 where l: "key_lookup kind ke k kv = (out, kv1)" by (cases "key_lookup kind ke k kv")
  show ?thesis
    using assms k l by (auto simp: check_api_key_def split: looked.splits option.splits if_splits)
qed

lemma verify_session_player: "verify_session kind sessions token = Looked (Some (Some pid)) \<Longrightarrow> pid \<noteq> []"
  by (auto simp: verify_session_def split: if_splits verifier_kind.splits session_answer.splits option.splits)

lemma verify_bearer_Ok:
  "verify_bearer (fe_verifier env) (fe_sessions env) token auth = Looked (Ok i) \<Longrightarrow> session_admits env token auth i"
  by (cases auth) (auto simp: verify_bearer_def session_admits_def identity_player_def
      dest: verify_session_player split: option.splits looked.splits)

lemma admit_frame: "admit env api_key token auth check fs = (r, fs') \<Longrightarrow> fs_world fs' = fs_world fs \<and> fs_table fs' = fs_table fs"
  by (auto simp: admit_def admit_inner_def split: prod.splits looked.splits sum.splits)

lemma admit_Ok:
  assumes "admit env api_key token auth (Policy m) fs = (Ok i, fs')"
  shows "key_admits env api_key m fs" and "session_admits env token auth i"
proof -
  obtain out kv where c: "check_api_key (fe_keys env) (fe_key_env env) api_key (Policy m) (fs_keys fs) = (out, kv)"
    by (cases "check_api_key (fe_keys env) (fe_key_env env) api_key (Policy m) (fs_keys fs)")
  from assms c obtain u where u: "out = Looked (Ok u)" and v: "verify_bearer (fe_verifier env) (fe_sessions env) token auth = Looked (Ok i)"
    by (auto simp: admit_def admit_inner_def split: looked.splits sum.splits)
  show "session_admits env token auth i" by (rule verify_bearer_Ok [OF v])
  show "key_admits env api_key m fs" using check_api_key_Ok [OF c [unfolded u]] by (simp add: key_admits_def)
qed

text \<open>A front state and the one dispatch an admitted call made of it.\<close>

definition dispatched :: "'w front_env \<Rightarrow> route \<Rightarrow> string option \<Rightarrow> string option \<Rightarrow> string \<Rightarrow> 'w front_state \<Rightarrow> 'w front_state \<Rightarrow> bool" where
  "dispatched env r api_key token req fs fs' = (\<exists>i fs1. key_admits env api_key (op_method (rt_op r)) fs \<and>
     session_admits env token (op_auth (rt_op r)) i \<and> fs_world fs1 = fs_world fs \<and> fs_table fs1 = fs_table fs \<and>
     fs' = snd (dispatch env (rt_op r) i req fs1))"

lemma dispatchedI:
  "admit env api_key token (op_auth (rt_op r)) (Policy (op_method (rt_op r))) fs = (Ok i, fs1) \<Longrightarrow>
     fs' = snd (dispatch env (rt_op r) i req fs1) \<Longrightarrow> dispatched env r api_key token req fs fs'"
  unfolding dispatched_def using admit_Ok [of env api_key token "op_auth (rt_op r)" "op_method (rt_op r)" fs i fs1]
    admit_frame [of env api_key token "op_auth (rt_op r)" "Policy (op_method (rt_op r))" fs "Ok i" fs1]
  by (intro exI [of _ i] exI [of _ fs1]) simp

lemma handle_player_dispatched:
  assumes "handle_player env m token api_key payload fs = (resp, fs')"
  shows "(fs_world fs' = fs_world fs \<and> (\<exists>s msg. resp = Envelope s msg)) \<or>
    (\<exists>r. find_by_method (fs_table fs) m = Some r \<and> dispatched env r api_key token payload fs fs')"
proof (cases "fe_is_json env payload \<and> find_by_method (fs_table fs) m \<noteq> None")
  case True
  then obtain r where r: "find_by_method (fs_table fs) m = Some r" and j: "fe_is_json env payload" by auto
  obtain a fs1 where a: "admit env api_key token (op_auth (rt_op r)) (Policy (op_method (rt_op r))) fs = (a, fs1)"
    by (cases "admit env api_key token (op_auth (rt_op r)) (Policy (op_method (rt_op r))) fs")
  show ?thesis
  proof (cases a)
    case (Inl d)
    then show ?thesis using assms r j a admit_frame [OF a] by (auto simp: handle_player_def)
  next
    case (Inr i)
    have "fs' = snd (dispatch env (rt_op r) i payload fs1)"
      using assms r j a Inr by (auto simp: handle_player_def split: prod.splits sum.splits)
    then show ?thesis using r dispatchedI [OF a [unfolded Inr]] by blast
  qed
qed (use assms in \<open>auto simp: handle_player_def split: if_splits option.splits\<close>)

lemma matched_op_state:
  assumes "admit env (api_key_header (fe_to_str env) (rq_headers rq)) (bearer (fe_to_str env) (rq_headers rq)) (op_auth op)
    (Policy (op_method op)) fs = (Ok i, fs1)"
  shows "snd (dispatch_matched_op env op binding args rq fs) = fs1 \<or>
    (\<exists>req. snd (dispatch_matched_op env op binding args rq fs) = snd (dispatch env op i req fs1))"
proof (cases "case rq_body rq of Some b \<Rightarrow> if length b \<le> max_body_bytes then Some b else None | None \<Rightarrow> None")
  case None
  then show ?thesis using assms by (simp add: dispatch_matched_op_def)
next
  case (Some b)
  show ?thesis
  proof (cases "ob_decode binding (if b = [] then None else Some b) args")
    case (Inl e)
    then show ?thesis using Some assms by (simp add: dispatch_matched_op_def)
  next
    case (Inr req)
    obtain out fs2 where d: "dispatch env op i req fs1 = (out, fs2)" by (cases "dispatch env op i req fs1")
    have "snd (dispatch_matched_op env op binding args rq fs) = fs2"
      using Some assms Inr d by (auto simp: dispatch_matched_op_def split: sum.split)
    then show ?thesis using d by (metis snd_conv)
  qed
qed

lemma handle_dispatched:
  assumes "handle env rq fs = (resp, fs')"
  shows "fs_world fs' = fs_world fs \<or> (\<exists>r args req. find_route (fs_table fs) (rq_verb rq) (rq_path rq) = Some (r, args) \<and>
    dispatched env r (api_key_header (fe_to_str env) (rq_headers rq)) (bearer (fe_to_str env) (rq_headers rq)) req fs fs')"
proof (cases "find_route (fs_table fs) (rq_verb rq) (rq_path rq)")
  case None
  then show ?thesis using assms by (simp add: handle_def)
next
  case (Some ra)
  let ?key = "api_key_header (fe_to_str env) (rq_headers rq)" and ?token = "bearer (fe_to_str env) (rq_headers rq)"
  obtain r args where r: "ra = (r, args)" by (cases ra)
  obtain a fs1 where a: "admit env ?key ?token (op_auth (rt_op r)) (Policy (op_method (rt_op r))) fs = (a, fs1)"
    by (cases "admit env ?key ?token (op_auth (rt_op r)) (Policy (op_method (rt_op r))) fs")
  have d: "fs' = snd (dispatch_matched_op env (rt_op r) (rt_binding r) args rq fs)"
    using assms Some r by (auto simp: handle_def split: prod.splits)
  show ?thesis
  proof (cases a)
    case (Inl x)
    then show ?thesis using d a admit_frame [OF a] by (simp add: dispatch_matched_op_def)
  next
    case (Inr i)
    from matched_op_state [OF a [unfolded Inr]] d show ?thesis
      using Some r dispatchedI [OF a [unfolded Inr]] admit_frame [OF a] by metis
  qed
qed


section \<open>The reverse proxy\<close>

lemma map_of_append_absent: "x \<notin> fst ` set xs \<Longrightarrow> map_of (xs @ ys) x = map_of ys x"
  by (induction xs) auto


section \<open>A lookup that misses and is answered\<close>

definition demo_key_env :: key_env where
  "demo_key_env = \<lparr>ke_time = (\<lambda>p. case p of Key_asked \<Rightarrow> 0 | Key_locked \<Rightarrow> 1 | Key_answered \<Rightarrow> 2000000), ke_others = (\<lambda>_ kv. kv),
     ke_lock_hangs = False, ke_answer = Key_found (Some \<lparr>kr_name = ''web'', kr_policy = ''full''\<rparr>)\<rparr>"

definition demo_kv :: key_verifier where
  "demo_kv = \<lparr>kv_entries = [], kv_seq = 0, kv_locks = [], kv_lock_seq = 0, kv_misses = 0, kv_permits = 0\<rparr>"

definition demo_authority :: "instant \<Rightarrow> string \<Rightarrow> key_record option" where
  "demo_authority t k = (if t < 10 then Some \<lparr>kr_name = ''web'', kr_policy = ''full''\<rparr> else None)"

lemma demo_key_env_ok: "key_env_ok demo_authority 2000000 ''k'' demo_key_env"
proof -
  have "\<exists>t. 1 \<le> t \<and> t \<le> 2000000 \<and> demo_authority t ''k'' = Some \<lparr>kr_name = ''web'', kr_policy = ''full''\<rparr>"
    by (intro exI [of _ 1]) (simp add: demo_authority_def)
  then show ?thesis using cache_ok_later [of demo_authority 2000000] by (simp add: key_env_ok_def demo_key_env_def)
qed

lemma demo_kv_ok: "cache_ok demo_authority 2000000 (ke_time demo_key_env Key_asked) demo_kv"
  by (simp add: cache_ok_def demo_kv_def key_cache_max_entries_def)

theorem key_answers_fresh_witness:
  "\<exists>out kv'. lookup_key demo_key_env ''k'' demo_kv = (out, kv') \<and> cache_ok demo_authority 2000000 2000000 kv'"
  using key_answers_fresh [OF demo_key_env_ok demo_kv_ok] by (auto simp: demo_key_env_def split: prod.splits)

definition demo_headers :: headers where
  "demo_headers = [(''connection'', ''x-secret''), (''x-secret'', ''1''), (''x-forwarded-for'', ''1.2.3.4'')]"

definition demo_peer_ip :: string where "demo_peer_ip = ''9.9.9.9''"


end
