(* ===== verification/Core_Wiring.thy ===== *)
theory Core_Wiring
  imports Swarog_Prelude
begin

text \<open>
  What the modules of a process share while they are wired: the registry of capabilities
  (\<open>core/registry/src/lib.rs\<close>), the contribution slots (\<open>core/contrib/src/lib.rs\<close>) and the context that
  carries them (\<open>core/lifecycle/src/context.rs\<close>). Values of both are boxed as \<open>Any\<close> and downcast where they
  are read; the closing theorem is that, of wiring that did not fail, no read is of the wrong type.
\<close>

section \<open>Types at run time\<close>

text \<open>A \<open>TypeId\<close>, and a \<open>Box<dyn Any>\<close>: a value under the type it was boxed at.\<close>

type_synonym type_id = nat

datatype 'v any = Any (any_type: type_id) (any_value: 'v)

definition downcast :: "type_id \<Rightarrow> 'v any \<Rightarrow> 'v option" where
  "downcast t a = (if any_type a = t then Some (any_value a) else None)"

text \<open>The panics of the two registries; \<open>Poisoned\<close> is \<open>lock().unwrap()\<close> on a mutex a panic left poisoned.\<close>

datatype panic =
  Already_provided string | Service_not_found string | Not_implemented string type_id
| Slot_type string type_id type_id | Storage_disagrees | Poisoned

section \<open>The service registry\<close>

datatype require_kind = Mandatory | Optional

text \<open>The observer is the log a tool's closure keeps, where one is installed.\<close>

record 'v registry =
  rg_services :: "string \<rightharpoonup> 'v any"
  rg_poisoned :: bool
  rg_observer :: "(require_kind \<times> string) list option"

definition registry_new :: "'v registry" where
  "registry_new = \<lparr>rg_services = Map.empty, rg_poisoned = False, rg_observer = None\<rparr>"

text \<open>A panic while the guard is held poisons the mutex.\<close>

definition provide :: "string \<Rightarrow> type_id \<Rightarrow> 'v \<Rightarrow> 'v registry \<Rightarrow> (panic, unit) result \<times> 'v registry" where
  "provide name t svc rg =
     (if rg_poisoned rg then (Err Poisoned, rg)
      else if rg_services rg name \<noteq> None then (Err (Already_provided name), rg\<lparr>rg_poisoned := True\<rparr>)
      else (Ok (), rg\<lparr>rg_services := (rg_services rg)(name \<mapsto> Any t svc)\<rparr>))"

definition notify_observer :: "require_kind \<Rightarrow> string \<Rightarrow> 'v registry \<Rightarrow> 'v registry" where
  "notify_observer k name rg = rg\<lparr>rg_observer := map_option (\<lambda>log. log @ [(k, name)]) (rg_observer rg)\<rparr>"

definition set_require_observer :: "'v registry \<Rightarrow> 'v registry" where
  "set_require_observer rg = rg\<lparr>rg_observer := Some []\<rparr>"

definition require :: "string \<Rightarrow> type_id \<Rightarrow> 'v registry \<Rightarrow> (panic, 'v) result \<times> 'v registry" where
  "require name t rg =
     (let rg1 = notify_observer Mandatory name rg
      in if rg_poisoned rg1 then (Err Poisoned, rg1)
         else case rg_services rg1 name of
           None \<Rightarrow> (Err (Service_not_found name), rg1\<lparr>rg_poisoned := True\<rparr>)
         | Some svc \<Rightarrow>
             (case downcast t svc of
                Some arc \<Rightarrow> (Ok arc, rg1)
              | None \<Rightarrow> (Err (Not_implemented name t), rg1\<lparr>rg_poisoned := True\<rparr>)))"

definition try_require :: "string \<Rightarrow> type_id \<Rightarrow> 'v registry \<Rightarrow> (panic, 'v option) result \<times> 'v registry" where
  "try_require name t rg =
     (let rg1 = notify_observer Optional name rg
      in if rg_poisoned rg1 then (Err Poisoned, rg1)
         else (Ok (Option.bind (rg_services rg1 name) (downcast t)), rg1))"

definition capability_key :: "string \<Rightarrow> string \<Rightarrow> string" where
  "capability_key modul capability = modul @ ''.'' @ capability"

section \<open>Contribution slots\<close>

text \<open>A slot names a collection and fixes its element type; the storage of a bucket is a boxed vector.\<close>

record slot =
  sl_name :: string
  sl_type :: type_id

record 'v bucket =
  bk_type :: type_id
  bk_values :: "'v list any"

type_synonym 'v slots = "string \<rightharpoonup> 'v bucket"

text \<open>The guard is dropped before a type panic, so the slots are never poisoned by it.\<close>

definition entry_or_new :: "slot \<Rightarrow> 'v slots \<Rightarrow> 'v bucket" where
  "entry_or_new s m = (case m (sl_name s) of
     Some b \<Rightarrow> b | None \<Rightarrow> \<lparr>bk_type = sl_type s, bk_values = Any (sl_type s) []\<rparr>)"

definition slot_clash :: "slot \<Rightarrow> 'v slots \<Rightarrow> panic option" where
  "slot_clash s m = (case m (sl_name s) of
     Some b \<Rightarrow> if bk_type b \<noteq> sl_type s then Some (Slot_type (sl_name s) (bk_type b) (sl_type s)) else None
   | None \<Rightarrow> None)"

definition contribute :: "slot \<Rightarrow> 'v \<Rightarrow> 'v slots \<Rightarrow> (panic, unit) result \<times> 'v slots" where
  "contribute s v m =
     (case slot_clash s m of
        Some p \<Rightarrow> (Err p, m)
      | None \<Rightarrow>
          (let b = entry_or_new s m
           in case downcast (sl_type s) (bk_values b) of
                None \<Rightarrow> (Err Storage_disagrees, m(sl_name s \<mapsto> b))
              | Some vs \<Rightarrow> (Ok (), m(sl_name s \<mapsto> b\<lparr>bk_values := Any (sl_type s) (vs @ [v])\<rparr>))))"

definition contributions :: "slot \<Rightarrow> 'v slots \<Rightarrow> (panic, 'v list) result \<times> 'v slots" where
  "contributions s m =
     (case slot_clash s m of
        Some p \<Rightarrow> (Err p, m)
      | None \<Rightarrow>
          (let b = entry_or_new s m
           in case downcast (sl_type s) (bk_values b) of
                None \<Rightarrow> (Err Storage_disagrees, m(sl_name s \<mapsto> b))
              | Some vs \<Rightarrow> (Ok vs, m(sl_name s \<mapsto> b))))"

section \<open>The context every module is handed\<close>

text \<open>The router is the list of the route trees merged into it.\<close>

record ('v, 'r) app_context =
  cx_registry :: "'v registry"
  cx_slots :: "'v slots"
  cx_router :: "'r list"
  cx_push_sink :: "'v option"
  cx_bus_open :: bool

definition app_context_new :: "('v, 'r) app_context" where
  "app_context_new = \<lparr>cx_registry = registry_new, cx_slots = Map.empty, cx_router = [], cx_push_sink = None, cx_bus_open = True\<rparr>"

definition mount :: "'r \<Rightarrow> ('v, 'r) app_context \<Rightarrow> ('v, 'r) app_context" where
  "mount routes cx = cx\<lparr>cx_router := cx_router cx @ [routes]\<rparr>"

definition take_router :: "('v, 'r) app_context \<Rightarrow> 'r list \<times> ('v, 'r) app_context" where
  "take_router cx = (cx_router cx, cx\<lparr>cx_router := []\<rparr>)"

text \<open>The wiring calls a hook makes on the context, and what they answer.\<close>

datatype 'v wire_op =
  Provide string type_id 'v | Require string type_id | Try_require string type_id
| Contribute slot 'v | Contributions slot

datatype 'v wire_out = Done | Got 'v | Got_option "'v option" | Got_all "'v list" | Panicked panic

definition on_registry :: "('a \<Rightarrow> 'v wire_out) \<Rightarrow> ('v registry \<Rightarrow> (panic, 'a) result \<times> 'v registry) \<Rightarrow>
    ('v, 'r) app_context \<Rightarrow> 'v wire_out \<times> ('v, 'r) app_context" where
  "on_registry f g cx = (case g (cx_registry cx) of
     (Inl p, rg) \<Rightarrow> (Panicked p, cx\<lparr>cx_registry := rg\<rparr>) | (Inr a, rg) \<Rightarrow> (f a, cx\<lparr>cx_registry := rg\<rparr>))"

definition on_slots :: "('a \<Rightarrow> 'v wire_out) \<Rightarrow> ('v slots \<Rightarrow> (panic, 'a) result \<times> 'v slots) \<Rightarrow>
    ('v, 'r) app_context \<Rightarrow> 'v wire_out \<times> ('v, 'r) app_context" where
  "on_slots f g cx = (case g (cx_slots cx) of
     (Inl p, m) \<Rightarrow> (Panicked p, cx\<lparr>cx_slots := m\<rparr>) | (Inr a, m) \<Rightarrow> (f a, cx\<lparr>cx_slots := m\<rparr>))"

fun wire :: "'v wire_op \<Rightarrow> ('v, 'r) app_context \<Rightarrow> 'v wire_out \<times> ('v, 'r) app_context" where
  "wire (Provide n t v) cx = on_registry (\<lambda>_. Done) (provide n t v) cx"
| "wire (Require n t) cx = on_registry Got (require n t) cx"
| "wire (Try_require n t) cx = on_registry Got_option (try_require n t) cx"
| "wire (Contribute s v) cx = on_slots (\<lambda>_. Done) (contribute s v) cx"
| "wire (Contributions s) cx = on_slots Got_all (contributions s) cx"

text \<open>The history of a sequence of calls: each with its answer.\<close>

fun wire_all :: "'v wire_op list \<Rightarrow> ('v, 'r) app_context \<Rightarrow> ('v wire_op \<times> 'v wire_out) list \<times> ('v, 'r) app_context" where
  "wire_all [] cx = ([], cx)"
| "wire_all (op # ops) cx = (case wire op cx of (out, cx1) \<Rightarrow> (case wire_all ops cx1 of (h, cx2) \<Rightarrow> ((op, out) # h, cx2)))"

fun provided :: "string \<Rightarrow> ('v wire_op \<times> 'v wire_out) list \<Rightarrow> 'v any option" where
  "provided n [] = None"
| "provided n ((Provide n' t v, Done) # h) = (if n' = n then Some (Any t v) else provided n h)"
| "provided n (_ # h) = provided n h"

fun contributed :: "string \<Rightarrow> ('v wire_op \<times> 'v wire_out) list \<Rightarrow> 'v any list" where
  "contributed n [] = []"
| "contributed n ((Contribute s v, Done) # h) = (if sl_name s = n then Any (sl_type s) v # contributed n h else contributed n h)"
| "contributed n (_ # h) = contributed n h"

lemma provided_append: "provided n (h @ h') = (case provided n h of Some a \<Rightarrow> Some a | None \<Rightarrow> provided n h')"
  by (induction n h rule: provided.induct) auto

lemma contributed_append: "contributed n (h @ h') = contributed n h @ contributed n h'"
  by (induction n h rule: contributed.induct) auto

text \<open>What the context holds agrees with the history: each service is the one provided under its
  name, each bucket's tag is its storage's type, and its values are the contributions, in order and
  all of that type.\<close>

fun slot_agrees :: "'v any list \<Rightarrow> 'v bucket option \<Rightarrow> bool" where
  "slot_agrees cs None = (cs = [])"
| "slot_agrees cs (Some b) = (any_type (bk_values b) = bk_type b \<and> cs = map (Any (bk_type b)) (any_value (bk_values b)))"

definition wired :: "('v wire_op \<times> 'v wire_out) list \<Rightarrow> ('v, 'r) app_context \<Rightarrow> bool" where
  "wired h cx \<longleftrightarrow> (\<forall>n. rg_services (cx_registry cx) n = provided n h) \<and> (\<forall>n. slot_agrees (contributed n h) (cx_slots cx n))"

lemma wired_new: "wired [] app_context_new"
  by (simp add: wired_def app_context_new_def registry_new_def)

lemma wired_slot:
  assumes "wired h cx" shows "slot_agrees (contributed n h) (cx_slots cx n)"
  using assms by (simp add: wired_def)

lemma wired_entry:
  assumes "wired h cx" "slot_clash s (cx_slots cx) = None"
  obtains vs where "entry_or_new s (cx_slots cx) = \<lparr>bk_type = sl_type s, bk_values = Any (sl_type s) vs\<rparr>"
    and "contributed (sl_name s) h = map (Any (sl_type s)) vs"
proof (cases "cx_slots cx (sl_name s)")
  case None
  then show ?thesis using that [of "[]"] wired_slot [OF assms(1), of "sl_name s"] None by (simp add: entry_or_new_def)
next
  case (Some b)
  then have "bk_type b = sl_type s" using assms(2) by (simp add: slot_clash_def split: if_splits)
  with wired_slot [OF assms(1), of "sl_name s"] Some show ?thesis
    using that [of "any_value (bk_values b)"] Some by (cases b; cases "bk_values b") (simp add: entry_or_new_def)
qed

text \<open>Each call keeps the agreement and answers by it.\<close>

definition answers_by :: "('v wire_op \<times> 'v wire_out) list \<Rightarrow> 'v wire_op \<Rightarrow> 'v wire_out \<Rightarrow> bool" where
  "answers_by h op out = (case op of
     Require n t \<Rightarrow> (case out of Got v \<Rightarrow> provided n h = Some (Any t v) | Panicked _ \<Rightarrow> True | _ \<Rightarrow> False)
   | Try_require n t \<Rightarrow> (case out of Got_option (Some v) \<Rightarrow> provided n h = Some (Any t v)
       | Got_option None \<Rightarrow> (\<forall>v. provided n h \<noteq> Some (Any t v)) | Panicked _ \<Rightarrow> True | _ \<Rightarrow> False)
   | Contributions s \<Rightarrow> (case out of Got_all vs \<Rightarrow> contributed (sl_name s) h = map (Any (sl_type s)) vs
       | Panicked p \<Rightarrow> (\<exists>a. p = Slot_type (sl_name s) a (sl_type s) \<and> a \<noteq> sl_type s) | _ \<Rightarrow> False)
   | Contribute s v \<Rightarrow> (case out of Done \<Rightarrow> set (map any_type (contributed (sl_name s) h)) \<subseteq> {sl_type s}
       | Panicked p \<Rightarrow> (\<exists>a. p = Slot_type (sl_name s) a (sl_type s) \<and> a \<noteq> sl_type s) | _ \<Rightarrow> False)
   | Provide n t v \<Rightarrow> (case out of Done \<Rightarrow> provided n h = None | Panicked _ \<Rightarrow> True | _ \<Rightarrow> False))"

lemma provide_step:
  assumes "provide n t v rg = (r, rg')"
  shows "r = Ok () \<and> rg_services rg n = None \<and> rg_services rg' = (rg_services rg)(n \<mapsto> Any t v)
    \<or> (\<exists>p. r = Err p) \<and> rg_services rg' = rg_services rg"
  using assms by (auto simp: provide_def split: if_splits)

lemma require_step:
  assumes "require n t rg = (r, rg')"
  shows "rg_services rg' = rg_services rg \<and> (case r of Inr v \<Rightarrow> rg_services rg n = Some (Any t v) | Inl p \<Rightarrow> True)"
  using assms by (auto simp: require_def Let_def notify_observer_def downcast_def split: if_splits option.splits)

lemma try_require_step:
  assumes "try_require n t rg = (r, rg')"
  shows "rg_services rg' = rg_services rg \<and> (case r of
      Inr (Some v) \<Rightarrow> rg_services rg n = Some (Any t v) | Inr None \<Rightarrow> (\<forall>v. rg_services rg n \<noteq> Some (Any t v)) | Inl p \<Rightarrow> True)"
  using assms by (cases "rg_services rg n")
    (auto simp: try_require_def Let_def notify_observer_def downcast_def split: if_splits option.splits)

lemma clash_step: "slot_clash s m = Some p \<Longrightarrow> \<exists>a. p = Slot_type (sl_name s) a (sl_type s) \<and> a \<noteq> sl_type s"
  by (auto simp: slot_clash_def split: option.splits if_splits)

lemma wired_registry:
  assumes "wired h cx" "\<And>n. rg_services rg n = provided n (h @ h')" "\<And>n. contributed n h' = []"
  shows "wired (h @ h') (cx\<lparr>cx_registry := rg\<rparr>)"
  using assms by (simp add: wired_def contributed_append)

lemma wired_slots:
  assumes w: "wired h cx" and p: "\<And>n. provided n h' = None" and c: "\<And>n. n \<noteq> sl_name s \<Longrightarrow> contributed n h' = []"
    and vs: "contributed (sl_name s) (h @ h') = map (Any (sl_type s)) vs"
  shows "wired (h @ h') (cx\<lparr>cx_slots := (cx_slots cx)(sl_name s \<mapsto> \<lparr>bk_type = sl_type s, bk_values = Any (sl_type s) vs\<rparr>)\<rparr>)"
proof -
  have "slot_agrees (contributed n (h @ h')) (((cx_slots cx)(sl_name s \<mapsto> \<lparr>bk_type = sl_type s, bk_values = Any (sl_type s) vs\<rparr>)) n)" for n
    using wired_slot [OF w, of n] c [of n] vs by (cases "n = sl_name s") (simp_all add: contributed_append)
  then show ?thesis using w p by (simp add: wired_def provided_append split: option.split)
qed

lemma wired_same:
  assumes "wired h cx" "\<And>n. provided n h' = None" "\<And>n. contributed n h' = []"
  shows "wired (h @ h') cx"
  using assms by (simp add: wired_def contributed_append provided_append split: option.split)

lemma wire_contribute:
  assumes w: "wired h cx" and step: "wire (Contribute s v) cx = (out, cx')"
  shows "wired (h @ [(Contribute s v, out)]) cx' \<and> answers_by h (Contribute s v) out"
proof (cases "slot_clash s (cx_slots cx)")
  case (Some p)
  with w step clash_step [OF Some] show ?thesis
    by (auto simp: on_slots_def contribute_def answers_by_def intro!: wired_same)
next
  case None
  obtain vs where e: "entry_or_new s (cx_slots cx) = \<lparr>bk_type = sl_type s, bk_values = Any (sl_type s) vs\<rparr>"
    "contributed (sl_name s) h = map (Any (sl_type s)) vs" using wired_entry [OF w None] .
  with step None show ?thesis
    by (auto simp: on_slots_def contribute_def downcast_def answers_by_def contributed_append intro!: wired_slots [OF w])
qed

lemma wire_contributions:
  assumes w: "wired h cx" and step: "wire (Contributions s) cx = (out, cx')"
  shows "wired (h @ [(Contributions s, out)]) cx' \<and> answers_by h (Contributions s) out"
proof (cases "slot_clash s (cx_slots cx)")
  case (Some p)
  with w step clash_step [OF Some] show ?thesis
    by (auto simp: on_slots_def contributions_def answers_by_def intro!: wired_same)
next
  case None
  obtain vs where e: "entry_or_new s (cx_slots cx) = \<lparr>bk_type = sl_type s, bk_values = Any (sl_type s) vs\<rparr>"
    "contributed (sl_name s) h = map (Any (sl_type s)) vs" using wired_entry [OF w None] .
  with step None show ?thesis
    by (auto simp: on_slots_def contributions_def downcast_def answers_by_def contributed_append intro!: wired_slots [OF w])
qed

lemma wire_step:
  assumes w: "wired h cx" and step: "wire op cx = (out, cx')"
  shows "wired (h @ [(op, out)]) cx' \<and> answers_by h op out"
proof (cases op)
  case (Provide n t v)
  obtain r rg where p: "provide n t v (cx_registry cx) = (r, rg)" by fastforce
  from provide_step [OF p] show ?thesis
  proof
    assume "r = Ok () \<and> rg_services (cx_registry cx) n = None \<and> rg_services rg = (rg_services (cx_registry cx))(n \<mapsto> Any t v)"
    then show ?thesis using step w Provide p
      by (auto simp: on_registry_def answers_by_def wired_def intro!: wired_registry)
        (auto simp: provided_append contributed_append wired_def fun_eq_iff split: option.splits)
  next
    assume "(\<exists>x. r = Err x) \<and> rg_services rg = rg_services (cx_registry cx)"
    then show ?thesis using step w Provide p
      by (auto simp: on_registry_def answers_by_def provided_append contributed_append wired_def intro!: wired_registry split: option.splits)
  qed
next
  case (Require n t)
  obtain r rg where p: "require n t (cx_registry cx) = (r, rg)" by fastforce
  from require_step [OF p] step w Require p show ?thesis
    by (auto simp: on_registry_def answers_by_def provided_append contributed_append wired_def intro!: wired_registry split: option.splits sum.splits)
next
  case (Try_require n t)
  obtain r rg where p: "try_require n t (cx_registry cx) = (r, rg)" by fastforce
  from try_require_step [OF p] step w Try_require p show ?thesis
    by (auto simp: on_registry_def answers_by_def provided_append contributed_append wired_def intro!: wired_registry split: option.splits sum.splits)
next
  case (Contribute s v)
  then show ?thesis using wire_contribute [OF w] step by simp
next
  case (Contributions s)
  then show ?thesis using wire_contributions [OF w] step by simp
qed

lemma wire_all_steps:
  assumes "wired h0 cx" "wire_all ops cx = (h, cx')"
  shows "wired (h0 @ h) cx' \<and> (\<forall>i<length h. answers_by (h0 @ take i h) (fst (h ! i)) (snd (h ! i)))"
  using assms
proof (induction ops arbitrary: h0 cx h)
  case Nil
  then show ?case by simp
next
  case (Cons op ops)
  obtain out cx1 where s: "wire op cx = (out, cx1)" by fastforce
  obtain h1 cx2 where t: "wire_all ops cx1 = (h1, cx2)" by fastforce
  have h: "h = (op, out) # h1" "cx' = cx2" using Cons.prems(2) s t by simp_all
  note st = wire_step [OF Cons.prems(1) s]
  from Cons.IH [OF conjunct1 [OF st], of h1] t h st show ?case
    by (auto simp: nth_Cons less_Suc_eq_0_disj split: nat.split)
qed

text \<open>
  C12. The wiring is type-sound. Along any sequence of calls the modules make on a fresh context, panics included:
  a required service is the one and only value provided under that name, at the type asked for, and an
  optional lookup finds none only where no such value was provided; a slot's contributions are read in
  the order they were made and every one of them was made at the type they are read at; a contribution
  to a slot used at another type panics by naming both types and is never stored; and the storage of a
  slot always has the type the slot is tagged with, so the check behind it never fails.
\<close>
theorem wiring_typed:
  assumes "wire_all ops app_context_new = (h, cx)"
  shows "(\<forall>i<length h. answers_by (take i h) (fst (h ! i)) (snd (h ! i)))
    \<and> (\<forall>n b. cx_slots cx n = Some b \<longrightarrow>
         any_type (bk_values b) = bk_type b \<and> contributed n h = map (Any (bk_type b)) (any_value (bk_values b)))"
proof -
  note w = wire_all_steps [OF wired_new assms]
  have "cx_slots cx n = Some b \<Longrightarrow> any_type (bk_values b) = bk_type b \<and> contributed n h = map (Any (bk_type b)) (any_value (bk_values b))" for n b
    using wired_slot [of h cx n] w by simp
  with w show ?thesis by simp
qed

definition demo_slot :: "type_id \<Rightarrow> slot" where
  "demo_slot t = \<lparr>sl_name = ''readiness'', sl_type = t\<rparr>"

definition demo_calls :: "nat wire_op list" where
  "demo_calls = [Contribute (demo_slot 0) 5, Provide ''wallet.wallet'' 1 9, Contribute (demo_slot 2) 6, Contribute (demo_slot 0) 7,
     Require ''wallet.wallet'' 1, Contributions (demo_slot 0)]"

theorem wiring_typed_witness:
  "let h = fst (wire_all demo_calls (app_context_new :: (nat, nat) app_context))
   in length h = 6 \<and> snd (h ! 2) = Panicked (Slot_type ''readiness'' 0 2) \<and> snd (h ! 4) = Got 9 \<and> snd (h ! 5) = Got_all [5, 7]
     \<and> provided ''wallet.wallet'' (take 4 h) = Some (Any 1 9) \<and> contributed ''readiness'' (take 5 h) = [Any 0 5, Any 0 7]"
proof -
  obtain h cx where w: "wire_all demo_calls (app_context_new :: (nat, nat) app_context) = (h, cx)" by fastforce
  have h: "h = zip demo_calls [Done, Done, Panicked (Slot_type ''readiness'' 0 2), Done, Got 9, Got_all [5, 7]]"
    using w by (simp add: demo_calls_def demo_slot_def on_slots_def on_registry_def contribute_def contributions_def provide_def require_def
        slot_clash_def entry_or_new_def downcast_def notify_observer_def app_context_new_def registry_new_def Let_def)
  then have "length h = 6" by (simp add: demo_calls_def)
  then have "answers_by (take 4 h) (fst (h ! 4)) (snd (h ! 4))" "answers_by (take 5 h) (fst (h ! 5)) (snd (h ! 5))"
    using wiring_typed [OF w] by simp_all
  then show ?thesis using w h by (simp add: demo_calls_def demo_slot_def answers_by_def)
qed

end
