(* ===== verification/App_Run.thy ===== *)
theory App_Run
  imports Core_Wiring
begin

text \<open>
  A process from configuration to exit: the module lifecycle (\<open>core/lifecycle/src/app.rs\<close>: registration,
  migration under the schema locks, start, stop) and the run of an application on it
  (\<open>core/app/src/lib.rs\<close>: opening, wiring, validation, start, listening, the ordered teardown). Every action
  with an effect outside the process is recorded in a trace.
\<close>

section \<open>Modules and what a process runs\<close>

text \<open>A hook answers, fails or panics; a \<open>stop\<close> may also outlast its grace. What the hooks act on is the
  shared context together with everything outside the process, of type \<open>'w\<close>.\<close>

datatype hook = Fine | Failed string | Unwinds
datatype stop_hook = Stop_fine | Stop_failed string | Stop_hangs | Stop_unwinds

type_synonym ('v, 'r, 'w) world = "('v, 'r) app_context \<times> 'w"
type_synonym ('v, 'r, 'w) hook_fun = "('v, 'r, 'w) world \<Rightarrow> hook \<times> ('v, 'r, 'w) world"

record ('v, 'r, 'w) modul =
  md_name :: string
  md_requires :: "string list"
  md_register :: "('v, 'r, 'w) hook_fun"
  md_init :: "('v, 'r, 'w) hook_fun"
  md_migrate :: "('v, 'r, 'w) hook_fun"
  md_start :: "('v, 'r, 'w) hook_fun"
  md_stop :: "('v, 'r, 'w) world \<Rightarrow> stop_hook \<times> ('v, 'r, 'w) world"

datatype step =
  Register string | Init string | Edge_install | Plane_migrate | Lock | Migrate string | Unlock
| Start string | Inval_start | Plane_start | Edge_listen | Player_listen | Router | Serve
| Player_close | Edge_close | Plane_stop | Inval_stop | Bus_close | Stop string

text \<open>The trace of a run: a step is called, and did its work if it answered without an error.\<close>

datatype act = Call step | Did step

text \<open>An error with its contexts, outermost first.\<close>

datatype wrap =
  Open_db | Plane_new | Inval_new | Missing_provider string string | Pool_too_small nat | Two_sinks nat | Startup_failed
| In_step step | Migrate_failed | Start_failed | Lock_timed_out | Lock_failed

record anyhow =
  ah_contexts :: "wrap list"
  ah_cause :: string

record ('v, 'r, 'w) run_state =
  st_world :: "('v, 'r, 'w) world"
  st_trace :: "act list"
  st_edge_up :: bool
  st_player_up :: bool
  st_modules_started :: bool
  st_checks :: "'v list"
  st_router :: "'r list"

text \<open>The answer of a piece of a run; \<open>None\<close> is a panic unwinding through it.\<close>

type_synonym ('v, 'r, 'w) ran = "(anyhow, unit) result option \<times> ('v, 'r, 'w) run_state"

definition bail :: "wrap \<Rightarrow> string \<Rightarrow> ('v, 'r, 'w) run_state \<Rightarrow> ('v, 'r, 'w) ran" where
  "bail c e s = (Some (Err \<lparr>ah_contexts = [c], ah_cause = e\<rparr>), s)"

definition with_context :: "wrap \<Rightarrow> ('v, 'r, 'w) ran \<Rightarrow> ('v, 'r, 'w) ran" where
  "with_context c r = (case r of
     (Some (Inl e), s) \<Rightarrow> (Some (Err (e\<lparr>ah_contexts := c # ah_contexts e\<rparr>)), s) | (r', s) \<Rightarrow> (r', s))"

definition and_then :: "('v, 'r, 'w) ran \<Rightarrow> (('v, 'r, 'w) run_state \<Rightarrow> ('v, 'r, 'w) ran) \<Rightarrow> ('v, 'r, 'w) ran" where
  "and_then r k = (case r of (Some (Inr _), s) \<Rightarrow> k s | (r', s) \<Rightarrow> (r', s))"

definition log_act :: "act \<Rightarrow> ('v, 'r, 'w) run_state \<Rightarrow> ('v, 'r, 'w) run_state" where
  "log_act a s = s\<lparr>st_trace := st_trace s @ [a]\<rparr>"

definition call_hook :: "step \<Rightarrow> ('v, 'r, 'w) hook_fun \<Rightarrow> ('v, 'r, 'w) run_state \<Rightarrow> ('v, 'r, 'w) ran" where
  "call_hook p f s =
     (case f (st_world s) of (h, w) \<Rightarrow>
        (let s1 = log_act (Call p) (s\<lparr>st_world := w\<rparr>)
         in case h of
              Fine \<Rightarrow> (Some (Ok ()), log_act (Did p) s1)
            | Failed e \<Rightarrow> bail (In_step p) e s1
            | Unwinds \<Rightarrow> (None, s1)))"

definition call_total :: "step \<Rightarrow> (('v, 'r, 'w) world \<Rightarrow> ('v, 'r, 'w) world) \<Rightarrow> ('v, 'r, 'w) run_state \<Rightarrow> ('v, 'r, 'w) ran" where
  "call_total p f s = (Some (Ok ()), log_act (Did p) (log_act (Call p) (s\<lparr>st_world := f (st_world s)\<rparr>)))"

fun each :: "('m \<Rightarrow> ('v, 'r, 'w) run_state \<Rightarrow> ('v, 'r, 'w) ran) \<Rightarrow> 'm list \<Rightarrow> ('v, 'r, 'w) run_state \<Rightarrow> ('v, 'r, 'w) ran" where
  "each f [] s = (Some (Ok ()), s)"
| "each f (m # ms) s = and_then (f m s) (each f ms)"

section \<open>The module lifecycle\<close>

record ('v, 'r, 'w) app =
  ap_modules :: "('v, 'r, 'w) modul list"
  ap_names :: "string list"

definition app_new :: "('v, 'r, 'w) app" where
  "app_new = \<lparr>ap_modules = [], ap_names = []\<rparr>"

text \<open>\<open>None\<close> is the panic on a name added twice.\<close>

definition add :: "('v, 'r, 'w) modul \<Rightarrow> ('v, 'r, 'w) app \<Rightarrow> ('v, 'r, 'w) app option" where
  "add m ap = (if md_name m \<in> set (ap_names ap) then None
     else Some (ap\<lparr>ap_names := md_name m # ap_names ap, ap_modules := ap_modules ap @ [m]\<rparr>))"

fun add_all :: "('v, 'r, 'w) modul list \<Rightarrow> ('v, 'r, 'w) app \<Rightarrow> ('v, 'r, 'w) app option" where
  "add_all [] ap = Some ap"
| "add_all (m # ms) ap = Option.bind (add m ap) (add_all ms)"

definition build :: "('v, 'r, 'w) app \<Rightarrow> ('v, 'r, 'w) run_state \<Rightarrow> ('v, 'r, 'w) ran" where
  "build ap s = and_then (each (\<lambda>m. call_hook (Register (md_name m)) (md_register m)) (ap_modules ap) s)
     (each (\<lambda>m. call_hook (Init (md_name m)) (md_init m)) (ap_modules ap))"

definition run_migrations :: "('v, 'r, 'w) app \<Rightarrow> ('v, 'r, 'w) run_state \<Rightarrow> ('v, 'r, 'w) ran" where
  "run_migrations ap = each (\<lambda>m. call_hook (Migrate (md_name m)) (md_migrate m)) (ap_modules ap)"

text \<open>What the lock connection meets: acquiring it, the two statements before the migrations, and the
  unlock after them. A lock error carries its SQLSTATE.\<close>

record lock_env =
  le_acquire :: "string option"
  le_set_timeout :: "string option"
  le_lock :: "(string \<times> string) option"
  le_unlock :: "string option"

definition migrate_with_lock_timeout :: "bool \<Rightarrow> lock_env \<Rightarrow> ('v, 'r, 'w) app \<Rightarrow> ('v, 'r, 'w) run_state \<Rightarrow> ('v, 'r, 'w) ran" where
  "migrate_with_lock_timeout db le ap s =
     (if \<not> db then run_migrations ap s
      else case le_acquire le of
        Some e \<Rightarrow> bail Lock_failed e s
      | None \<Rightarrow>
      (case le_set_timeout le of
        Some e \<Rightarrow> bail Lock_failed e s
      | None \<Rightarrow>
      (case le_lock le of
        Some (code, e) \<Rightarrow> bail (if code = ''55P03'' then Lock_timed_out else Lock_failed) e (log_act (Call Lock) s)
      | None \<Rightarrow>
          (case run_migrations ap (log_act (Did Lock) (log_act (Call Lock) s)) of
             (None, s1) \<Rightarrow> (None, s1)
           | (Some loop_result, s1) \<Rightarrow>
               (let s2 = log_act (Call Unlock) s1
                in case loop_result of
                     Inl e \<Rightarrow> (Some (Err e), s2)
                   | Inr _ \<Rightarrow> (case le_unlock le of Some e \<Rightarrow> bail Lock_failed e s2 | None \<Rightarrow> (Some (Ok ()), log_act (Did Unlock) s2)))))))"

text \<open>One bounded \<open>stop\<close>: an error or an elapsed grace is logged and the teardown goes on.\<close>

definition stop_one :: "('v, 'r, 'w) modul \<Rightarrow> ('v, 'r, 'w) run_state \<Rightarrow> ('v, 'r, 'w) ran" where
  "stop_one m s =
     (case md_stop m (st_world s) of (h, w) \<Rightarrow>
        (let s1 = log_act (Call (Stop (md_name m))) (s\<lparr>st_world := w\<rparr>)
         in case h of Stop_unwinds \<Rightarrow> (None, s1) | _ \<Rightarrow> (Some (Ok ()), s1)))"

definition app_stop :: "('v, 'r, 'w) app \<Rightarrow> ('v, 'r, 'w) run_state \<Rightarrow> ('v, 'r, 'w) ran" where
  "app_stop ap = each stop_one (rev (ap_modules ap))"

text \<open>A failed \<open>start\<close> stops the modules started before it, in reverse, and keeps its own error.\<close>

fun start_from :: "('v, 'r, 'w) modul list \<Rightarrow> ('v, 'r, 'w) modul list \<Rightarrow> ('v, 'r, 'w) run_state \<Rightarrow> ('v, 'r, 'w) ran" where
  "start_from started [] s = (Some (Ok ()), s)"
| "start_from started (m # ms) s =
     (case call_hook (Start (md_name m)) (md_start m) s of
        (None, s1) \<Rightarrow> (None, s1)
      | (Some (Inr _), s1) \<Rightarrow> start_from (started @ [m]) ms s1
      | (Some (Inl err), s1) \<Rightarrow>
          (case each stop_one (rev started) s1 of (None, s2) \<Rightarrow> (None, s2) | (Some _, s2) \<Rightarrow> (Some (Err err), s2)))"

definition app_start :: "('v, 'r, 'w) app \<Rightarrow> ('v, 'r, 'w) run_state \<Rightarrow> ('v, 'r, 'w) ran" where
  "app_start ap = start_from [] (ap_modules ap)"

section \<open>Booting a process\<close>

record config =
  cf_database_url :: "string option"
  cf_db_pool_max :: nat
  cf_edge_server :: bool
  cf_player_server :: bool

text \<open>What the process meets outside the modules. The checks are the readiness checks the runner itself
  contributes for its planes; the router step stands for the assembly of the HTTP stack, whose rate-limit
  and proxy settings can be refused.\<close>

record ('v, 'r, 'w) run_env =
  re_connect :: "string option"
  re_plane_new :: "string option"
  re_inval_new :: "string option"
  re_checks :: "'v list"
  re_edge_install :: "('v, 'r, 'w) hook_fun"
  re_plane_migrate :: "('v, 'r, 'w) hook_fun"
  re_lock :: lock_env
  re_inval_start :: "('v, 'r, 'w) hook_fun"
  re_plane_start :: "('v, 'r, 'w) hook_fun"
  re_edge_listen :: "('v, 'r, 'w) hook_fun"
  re_player_listen :: "('v, 'r, 'w) hook_fun"
  re_router :: "('v, 'r, 'w) hook_fun"
  re_serve :: "('v, 'r, 'w) hook_fun"
  re_close :: "step \<Rightarrow> ('v, 'r, 'w) world \<Rightarrow> ('v, 'r, 'w) world"

definition min_db_pool_max :: nat where "min_db_pool_max = 2"

definition validate_pool_max :: "nat \<Rightarrow> wrap option" where
  "validate_pool_max n = (if n < min_db_pool_max then Some (Pool_too_small n) else None)"

definition select_push_sink :: "'v list \<Rightarrow> (wrap, 'v option) result" where
  "select_push_sink sinks = (if length sinks > 1 then Err (Two_sinks (length sinks))
     else Ok (case sinks of [] \<Rightarrow> None | s # _ \<Rightarrow> Some s))"

definition validate_requires :: "('v, 'r, 'w) modul list \<Rightarrow> wrap option" where
  "validate_requires ms =
     (case [(md_name m, d). m \<leftarrow> ms, d \<leftarrow> md_requires m, d \<notin> set (map md_name ms)] of
        [] \<Rightarrow> None | (n, d) # _ \<Rightarrow> Some (Missing_provider n d))"

text \<open>The two slots the runner itself reads and fills; the numbers stand for their type ids.\<close>

definition sink_slot :: slot where "sink_slot = \<lparr>sl_name = ''push.sink'', sl_type = 1\<rparr>"
definition readiness_slot :: slot where "readiness_slot = \<lparr>sl_name = ''readiness.check'', sl_type = 2\<rparr>"

definition in_slots :: "('v slots \<Rightarrow> (panic, 'a) result \<times> 'v slots) \<Rightarrow> ('a \<Rightarrow> ('v, 'r, 'w) run_state \<Rightarrow> ('v, 'r, 'w) ran) \<Rightarrow>
    ('v, 'r, 'w) run_state \<Rightarrow> ('v, 'r, 'w) ran" where
  "in_slots f k s = (case st_world s of (cx, w) \<Rightarrow>
     (case f (cx_slots cx) of
        (Inl p, m) \<Rightarrow> (None, s\<lparr>st_world := (cx\<lparr>cx_slots := m\<rparr>, w)\<rparr>)
      | (Inr a, m) \<Rightarrow> k a (s\<lparr>st_world := (cx\<lparr>cx_slots := m\<rparr>, w)\<rparr>)))"

definition install_sink :: "'v option \<Rightarrow> ('v, 'r, 'w) run_state \<Rightarrow> ('v, 'r, 'w) run_state" where
  "install_sink snk s = (case snk of None \<Rightarrow> s
     | Some v \<Rightarrow> (case st_world s of (cx, w) \<Rightarrow> s\<lparr>st_world := (cx\<lparr>cx_push_sink := Some v\<rparr>, w)\<rparr>))"

definition keep_router :: "('v, 'r, 'w) run_state \<Rightarrow> ('v, 'r, 'w) run_state" where
  "keep_router s = (case st_world s of (cx, w) \<Rightarrow> (case take_router cx of (r, cx') \<Rightarrow> s\<lparr>st_world := (cx', w), st_router := r\<rparr>))"

text \<open>Opening the pool and the two planes; \<open>None\<close> as the error is that everything opened.\<close>

definition open_process :: "('v, 'r, 'w) run_env \<Rightarrow> config \<Rightarrow> (wrap \<times> string) option" where
  "open_process env cfg = (case cf_database_url cfg of
     None \<Rightarrow> None
   | Some dsn \<Rightarrow>
       (case validate_pool_max (cf_db_pool_max cfg) of
          Some c \<Rightarrow> Some (c, [])
        | None \<Rightarrow>
            (case re_connect env of Some e \<Rightarrow> Some (Open_db, e) | None \<Rightarrow>
            (case re_plane_new env of Some e \<Rightarrow> Some (Plane_new, e) | None \<Rightarrow>
            (case re_inval_new env of Some e \<Rightarrow> Some (Inval_new, e) | None \<Rightarrow> None)))))"

text \<open>From the built modules to the servers ready to listen: the sink, the runner's own checks, the
  snapshot of every check, the edge registrations and the router the modules mounted.\<close>

definition wire_process :: "('v, 'r, 'w) run_env \<Rightarrow> config \<Rightarrow> ('v, 'r, 'w) run_state \<Rightarrow> ('v, 'r, 'w) ran" where
  "wire_process env cfg =
     in_slots (contributions sink_slot) (\<lambda>sinks s.
       (case select_push_sink sinks of
          Inl c \<Rightarrow> bail c [] s
        | Inr snk \<Rightarrow>
            and_then
              (each (\<lambda>v. in_slots (contribute readiness_slot v) (\<lambda>_ s. (Some (Ok ()), s)))
                 (if cf_database_url cfg = None then [] else re_checks env) (install_sink snk s))
              (in_slots (contributions readiness_slot) (\<lambda>checks s.
                 and_then (if cf_edge_server cfg then call_hook Edge_install (re_edge_install env) s else (Some (Ok ()), s))
                   (\<lambda>s. (Some (Ok ()), keep_router (s\<lparr>st_checks := checks\<rparr>)))))))"

definition on_db :: "config \<Rightarrow> step \<Rightarrow> ('v, 'r, 'w) hook_fun \<Rightarrow> ('v, 'r, 'w) run_state \<Rightarrow> ('v, 'r, 'w) ran" where
  "on_db cfg p f s = (if cf_database_url cfg \<noteq> None then call_hook p f s else (Some (Ok ()), s))"

text \<open>The part whose failure unwinds through the teardown: migrations, starts, listeners, serving.\<close>

definition migrate_all :: "('v, 'r, 'w) run_env \<Rightarrow> config \<Rightarrow> ('v, 'r, 'w) app \<Rightarrow> ('v, 'r, 'w) run_state \<Rightarrow> ('v, 'r, 'w) ran" where
  "migrate_all env cfg ap s = and_then (on_db cfg Plane_migrate (re_plane_migrate env) s)
     (\<lambda>s. with_context Migrate_failed (migrate_with_lock_timeout (cf_database_url cfg \<noteq> None) (re_lock env) ap s))"

definition start_planes :: "('v, 'r, 'w) run_env \<Rightarrow> config \<Rightarrow> ('v, 'r, 'w) run_state \<Rightarrow> ('v, 'r, 'w) ran" where
  "start_planes env cfg s = and_then (on_db cfg Inval_start (re_inval_start env) s) (on_db cfg Plane_start (re_plane_start env))"

definition start_process :: "('v, 'r, 'w) run_env \<Rightarrow> config \<Rightarrow> ('v, 'r, 'w) app \<Rightarrow> ('v, 'r, 'w) run_state \<Rightarrow> ('v, 'r, 'w) ran" where
  "start_process env cfg ap s =
     and_then (migrate_all env cfg ap s) (\<lambda>s.
     and_then (with_context Start_failed (app_start ap s)) (\<lambda>s. start_planes env cfg (s\<lparr>st_modules_started := True\<rparr>)))"

definition listen_on :: "bool \<Rightarrow> step \<Rightarrow> ('v, 'r, 'w) hook_fun \<Rightarrow> (('v, 'r, 'w) run_state \<Rightarrow> ('v, 'r, 'w) run_state) \<Rightarrow>
    ('v, 'r, 'w) run_state \<Rightarrow> ('v, 'r, 'w) ran" where
  "listen_on built p f running s =
     (if built then and_then (call_hook p f s) (\<lambda>s. (Some (Ok ()), running s)) else (Some (Ok ()), s))"

definition listen_and_serve :: "('v, 'r, 'w) run_env \<Rightarrow> config \<Rightarrow> ('v, 'r, 'w) run_state \<Rightarrow> ('v, 'r, 'w) ran" where
  "listen_and_serve env cfg s =
     and_then (listen_on (cf_edge_server cfg) Edge_listen (re_edge_listen env) (\<lambda>s. s\<lparr>st_edge_up := True\<rparr>) s) (\<lambda>s.
     and_then (listen_on (cf_player_server cfg) Player_listen (re_player_listen env) (\<lambda>s. s\<lparr>st_player_up := True\<rparr>) s) (\<lambda>s.
     and_then (call_hook Router (re_router env) s) (call_hook Serve (re_serve env))))"

definition close_bus :: "(step \<Rightarrow> ('v, 'r, 'w) world \<Rightarrow> ('v, 'r, 'w) world) \<Rightarrow> ('v, 'r, 'w) world \<Rightarrow> ('v, 'r, 'w) world" where
  "close_bus f w = (case f Bus_close w of (cx, x) \<Rightarrow> (cx\<lparr>cx_bus_open := False\<rparr>, x))"

definition on_close :: "('v, 'r, 'w) run_env \<Rightarrow> bool \<Rightarrow> step \<Rightarrow> ('v, 'r, 'w) run_state \<Rightarrow> ('v, 'r, 'w) ran" where
  "on_close env up p s = (if up then call_total p (re_close env p) s else (Some (Ok ()), s))"

definition ordered_teardown :: "('v, 'r, 'w) run_env \<Rightarrow> config \<Rightarrow> ('v, 'r, 'w) app \<Rightarrow> ('v, 'r, 'w) run_state \<Rightarrow> ('v, 'r, 'w) ran" where
  "ordered_teardown env cfg ap s0 =
     (let db = (cf_database_url cfg \<noteq> None)
      in and_then (on_close env (st_player_up s0) Player_close s0) (\<lambda>s.
         and_then (on_close env (st_edge_up s0) Edge_close s) (\<lambda>s.
         and_then (on_close env db Plane_stop s) (\<lambda>s.
         and_then (on_close env db Inval_stop s) (\<lambda>s.
         and_then (call_total Bus_close (close_bus (re_close env)) s) (\<lambda>s.
           if st_modules_started s0 then app_stop ap s else (Some (Ok ()), s)))))))"

definition run_state_new :: "'w \<Rightarrow> ('v, 'r, 'w) run_state" where
  "run_state_new w = \<lparr>st_world = (app_context_new, w), st_trace = [], st_edge_up = False, st_player_up = False, st_modules_started = False,
     st_checks = [], st_router = []\<rparr>"

definition run_built :: "('v, 'r, 'w) run_env \<Rightarrow> config \<Rightarrow> ('v, 'r, 'w) app \<Rightarrow> ('v, 'r, 'w) run_state \<Rightarrow> ('v, 'r, 'w) ran" where
  "run_built env cfg ap s =
     (case and_then (start_process env cfg ap s) (listen_and_serve env cfg) of
        (None, s1) \<Rightarrow> (None, s1)
      | (Some outcome, s1) \<Rightarrow>
          (case ordered_teardown env cfg ap s1 of
             (None, s2) \<Rightarrow> (None, s2)
           | (Some _, s2) \<Rightarrow> (Some outcome, s2)))"

definition run :: "('v, 'r, 'w) run_env \<Rightarrow> config \<Rightarrow> ('v, 'r, 'w) modul list \<Rightarrow> 'w \<Rightarrow> ('v, 'r, 'w) ran" where
  "run env cfg ms w =
     (let s = run_state_new w
      in case open_process env cfg of
        Some (c, e) \<Rightarrow> bail c e s
      | None \<Rightarrow>
      (case validate_requires ms of
        Some c \<Rightarrow> bail c [] s
      | None \<Rightarrow>
      (case add_all ms app_new of
        None \<Rightarrow> (None, s)
      | Some ap \<Rightarrow>
          and_then (with_context Startup_failed (build ap s)) (\<lambda>s.
          and_then (wire_process env cfg s) (run_built env cfg ap)))))"

end
