(* ===== verification/App_Teardown.thy ===== *)
theory App_Teardown
  imports App_Run
begin

text \<open>
  The trace of a run: which stages it can contain and in which order, and that every run that opened
  something closes it again, in the order of the teardown, whatever failed.
\<close>

section \<open>Traces\<close>

fun step_rank :: "step \<Rightarrow> nat" where
  "step_rank (Register _) = 0" | "step_rank (Init _) = 1" | "step_rank Edge_install = 2" | "step_rank Plane_migrate = 3"
| "step_rank Lock = 4" | "step_rank (Migrate _) = 5" | "step_rank Unlock = 6" | "step_rank (Start _) = 7"
| "step_rank Inval_start = 8" | "step_rank Plane_start = 9" | "step_rank Edge_listen = 10" | "step_rank Player_listen = 11"
| "step_rank Router = 12" | "step_rank Serve = 13" | "step_rank Player_close = 14" | "step_rank Edge_close = 15"
| "step_rank Plane_stop = 16" | "step_rank Inval_stop = 17" | "step_rank Bus_close = 18" | "step_rank (Stop _) = 19"

fun act_rank :: "act \<Rightarrow> nat" where
  "act_rank (Call p) = step_rank p"
| "act_rank (Did p) = step_rank p"

definition ups :: "act list \<Rightarrow> string list" where
  "ups = List.map_filter (\<lambda>a. case a of Did (Start n) \<Rightarrow> Some n | _ \<Rightarrow> None)"

definition downs :: "act list \<Rightarrow> string list" where
  "downs = List.map_filter (\<lambda>a. case a of Call (Stop n) \<Rightarrow> Some n | _ \<Rightarrow> None)"

definition is_stop :: "act \<Rightarrow> bool" where
  "is_stop a = (act_rank a = 19)"

lemma map_filter_append: "List.map_filter f (xs @ ys) = List.map_filter f xs @ List.map_filter f ys"
  by (simp add: map_filter_def)

lemma ups_simps [simp]: "ups [] = []" "ups (xs @ ys) = ups xs @ ups ys"
  "ups (Call p # t) = ups t" "ups (Did (Start n) # t) = n # ups t"
  by (simp_all add: ups_def map_filter_append map_filter_simps)

lemma downs_simps [simp]: "downs [] = []" "downs (xs @ ys) = downs xs @ downs ys"
  "downs (Did p # t) = downs t" "downs (Call (Stop n) # t) = n # downs t" "downs (Call (Start n) # t) = downs t"
  by (simp_all add: downs_def map_filter_append map_filter_simps)

lemma ups_none: "7 \<notin> act_rank ` set t \<Longrightarrow> ups t = []"
  by (induction t) (auto simp: ups_def map_filter_simps split: act.split step.split)

lemma downs_none: "19 \<notin> act_rank ` set t \<Longrightarrow> downs t = []"
  by (induction t) (auto simp: downs_def map_filter_simps split: act.split step.split)

text \<open>One stretch of a run only adds acts, in the order of their ranks and between two of them.\<close>

definition flags :: "('v, 'r, 'w) run_state \<Rightarrow> bool \<times> bool \<times> bool" where
  "flags s = (st_edge_up s, st_player_up s, st_modules_started s)"

definition stretch :: "nat \<Rightarrow> nat \<Rightarrow> ('v, 'r, 'w) run_state \<Rightarrow> ('v, 'r, 'w) run_state \<Rightarrow> bool" where
  "stretch lo hi s s' \<longleftrightarrow> (\<exists>t. st_trace s' = st_trace s @ t \<and> sorted (map act_rank t) \<and> (\<forall>a \<in> set t. act_rank a \<in> {lo..hi}))"

lemma stretch_same [simp]: "st_trace s' = st_trace s \<Longrightarrow> stretch lo hi s s'"
  by (auto simp: stretch_def)

lemma stretch_trans:
  assumes "stretch lo m s s1" "stretch m' hi s1 s2" "m \<le> m'" "lo \<le> m'" "m \<le> hi"
  shows "stretch lo hi s s2"
proof -
  obtain t u where "st_trace s1 = st_trace s @ t" "sorted (map act_rank t)" "\<forall>a \<in> set t. act_rank a \<in> {lo..m}"
    "st_trace s2 = st_trace s1 @ u" "sorted (map act_rank u)" "\<forall>a \<in> set u. act_rank a \<in> {m'..hi}"
    using assms(1,2) by (auto simp: stretch_def)
  then have "st_trace s2 = st_trace s @ (t @ u)" "sorted (map act_rank (t @ u))" "\<forall>a \<in> set (t @ u). act_rank a \<in> {lo..hi}"
    using assms(3-5) by (fastforce simp: sorted_append)+
  then show ?thesis unfolding stretch_def by blast
qed

lemma stretch_mono: "stretch lo hi s s' \<Longrightarrow> lo' \<le> lo \<Longrightarrow> hi \<le> hi' \<Longrightarrow> stretch lo' hi' s s'"
  by (fastforce simp: stretch_def)

lemma stretch_ups: "stretch lo hi s s' \<Longrightarrow> 7 \<notin> {lo..hi} \<Longrightarrow> ups (st_trace s') = ups (st_trace s)"
  by (force simp: stretch_def intro: ups_none)

lemma stretch_downs: "stretch lo hi s s' \<Longrightarrow> 19 \<notin> {lo..hi} \<Longrightarrow> downs (st_trace s') = downs (st_trace s)"
  by (force simp: stretch_def intro: downs_none)

lemma stretch_mem: "stretch lo hi s s' \<Longrightarrow> act_rank a \<notin> {lo..hi} \<Longrightarrow> a \<in> set (st_trace s') \<longleftrightarrow> a \<in> set (st_trace s)"
  by (auto simp: stretch_def)

text \<open>A piece of a run is quiet between two ranks if it is such a stretch and moves none of the flags.\<close>

definition quiet :: "nat \<Rightarrow> nat \<Rightarrow> (('v, 'r, 'w) run_state \<Rightarrow> ('v, 'r, 'w) ran) \<Rightarrow> bool" where
  "quiet lo hi f \<longleftrightarrow> (\<forall>s r s'. f s = (r, s') \<longrightarrow> stretch lo hi s s' \<and> flags s' = flags s)"

lemma quietI: "(\<And>s r s'. f s = (r, s') \<Longrightarrow> stretch lo hi s s' \<and> flags s' = flags s) \<Longrightarrow> quiet lo hi f"
  by (simp add: quiet_def)

lemma quietD: "quiet lo hi f \<Longrightarrow> f s = (r, s') \<Longrightarrow> stretch lo hi s s' \<and> flags s' = flags s"
  by (simp add: quiet_def)

lemma quiet_skip: "quiet lo hi (\<lambda>s. (r, s))"
  by (auto simp: quiet_def)

lemma quiet_if: "quiet lo hi f \<Longrightarrow> quiet lo hi g \<Longrightarrow> quiet lo hi (\<lambda>s. if b then f s else g s)"
  by (auto simp: quiet_def)

lemma and_then_cases:
  assumes "and_then (f s) k = (r, s')"
  obtains (stops) "f s = (r, s')" "r \<noteq> Some (Ok ())" | (goes) s1 where "f s = (Some (Ok ()), s1)" "k s1 = (r, s')"
  using assms by (auto simp: and_then_def split: prod.splits option.splits sum.splits)

lemma quiet_and_then:
  assumes "quiet lo m f" "quiet m' hi k" "m \<le> m'" "lo \<le> m'" "m \<le> hi"
  shows "quiet lo hi (\<lambda>s. and_then (f s) k)"
proof (rule quietI)
  fix s r s' assume "and_then (f s) k = (r, s')"
  then show "stretch lo hi s s' \<and> flags s' = flags s"
  proof (cases rule: and_then_cases)
    case stops
    then show ?thesis using quietD [OF assms(1)] assms(5) by (blast intro: stretch_mono)
  next
    case (goes s1)
    then show ?thesis using quietD [OF assms(1) goes(1)] quietD [OF assms(2) goes(2)] stretch_trans [OF _ _ assms(3-5)] by metis
  qed
qed

lemma quiet_with_context: "quiet lo hi f \<Longrightarrow> quiet lo hi (\<lambda>s. with_context c (f s))"
  unfolding quiet_def with_context_def by (auto split: prod.splits option.splits sum.splits)

lemma with_context_end: "with_context c x = (r, s) \<Longrightarrow> \<exists>r'. x = (r', s) \<and> (r' = Some (Ok ()) \<longleftrightarrow> r = Some (Ok ())) \<and> (r' = None \<longleftrightarrow> r = None)"
  by (auto simp: with_context_def split: prod.splits option.splits sum.splits)

lemma stretch_log: "act_rank a \<in> {lo..hi} \<Longrightarrow> st_trace s' = st_trace s @ [a] \<Longrightarrow> stretch lo hi s s'"
  by (auto simp: stretch_def)

lemma stretch_log2: "step_rank p \<in> {lo..hi} \<Longrightarrow> st_trace s' = st_trace s @ [Call p, Did p] \<Longrightarrow> stretch lo hi s s'"
  by (auto simp: stretch_def)

lemma call_hook_end:
  assumes "call_hook p f s = (r, s')"
  shows "r = Some (Ok ()) \<and> st_trace s' = st_trace s @ [Call p, Did p] \<and> flags s' = flags s
    \<or> r \<noteq> Some (Ok ()) \<and> st_trace s' = st_trace s @ [Call p] \<and> flags s' = flags s"
  using assms by (auto simp: call_hook_def log_act_def bail_def flags_def Let_def split: prod.splits hook.splits)

lemma quiet_call_hook: "step_rank p \<in> {lo..hi} \<Longrightarrow> quiet lo hi (call_hook p f)"
proof (rule quietI)
  fix s r s' assume p: "step_rank p \<in> {lo..hi}" and c: "call_hook p f s = (r, s')"
  show "stretch lo hi s s' \<and> flags s' = flags s"
    using call_hook_end [OF c] stretch_log [of "Call p" lo hi s' s] stretch_log2 [of p lo hi s' s] p by fastforce
qed

lemma quiet_each:
  assumes "\<And>m. quiet lo lo (f m)" shows "quiet lo lo (each f ms)"
proof (induction ms)
  case Nil
  then show ?case by (auto simp: quiet_def)
next
  case (Cons m ms)
  have "each f (m # ms) = (\<lambda>s. and_then (f m s) (each f ms))" by (rule ext) simp
  then show ?case using quiet_and_then [OF assms Cons.IH] by simp
qed

lemma quiet_in_slots:
  assumes "\<And>a. quiet lo hi (k a)" shows "quiet lo hi (in_slots f k)"
proof (rule quietI)
  fix s r s' assume "in_slots f k s = (r, s')"
  then show "stretch lo hi s s' \<and> flags s' = flags s"
    using quietD [OF assms] by (fastforce simp: in_slots_def flags_def stretch_def split: prod.splits sum.splits)
qed

section \<open>The stages of a run\<close>

lemma quiet_build: "quiet 0 1 (build ap)"
proof -
  have "quiet 0 1 (\<lambda>s. and_then (each (\<lambda>m. call_hook (Register (md_name m)) (md_register m)) (ap_modules ap) s)
      (each (\<lambda>m. call_hook (Init (md_name m)) (md_init m)) (ap_modules ap)))"
    by (intro quiet_and_then [of 0 0 _ 1 1] quiet_each quiet_call_hook) simp_all
  then show ?thesis by (simp add: build_def [abs_def])
qed

lemma quiet_install: "quiet lo hi f \<Longrightarrow> quiet lo hi (\<lambda>s. f (install_sink snk s))"
  by (fastforce simp: quiet_def install_sink_def flags_def stretch_def split: option.splits prod.splits)

lemma quiet_keep: "quiet lo hi (\<lambda>s. (r, keep_router (s\<lparr>st_checks := c\<rparr>)))"
  by (auto simp: quiet_def keep_router_def flags_def split: prod.splits)

lemma quiet_wire: "quiet 2 2 (wire_process env cfg)"
  unfolding wire_process_def
proof (rule quiet_in_slots)
  fix sinks
  show "quiet 2 2 (\<lambda>s. case select_push_sink sinks of Inl c \<Rightarrow> bail c [] s
      | Inr snk \<Rightarrow> and_then
            (each (\<lambda>v. in_slots (contribute readiness_slot v) (\<lambda>_ s. (Some (Ok ()), s)))
               (if cf_database_url cfg = None then [] else re_checks env) (install_sink snk s))
            (in_slots (contributions readiness_slot) (\<lambda>checks s.
               and_then (if cf_edge_server cfg then call_hook Edge_install (re_edge_install env) s else (Some (Ok ()), s))
                 (\<lambda>s. (Some (Ok ()), keep_router (s\<lparr>st_checks := checks\<rparr>))))))"
  proof (cases "select_push_sink sinks")
    case (Inl c)
    then show ?thesis by (simp add: bail_def quiet_skip)
  next
    case (Inr snk)
    have "quiet 2 2 (\<lambda>s. and_then
            (each (\<lambda>v. in_slots (contribute readiness_slot v) (\<lambda>_ s. (Some (Ok ()), s)))
               (if cf_database_url cfg = None then [] else re_checks env) (install_sink snk s))
            (in_slots (contributions readiness_slot) (\<lambda>checks s.
               and_then (if cf_edge_server cfg then call_hook Edge_install (re_edge_install env) s else (Some (Ok ()), s))
                 (\<lambda>s. (Some (Ok ()), keep_router (s\<lparr>st_checks := checks\<rparr>))))))"
      by (intro quiet_and_then [of 2 2 _ 2 2] quiet_install quiet_each quiet_in_slots quiet_skip quiet_if quiet_call_hook quiet_keep) simp_all
    with Inr show ?thesis by simp
  qed
qed

lemma quiet_migrations: "quiet 5 5 (run_migrations ap)"
  unfolding run_migrations_def by (intro quiet_each quiet_call_hook) simp

text \<open>The advisory lock is released whenever it was taken, and a process with a database migrates only
  while it holds it.\<close>

definition lock_held :: "bool \<Rightarrow> act list \<Rightarrow> bool" where
  "lock_held db tr \<longleftrightarrow> (Did Lock \<in> set tr \<longleftrightarrow> Call Unlock \<in> set tr) \<and> (db \<longrightarrow> (\<forall>n. Call (Migrate n) \<in> set tr \<longrightarrow> Did Lock \<in> set tr))"

lemma stretch_no: "stretch lo hi s s' \<Longrightarrow> a \<in> set (st_trace s') \<Longrightarrow> act_rank a \<notin> {lo..hi} \<Longrightarrow> a \<in> set (st_trace s)"
  by (auto simp: stretch_def)

lemma stretch_lock_held: "stretch lo hi s s' \<Longrightarrow> lock_held db (st_trace s) \<Longrightarrow> {lo..hi} \<inter> {4..6} = {} \<Longrightarrow> lock_held db (st_trace s')"
  using stretch_mem [of lo hi s s' "Did Lock"] stretch_mem [of lo hi s s' "Call Unlock"] stretch_mem [of lo hi s s' "Call (Migrate n)" for n]
  by (auto simp: lock_held_def)

lemma migrate_end:
  assumes m: "migrate_with_lock_timeout db le ap s = (r, s')" and up: "stretch 0 3 s0 s" "st_trace s0 = []" and r: "r \<noteq> None"
  shows "stretch 4 6 s s' \<and> flags s' = flags s \<and> lock_held db (st_trace s')"
proof -
  have none: "Did Lock \<notin> set (st_trace s)" "Call Unlock \<notin> set (st_trace s)" "Call Lock \<notin> set (st_trace s)" "Call (Migrate n) \<notin> set (st_trace s)" for n
    using up stretch_no [OF up(1), of "Did Lock"] stretch_no [OF up(1), of "Call Unlock"] stretch_no [OF up(1), of "Call Lock"]
      stretch_no [OF up(1), of "Call (Migrate n)"] by auto
  show ?thesis
  proof (cases "db \<and> le_acquire le = None \<and> le_set_timeout le = None \<and> le_lock le = None")
    case True
    let ?s1 = "log_act (Did Lock) (log_act (Call Lock) s)"
    obtain lr s2 where rm: "run_migrations ap ?s1 = (Some lr, s2)" and s': "s' = log_act (Call Unlock) s2 \<or> s' = log_act (Did Unlock) (log_act (Call Unlock) s2)"
      using m r True by (auto simp: migrate_with_lock_timeout_def bail_def Let_def split: prod.splits option.splits sum.splits)
    have q: "stretch 5 5 ?s1 s2" "flags s2 = flags ?s1" using quietD [OF quiet_migrations rm] by simp_all
    have a: "stretch 4 4 s ?s1" by (rule stretch_log2 [of Lock]) (simp_all add: log_act_def)
    have b: "stretch 6 6 s2 s'" using s' stretch_log [of "Call Unlock" 6 6 s' s2] stretch_log2 [of Unlock 6 6 s' s2] by (auto simp: log_act_def)
    have "stretch 4 6 s s'" using stretch_trans [OF stretch_trans [OF a q(1)] b] by simp
    moreover have "Did Lock \<in> set (st_trace s2)" using stretch_mem [OF q(1), of "Did Lock"] by (simp add: log_act_def)
    ultimately show ?thesis using s' q(2) by (auto simp: lock_held_def flags_def log_act_def)
  next
    case False
    then have "(\<not> db \<and> run_migrations ap s = (r, s')) \<or> db \<and> (s' = s \<or> s' = log_act (Call Lock) s)"
      using m by (auto simp: migrate_with_lock_timeout_def bail_def split: prod.splits option.splits if_splits)
    then show ?thesis
    proof (elim disjE conjE)
      assume d: "\<not> db" "run_migrations ap s = (r, s')"
      note q = quietD [OF quiet_migrations d(2)]
      then show ?thesis using d none stretch_mem [OF conjunct1 [OF q], of "Did Lock"] stretch_mem [OF conjunct1 [OF q], of "Call Unlock"]
        by (auto simp: lock_held_def intro: stretch_mono)
    next
      assume "s' = s"
      then show ?thesis using none by (simp add: lock_held_def)
    next
      assume "s' = log_act (Call Lock) s"
      then show ?thesis using none stretch_log [of "Call Lock" 4 6 s' s] by (simp add: lock_held_def log_act_def flags_def)
    qed
  qed
qed

definition starts :: "('v, 'r, 'w) modul list \<Rightarrow> act list" where
  "starts ms = concat (map (\<lambda>m. [Call (Start (md_name m)), Did (Start (md_name m))]) ms)"

definition stops :: "('v, 'r, 'w) modul list \<Rightarrow> act list" where
  "stops ms = map (\<lambda>m. Call (Stop (md_name m))) ms"

lemma starts_simps [simp]: "starts [] = []" "starts (m # ms) = Call (Start (md_name m)) # Did (Start (md_name m)) # starts ms"
  by (simp_all add: starts_def)

lemma ups_starts [simp]: "ups (starts ms) = map md_name ms"
  by (induction ms) simp_all

lemma starts_ranks: "a \<in> set (starts ms) \<Longrightarrow> act_rank a = 7"
  by (auto simp: starts_def)

lemma downs_starts [simp]: "downs (starts ms) = []"
  by (induction ms) simp_all

lemma ups_stops [simp]: "ups (stops ms) = []"
  by (induction ms) (simp_all add: stops_def)

lemma downs_stops [simp]: "downs (stops ms) = map md_name ms"
  by (induction ms) (simp_all add: stops_def)

lemma stops_ranks: "a \<in> set (stops ms) \<Longrightarrow> act_rank a = 19"
  by (auto simp: stops_def)

lemma sorted_const: "(\<And>x. x \<in> set xs \<Longrightarrow> f x = c) \<Longrightarrow> sorted (map f xs)"
  by (induction xs) auto

lemma stop_one_end:
  assumes "stop_one m s = (r, s')" "r \<noteq> None"
  shows "r = Some (Ok ()) \<and> st_trace s' = st_trace s @ [Call (Stop (md_name m))] \<and> flags s' = flags s"
  using assms by (auto simp: stop_one_def log_act_def flags_def Let_def split: prod.splits stop_hook.splits)

lemma stop_each_end:
  assumes "each stop_one ms s = (r, s')" "r \<noteq> None"
  shows "r = Some (Ok ()) \<and> st_trace s' = st_trace s @ stops ms \<and> flags s' = flags s"
  using assms
proof (induction ms arbitrary: s)
  case Nil
  then show ?case by (simp add: stops_def)
next
  case (Cons m ms)
  from Cons.prems(1) have "and_then (stop_one m s) (each stop_one ms) = (r, s')" by simp
  then show ?case
  proof (cases rule: and_then_cases)
    case stops
    then show ?thesis using stop_one_end [OF stops(1)] Cons.prems(2) by simp
  next
    case (goes s1)
    then show ?thesis using stop_one_end [OF goes(1)] Cons.IH [OF goes(2) Cons.prems(2)] by (simp add: stops_def)
  qed
qed

lemma start_from_end:
  assumes "start_from started ms s = (r, s')" "r \<noteq> None"
  shows "flags s' = flags s \<and>
    (r = Some (Ok ()) \<and> st_trace s' = st_trace s @ starts ms
     \<or> (\<exists>e k. r = Some (Err e) \<and> k < length ms \<and>
          st_trace s' = st_trace s @ starts (take k ms) @ [Call (Start (md_name (ms ! k)))] @ stops (rev (started @ take k ms))))"
  using assms
proof (induction ms arbitrary: started s)
  case Nil
  then show ?case by simp
next
  case (Cons m ms)
  obtain h s1 where c: "call_hook (Start (md_name m)) (md_start m) s = (h, s1)" by fastforce
  note ce = call_hook_end [OF c]
  consider "h = Some (Ok ())" | e where "h = Some (Err e)" using Cons.prems c by (cases h) (auto split: sum.splits)
  then show ?case
  proof cases
    case 1
    then have "start_from (started @ [m]) ms s1 = (r, s')" using Cons.prems(1) c by simp
    from Cons.IH [OF this Cons.prems(2)] ce 1 show ?thesis
      by (auto simp del: rev_append)
  next
    case (2 e)
    then have "\<exists>x. each stop_one (rev started) s1 = (Some x, s') \<and> r = Some (Err e)" using Cons.prems c by (auto split: prod.splits option.splits)
    with ce 2 stop_each_end [of "rev started" s1] show ?thesis by (auto intro!: exI [of _ 0])
  qed
qed

lemma stretch_starts: "st_trace s' = st_trace s @ starts ms \<Longrightarrow> stretch 7 7 s s'"
  by (auto simp: stretch_def starts_ranks intro!: sorted_const [of _ _ 7])

text \<open>How the starting part ends: before any module was started, at the start of one of them, or with all of
  them started.\<close>

definition started_none :: "('v, 'r, 'w) run_state \<Rightarrow> ('v, 'r, 'w) run_state \<Rightarrow> bool" where
  "started_none s s' \<longleftrightarrow> stretch 3 6 s s' \<and> flags s' = flags s"

definition start_unwound :: "('v, 'r, 'w) modul list \<Rightarrow> ('v, 'r, 'w) run_state \<Rightarrow> ('v, 'r, 'w) run_state \<Rightarrow> bool" where
  "start_unwound ms s s' \<longleftrightarrow> (\<exists>s1 k. stretch 3 6 s s1 \<and> flags s' = flags s \<and> k < length ms \<and>
     st_trace s' = st_trace s1 @ starts (take k ms) @ [Call (Start (md_name (ms ! k)))] @ stops (rev (take k ms)))"

definition started_all :: "('v, 'r, 'w) modul list \<Rightarrow> ('v, 'r, 'w) run_state \<Rightarrow> ('v, 'r, 'w) run_state \<Rightarrow> bool" where
  "started_all ms s s' \<longleftrightarrow> (\<exists>s1 s2. stretch 3 6 s s1 \<and> st_trace s2 = st_trace s1 @ starts ms \<and> stretch 8 9 s2 s'
     \<and> st_edge_up s' = st_edge_up s \<and> st_player_up s' = st_player_up s \<and> st_modules_started s')"

lemma quiet_on_db: "step_rank p \<in> {lo..hi} \<Longrightarrow> quiet lo hi (on_db cfg p f)"
  unfolding on_db_def by (intro quiet_if quiet_call_hook quiet_skip)

lemma quiet_start_planes: "quiet 8 9 (start_planes env cfg)"
  unfolding start_planes_def by (rule quiet_and_then [of 8 8 _ 9 9]) (simp_all add: quiet_on_db)

lemma lock_held_unranked: "lock_held db tr \<Longrightarrow> (\<And>a. a \<in> set t \<Longrightarrow> act_rank a \<notin> {4..6}) \<Longrightarrow> lock_held db (tr @ t)"
  unfolding lock_held_def by (fastforce dest: meta_spec)

lemma migrate_all_end:
  assumes ma: "migrate_all env cfg ap s = (r, s')" and r: "r \<noteq> None" and up: "stretch 0 2 s0 s" "st_trace s0 = []"
  shows "lock_held (cf_database_url cfg \<noteq> None) (st_trace s') \<and> started_none s s'" (is "lock_held ?db _ \<and> _")
  using ma unfolding migrate_all_def
proof (cases rule: and_then_cases)
  case stops
  note a = quietD [OF quiet_on_db stops(1), of 3 3]
  have "lock_held ?db (st_trace s')" using stretch_trans [OF up(1), of 3 3 s'] a up(2) by (auto simp: stretch_def lock_held_def)
  then show ?thesis using a by (auto simp: started_none_def intro: stretch_mono)
next
  case (goes s1)
  have a: "stretch 3 3 s s1" "flags s1 = flags s" using quietD [OF quiet_on_db goes(1), of 3 3] by simp_all
  have up1: "stretch 0 3 s0 s1" using stretch_trans [OF up(1) a(1)] by simp
  obtain r1 where m: "migrate_with_lock_timeout ?db (re_lock env) ap s1 = (r1, s')" "r1 \<noteq> None"
    using with_context_end [OF goes(2)] r by auto
  note b = migrate_end [OF m(1) up1 up(2) m(2)]
  then show ?thesis using a stretch_trans [OF a(1) conjunct1 [OF b]] by (auto simp: started_none_def)
qed

lemma start_process_end:
  assumes sp: "start_process env cfg ap s = (r, s')" and r: "r \<noteq> None" and up: "stretch 0 2 s0 s" "st_trace s0 = []"
  shows "lock_held (cf_database_url cfg \<noteq> None) (st_trace s') \<and>
    (r \<noteq> Some (Ok ()) \<and> started_none s s' \<or> r \<noteq> Some (Ok ()) \<and> start_unwound (ap_modules ap) s s' \<or> started_all (ap_modules ap) s s')"
    (is "lock_held ?db _ \<and> _")
  using sp unfolding start_process_def
proof (cases rule: and_then_cases)
  case stops
  then show ?thesis using migrate_all_end [OF stops(1) r up] by simp
next
  case (goes s2)
  then have m: "lock_held ?db (st_trace s2)" "stretch 3 6 s s2" "flags s2 = flags s"
    using migrate_all_end [OF goes(1) _ up] by (simp_all add: started_none_def)
  from goes(2) show ?thesis
  proof (cases rule: and_then_cases)
    case stops
    obtain r1 where st: "start_from [] (ap_modules ap) s2 = (r1, s')" "r1 \<noteq> None" "r1 \<noteq> Some (Ok ())"
      using with_context_end [OF stops(1)] r stops(2) by (auto simp: app_start_def)
    from start_from_end [OF st(1,2)] st(3) obtain k where k: "k < length (ap_modules ap)" "flags s' = flags s2"
      "st_trace s' = st_trace s2 @ starts (take k (ap_modules ap)) @ [Call (Start (md_name (ap_modules ap ! k)))] @ stops (rev (take k (ap_modules ap)))"
      by auto
    have "lock_held ?db (st_trace s')" unfolding k(3)
      using m(1) by (intro lock_held_unranked) (auto dest: starts_ranks stops_ranks)
    then show ?thesis using stops k m by (auto simp: start_unwound_def)
  next
    case (goes s3)
    have s3: "flags s3 = flags s2" "st_trace s3 = st_trace s2 @ starts (ap_modules ap)"
      using with_context_end [OF goes(1)] start_from_end [of "[]" "ap_modules ap" s2] by (fastforce simp: app_start_def)+
    have c: "stretch 8 9 s3 s'" "flags s' = flags (s3\<lparr>st_modules_started := True\<rparr>)"
      using quietD [OF quiet_start_planes goes(2)] by (simp_all add: stretch_def)
    have "lock_held ?db (st_trace s3)" unfolding s3(2) using m(1) by (intro lock_held_unranked) (auto dest: starts_ranks)
    then have "lock_held ?db (st_trace s')" using stretch_lock_held [OF c(1)] by simp
    then show ?thesis using s3 m c by (auto simp: started_all_def flags_def)
  qed
qed

text \<open>A listener that came up is remembered by its flag.\<close>

definition listening :: "('v, 'r, 'w) run_state \<Rightarrow> bool" where
  "listening s \<longleftrightarrow> (st_edge_up s \<longleftrightarrow> Did Edge_listen \<in> set (st_trace s)) \<and> (st_player_up s \<longleftrightarrow> Did Player_listen \<in> set (st_trace s))"

lemma quiet_listening: "quiet lo hi f \<Longrightarrow> {10, 11} \<inter> {lo..hi} = {} \<Longrightarrow> f s = (r, s') \<Longrightarrow> listening s \<Longrightarrow> listening s'"
  using quietD [of lo hi f s r s'] stretch_mem [of lo hi s s' "Did Edge_listen"] stretch_mem [of lo hi s s' "Did Player_listen"]
  by (auto simp: listening_def flags_def)

lemma listen_on_end:
  assumes l: "listen_on built p f running s = (r, s')" and t: "\<And>s. st_trace (running s) = st_trace s"
    and p: "p = Edge_listen \<and> running = (\<lambda>s. s\<lparr>st_edge_up := True\<rparr>) \<or> p = Player_listen \<and> running = (\<lambda>s. s\<lparr>st_player_up := True\<rparr>)"
  shows "stretch (step_rank p) (step_rank p) s s' \<and> st_modules_started s' = st_modules_started s \<and> (listening s \<longrightarrow> listening s')"
proof (cases built)
  case False
  then show ?thesis using l by (simp add: listen_on_def)
next
  case True
  with l have "and_then (call_hook p f s) (\<lambda>s. (Some (Ok ()), running s)) = (r, s')" by (simp add: listen_on_def)
  then show ?thesis
  proof (cases rule: and_then_cases)
    case stops
    then show ?thesis using call_hook_end [OF stops(1)] stretch_log [of "Call p" "step_rank p" "step_rank p" s' s]
      by (auto simp: listening_def flags_def)
  next
    case (goes s1)
    then have c: "st_trace s1 = st_trace s @ [Call p, Did p]" "flags s1 = flags s" "s' = running s1"
      using call_hook_end [OF goes(1)] by auto
    then have "stretch (step_rank p) (step_rank p) s s'" using stretch_log2 [of p _ _ s' s] t by simp
    then show ?thesis using c p by (auto simp: listening_def flags_def)
  qed
qed

lemma quiet_serve: "quiet 12 13 (\<lambda>s. and_then (call_hook Router f s) (call_hook Serve g))"
  by (rule quiet_and_then [of 12 12 _ 13 13]) (simp_all add: quiet_call_hook)

lemma listen_and_serve_end:
  assumes l: "listen_and_serve env cfg s = (r, s')" and s: "listening s"
  shows "stretch 10 13 s s' \<and> listening s' \<and> st_modules_started s' = st_modules_started s"
  using l unfolding listen_and_serve_def
proof (cases rule: and_then_cases)
  case stops
  then show ?thesis using listen_on_end [OF stops(1)] s by (auto intro: stretch_mono)
next
  case (goes s1)
  then have a: "stretch 10 10 s s1" "listening s1" "st_modules_started s1 = st_modules_started s"
    using listen_on_end [OF goes(1)] s by simp_all
  from goes(2) show ?thesis
  proof (cases rule: and_then_cases)
    case stops
    then have "stretch 11 11 s1 s'" "listening s'" "st_modules_started s' = st_modules_started s1" using listen_on_end [OF stops(1)] a by simp_all
    then show ?thesis using a stretch_mono [OF stretch_trans [OF a(1)], of 11 11 s' 10 13] by simp
  next
    case (goes s2)
    then have b: "stretch 11 11 s1 s2" "listening s2" "st_modules_started s2 = st_modules_started s1"
      using listen_on_end [OF goes(1)] a by simp_all
    from quietD [OF quiet_serve goes(2)] quiet_listening [OF quiet_serve _ goes(2) b(2)] show ?thesis
      using stretch_trans [OF stretch_trans [OF a(1) b(1)], of 12 13 s'] a b by (simp add: flags_def)
  qed
qed

definition closed :: "bool \<Rightarrow> step \<Rightarrow> act list" where
  "closed up p = (if up then [Call p, Did p] else [])"

lemma on_close_end: "\<exists>s'. on_close env up p s = (Some (Ok ()), s') \<and> st_trace s' = st_trace s @ closed up p"
  by (simp add: on_close_def call_total_def closed_def log_act_def)

lemma call_total_end: "\<exists>s'. call_total p f s = (Some (Ok ()), s') \<and> st_trace s' = st_trace s @ closed True p"
  by (simp add: call_total_def closed_def log_act_def)

lemma and_then_ok: "x = (Some (Ok ()), s) \<Longrightarrow> and_then x k = k s"
  by (simp add: and_then_def)

lemma teardown_end:
  assumes "ordered_teardown env cfg ap s = (r, s')" "r \<noteq> None"
  shows "st_trace s' = st_trace s @ closed (st_player_up s) Player_close @ closed (st_edge_up s) Edge_close
    @ closed (cf_database_url cfg \<noteq> None) Plane_stop @ closed (cf_database_url cfg \<noteq> None) Inval_stop @ closed True Bus_close
    @ (if st_modules_started s then stops (rev (ap_modules ap)) else [])"
proof -
  obtain s1 where 1: "on_close env (st_player_up s) Player_close s = (Some (Ok ()), s1)" "st_trace s1 = st_trace s @ closed (st_player_up s) Player_close"
    using on_close_end by blast
  obtain s2 where 2: "on_close env (st_edge_up s) Edge_close s1 = (Some (Ok ()), s2)" "st_trace s2 = st_trace s1 @ closed (st_edge_up s) Edge_close"
    using on_close_end by blast
  obtain s3 where 3: "on_close env (cf_database_url cfg \<noteq> None) Plane_stop s2 = (Some (Ok ()), s3)" "st_trace s3 = st_trace s2 @ closed (cf_database_url cfg \<noteq> None) Plane_stop"
    using on_close_end by blast
  obtain s4 where 4: "on_close env (cf_database_url cfg \<noteq> None) Inval_stop s3 = (Some (Ok ()), s4)" "st_trace s4 = st_trace s3 @ closed (cf_database_url cfg \<noteq> None) Inval_stop"
    using on_close_end by blast
  obtain s5 where 5: "call_total Bus_close (close_bus (re_close env)) s4 = (Some (Ok ()), s5)" "st_trace s5 = st_trace s4 @ closed True Bus_close"
    using call_total_end by blast
  have "(if st_modules_started s then app_stop ap s5 else (Some (Ok ()), s5)) = (r, s')"
    using assms(1) 1(1) 2(1) 3(1) 4(1) 5(1) by (simp add: ordered_teardown_def Let_def and_then_ok)
  then have "st_trace s' = st_trace s5 @ (if st_modules_started s then stops (rev (ap_modules ap)) else [])"
    using stop_each_end [of "rev (ap_modules ap)" s5 r s'] assms(2) by (auto simp: app_stop_def split: if_splits)
  then show ?thesis using 1(2) 2(2) 3(2) 4(2) 5(2) by simp
qed

text \<open>What a run must have left behind: exactly the started modules stopped, in reverse, exactly the listeners
  that came up closed, and everything in the order of the phases.\<close>

definition torn_down :: "('v, 'r, 'w) modul list \<Rightarrow> act list \<Rightarrow> bool" where
  "torn_down ms tr \<longleftrightarrow>
     downs tr = rev (ups tr) \<and> (\<exists>k. ups tr = map md_name (take k ms))
     \<and> (Did Edge_listen \<in> set tr \<longleftrightarrow> Call Edge_close \<in> set tr) \<and> (Did Player_listen \<in> set tr \<longleftrightarrow> Call Player_close \<in> set tr)
     \<and> sorted (map act_rank (filter (\<lambda>a. \<not> is_stop a) tr))
     \<and> (ups tr = map md_name ms \<longrightarrow> sorted (map act_rank tr))"

lemma closed_simps [simp]: "set (closed up p) = (if up then {Call p, Did p} else {})"
  "sorted (map act_rank (closed up p))"
  "a \<in> set (closed up p) \<Longrightarrow> act_rank a = step_rank p"
  by (auto simp: closed_def)

lemma ups_closed [simp]: "step_rank p \<noteq> 7 \<Longrightarrow> ups (closed up p) = []"
  by (rule ups_none) auto

lemma downs_closed [simp]: "step_rank p \<noteq> 19 \<Longrightarrow> downs (closed up p) = []"
  by (rule downs_none) auto

lemma filter_closed [simp]: "step_rank p \<noteq> 19 \<Longrightarrow> filter (\<lambda>a. \<not> is_stop a) (closed up p) = closed up p"
  by (auto simp: closed_def is_stop_def)

definition closings :: "bool \<Rightarrow> bool \<Rightarrow> bool \<Rightarrow> act list" where
  "closings player edge db = closed player Player_close @ closed edge Edge_close @ closed db Plane_stop @ closed db Inval_stop @ closed True Bus_close"

lemma closings_ranks: "a \<in> set (closings player edge db) \<Longrightarrow> act_rank a \<in> {14..18}"
  by (auto simp: closings_def split: if_splits)

lemma closings_simps [simp]: "ups (closings player edge db) = []" "downs (closings player edge db) = []"
  "filter (\<lambda>a. \<not> is_stop a) (closings player edge db) = closings player edge db"
  by (simp_all add: closings_def)

lemma closings_sorted [simp]: "sorted (map act_rank (closings player edge db))"
  by (cases player; cases edge; cases db) (simp_all add: closings_def closed_def)

lemma filter_starts [simp]: "filter (\<lambda>a. \<not> is_stop a) (starts ms) = starts ms"
  by (auto simp: filter_id_conv is_stop_def dest: starts_ranks)

lemma filter_stops [simp]: "filter (\<lambda>a. \<not> is_stop a) (stops ms) = []"
  by (auto simp: filter_empty_conv is_stop_def dest: stops_ranks)

lemma sorted_after: "sorted (map f xs) \<Longrightarrow> sorted (map f ys) \<Longrightarrow> (\<And>x. x \<in> set xs \<Longrightarrow> f x \<le> (c :: nat)) \<Longrightarrow> (\<And>y. y \<in> set ys \<Longrightarrow> c \<le> f y) \<Longrightarrow>
    sorted (map f (xs @ ys))"
  by (fastforce simp: sorted_append)

lemma closings_mem: "Call Edge_close \<in> set (closings player edge db) \<longleftrightarrow> edge" "Call Player_close \<in> set (closings player edge db) \<longleftrightarrow> player"
  "Did Edge_listen \<notin> set (closings player edge db)" "Did Player_listen \<notin> set (closings player edge db)"
  by (auto simp: closings_def)

text \<open>From a fresh state: the trace is in order and free of the acts of later phases.\<close>

lemma stretch_fresh:
  assumes "stretch 0 hi s0 s" "st_trace s0 = []"
  shows "sorted (map act_rank (st_trace s))" "\<And>a. a \<in> set (st_trace s) \<Longrightarrow> act_rank a \<le> hi"
  using assms by (auto simp: stretch_def)

lemma fresh_facts:
  assumes s: "stretch 0 hi s0 s" "st_trace s0 = []"
  shows "hi < 7 \<Longrightarrow> ups (st_trace s) = []" "hi < 19 \<Longrightarrow> downs (st_trace s) = []"
    "hi < 19 \<Longrightarrow> filter (\<lambda>a. \<not> is_stop a) (st_trace s) = st_trace s" "hi < act_rank a \<Longrightarrow> a \<notin> set (st_trace s)"
proof -
  note f = stretch_fresh(2) [OF s]
  show "hi < 7 \<Longrightarrow> ups (st_trace s) = []" by (rule ups_none) (auto dest: f)
  show "hi < 19 \<Longrightarrow> downs (st_trace s) = []" by (rule downs_none) (auto dest: f)
  show "hi < 19 \<Longrightarrow> filter (\<lambda>a. \<not> is_stop a) (st_trace s) = st_trace s" by (auto simp: filter_id_conv is_stop_def dest: f)
  show "hi < act_rank a \<Longrightarrow> a \<notin> set (st_trace s)" by (auto dest: f)
qed

lemma sorted_closings:
  assumes "sorted (map act_rank xs)" "\<And>a. a \<in> set xs \<Longrightarrow> act_rank a \<le> 13"
  shows "sorted (map act_rank (xs @ closings player edge db))"
  by (rule sorted_after [of _ _ _ 13]) (auto simp: assms dest: closings_ranks)

lemma torn_downI:
  assumes "ups tr = map md_name (take k ms)" "downs tr = rev (map md_name (take k ms))"
    "filter (\<lambda>a. \<not> is_stop a) tr = fl" "sorted (map act_rank fl)"
    "Did Edge_listen \<in> set tr \<longleftrightarrow> Call Edge_close \<in> set tr" "Did Player_listen \<in> set tr \<longleftrightarrow> Call Player_close \<in> set tr"
    "map md_name (take k ms) \<noteq> map md_name ms \<or> sorted (map act_rank tr)"
  shows "torn_down ms tr"
  unfolding torn_down_def using assms by metis

lemma torn_down_unstarted:
  assumes s: "stretch 0 6 s0 s" "st_trace s0 = []"
  shows "torn_down ms (st_trace s @ closings False False db)"
proof -
  note f = stretch_fresh [OF s]
  have o: "sorted (map act_rank (st_trace s @ closings False False db))"
    by (rule sorted_closings) (auto simp: f dest: f(2))
  show ?thesis
    by (rule torn_downI [of _ 0, OF _ _ _ o]) (use fresh_facts [OF s] o in \<open>simp_all add: closings_mem\<close>)
qed

lemma torn_down_unwound:
  assumes s: "stretch 0 6 s0 s1" "st_trace s0 = []" and k: "k < length ms"
    and t: "tr = st_trace s1 @ starts (take k ms) @ [Call (Start (md_name (ms ! k)))] @ stops (rev (take k ms))"
  shows "torn_down ms (tr @ closings False False db)"
proof -
  note f = stretch_fresh [OF s] and ff = fresh_facts [OF s]
  have "sorted (map act_rank (starts (take k ms) @ [Call (Start (md_name (ms ! k)))]))"
    by (rule sorted_const [of _ _ 7]) (auto dest: starts_ranks)
  then have "sorted (map act_rank (st_trace s1 @ starts (take k ms) @ [Call (Start (md_name (ms ! k)))]))"
    by (rule sorted_after [of _ _ _ 6, OF f(1)]) (auto dest: f(2) starts_ranks)
  then have 1: "sorted (map act_rank ((st_trace s1 @ starts (take k ms) @ [Call (Start (md_name (ms ! k)))]) @ closings False False db))"
    by (rule sorted_closings) (auto dest: f(2) starts_ranks)
  have u: "ups tr = map md_name (take k ms)" "downs tr = map md_name (rev (take k ms))" using ff(1,2) by (simp_all add: t)
  have n: "a \<notin> set tr" if "act_rank a \<in> {10..18}" for a using that ff(4) [of a] by (auto simp: t dest: starts_ranks stops_ranks)
  have fl: "filter (\<lambda>a. \<not> is_stop a) (tr @ closings False False db) =
      (st_trace s1 @ starts (take k ms) @ [Call (Start (md_name (ms ! k)))]) @ closings False False db"
    using ff(3) by (simp add: t) (simp add: is_stop_def)
  have "length (map md_name (take k ms)) \<noteq> length (map md_name ms)" using k by simp
  then have "map md_name (take k ms) \<noteq> map md_name ms" by (metis (no_types))
  then show ?thesis
    by (intro torn_downI [OF _ _ fl 1, of k]) (simp_all add: u rev_map n closings_mem)
qed

lemma torn_down_started:
  fixes s0 s1 s2 s3 :: "('v, 'r, 'w) run_state"
  assumes s: "stretch 0 6 s0 s1" "st_trace s0 = []" and s2: "st_trace s2 = st_trace s1 @ starts ms" and s3: "stretch 8 13 s2 s3" and l: "listening s3"
  shows "torn_down ms (st_trace s3 @ closings (st_player_up s3) (st_edge_up s3) db @ stops (rev ms))"
proof -
  have u: "ups (st_trace s3) = map md_name ms" "downs (st_trace s3) = []"
    using stretch_ups [OF s3] stretch_downs [OF s3] fresh_facts(1,2) [OF s] s2 by simp_all
  have st: "stretch 0 13 s0 s3" using stretch_trans [OF stretch_trans [OF s(1) stretch_starts [OF s2]] s3] by simp
  note f = stretch_fresh [OF st s(2)] and ff = fresh_facts [OF st s(2)]
  let ?c = "closings (st_player_up s3) (st_edge_up s3) db"
  have 1: "sorted (map act_rank (st_trace s3 @ ?c))" by (rule sorted_closings) (auto simp: f dest: f(2))
  have "sorted (map act_rank (stops (rev ms)))" by (rule sorted_const [of _ _ 19]) (rule stops_ranks)
  then have 2: "sorted (map act_rank ((st_trace s3 @ ?c) @ stops (rev ms)))"
    by (intro sorted_after [of _ _ _ 18, OF 1]) (auto dest: f(2) closings_ranks stops_ranks)
  have m: "a \<notin> set (stops (rev ms))" if "act_rank a \<noteq> 19" for a using that stops_ranks by blast
  have fl: "filter (\<lambda>a. \<not> is_stop a) (st_trace s3 @ ?c @ stops (rev ms)) = st_trace s3 @ ?c" using ff(3) by simp
  have e: "Did Edge_listen \<in> set (st_trace s3) \<longleftrightarrow> st_edge_up s3" "Did Player_listen \<in> set (st_trace s3) \<longleftrightarrow> st_player_up s3"
    using l by (simp_all add: listening_def)
  show ?thesis
    by (rule torn_downI [OF _ _ fl 1, of "length ms"])
      (use 2 e m u ff(4) [of "Call Edge_close"] ff(4) [of "Call Player_close"] in \<open>simp_all add: closings_mem rev_map del: map_append\<close>)
qed

lemma torn_down_early:
  assumes s: "stretch 0 6 s0 s" "st_trace s0 = []"
  shows "torn_down ms (st_trace s)"
  by (rule torn_downI [of _ 0, OF _ _ _ stretch_fresh(1) [OF s]]) (use fresh_facts [OF s] stretch_fresh(1) [OF s] in simp_all)

lemma serve_did:
  assumes "listen_and_serve env cfg s = (Some (Ok ()), s')"
  shows "Did Serve \<in> set (st_trace s')"
  using assms unfolding listen_and_serve_def
proof (cases rule: and_then_cases)
  case (goes s1)
  from goes(2) show ?thesis
  proof (cases rule: and_then_cases)
    case (goes s2)
    from goes(2) show ?thesis
    proof (cases rule: and_then_cases)
      case (goes s3)
      then show ?thesis using call_hook_end [OF goes(2)] by auto
    qed simp
  qed simp
qed simp

lemma add_all_modules: "add_all ms ap = Some ap' \<Longrightarrow> ap_modules ap' = ap_modules ap @ ms"
  by (induction ms arbitrary: ap) (auto simp: add_def split: if_splits Option.bind_splits)

text \<open>The part that tears down, from a state in which nothing has started.\<close>

definition served :: "('v, 'r, 'w) modul list \<Rightarrow> config \<Rightarrow> (anyhow, unit) result \<Rightarrow> act list \<Rightarrow> bool" where
  "served ms cfg r tr \<longleftrightarrow> torn_down ms tr \<and> lock_held (cf_database_url cfg \<noteq> None) tr
     \<and> (r = Ok () \<longrightarrow> ups tr = map md_name ms \<and> Did Serve \<in> set tr)"

lemma started_all_fresh:
  assumes "started_all ms s s'" and s: "stretch 0 2 s0 s" "st_trace s0 = []" "flags s = (False, False, False)"
  obtains sa sb where "stretch 0 6 s0 sa" "st_trace sb = st_trace sa @ starts ms" "stretch 8 9 sb s'" "st_modules_started s'" "listening s'"
proof -
  obtain sa sb where k: "stretch 0 6 s0 sa" "st_trace sb = st_trace sa @ starts ms" "stretch 8 9 sb s'" "st_modules_started s'"
    "st_edge_up s' = st_edge_up s" "st_player_up s' = st_player_up s"
    using assms(1) stretch_trans [OF s(1)] by (fastforce simp: started_all_def)
  have fr: "stretch 0 9 s0 s'" using stretch_trans [OF stretch_trans [OF k(1) stretch_starts [OF k(2)]] k(3)] by simp
  have "listening s'" using k(5,6) s(3) fresh_facts(4) [OF fr s(2)] by (simp add: listening_def flags_def)
  with k(1-4) that show ?thesis by blast
qed

lemma unstarted_torn_down:
  assumes u: "started_none s s1 \<or> start_unwound ms s s1" and s: "stretch 0 2 s0 s" "st_trace s0 = []" "flags s = (False, False, False)"
  shows "torn_down ms (st_trace s1 @ closings False False db) \<and> flags s1 = (False, False, False)"
  using u
proof
  assume "started_none s s1"
  then have "stretch 0 6 s0 s1" "flags s1 = (False, False, False)" using stretch_trans [OF s(1)] s(3) by (auto simp: started_none_def)
  then show ?thesis using torn_down_unstarted s(2) by simp
next
  assume "start_unwound ms s s1"
  then obtain sa k where k: "stretch 0 6 s0 sa" "flags s1 = (False, False, False)" "k < length ms"
    "st_trace s1 = st_trace sa @ starts (take k ms) @ [Call (Start (md_name (ms ! k)))] @ stops (rev (take k ms))"
    using stretch_trans [OF s(1)] s(3) by (fastforce simp: start_unwound_def)
  then show ?thesis using torn_down_unwound [OF k(1) s(2) k(3,4)] by simp
qed

lemma start_and_serve_end:
  assumes c: "and_then (start_process env cfg ap s) (listen_and_serve env cfg) = (Some r, s1)" and t: "ordered_teardown env cfg ap s1 = (Some x, s2)"
    and s: "stretch 0 2 s0 s" "st_trace s0 = []" "flags s = (False, False, False)"
  shows "served (ap_modules ap) cfg r (st_trace s2)"
proof -
  let ?db = "cf_database_url cfg \<noteq> None"
  have td: "st_trace s2 = st_trace s1 @ closings (st_player_up s1) (st_edge_up s1) ?db @ (if st_modules_started s1 then stops (rev (ap_modules ap)) else [])"
    using teardown_end [OF t] by (simp add: closings_def)
  have lh: "lock_held ?db (st_trace s1) \<Longrightarrow> lock_held ?db (st_trace s2)"
    unfolding td by (rule lock_held_unranked) (auto dest: closings_ranks stops_ranks split: if_splits)
  from c consider (none) "start_process env cfg ap s = (Some r, s1)" "Some r \<noteq> Some (Ok ())"
    | (all) s3 where "start_process env cfg ap s = (Some (Ok ()), s3)" "listen_and_serve env cfg s3 = (Some r, s1)"
    by (cases rule: and_then_cases) auto
  then show ?thesis
  proof cases
    case none
    note e = start_process_end [OF none(1) _ s(1,2), simplified]
    have "torn_down (ap_modules ap) (st_trace s2)"
    proof (cases "started_all (ap_modules ap) s s1")
      case True
      then obtain sa sb where k: "stretch 0 6 s0 sa" "st_trace sb = st_trace sa @ starts (ap_modules ap)" "stretch 8 9 sb s1" "st_modules_started s1" "listening s1"
        by (rule started_all_fresh [OF _ s])
      then show ?thesis using torn_down_started [OF k(1) s(2) k(2) stretch_mono [OF k(3)]] unfolding td by simp
    next
      case False
      then show ?thesis using unstarted_torn_down [OF _ s, of s1 "ap_modules ap" ?db] e unfolding td flags_def by auto
    qed
    then show ?thesis using lh e none(2) by (simp add: served_def)
  next
    case (all s3)
    note e = start_process_end [OF all(1) _ s(1,2), simplified]
    then obtain sa sb where k: "stretch 0 6 s0 sa" "st_trace sb = st_trace sa @ starts (ap_modules ap)" "stretch 8 9 sb s3" "st_modules_started s3" "listening s3"
      by (auto elim: started_all_fresh [OF _ s])
    have l: "stretch 10 13 s3 s1" "listening s1" "st_modules_started s1" using listen_and_serve_end [OF all(2) k(5)] k(4) by simp_all
    have x: "stretch 8 13 sb s1" using stretch_trans [OF k(3) l(1)] by simp
    have "torn_down (ap_modules ap) (st_trace s2)" using torn_down_started [OF k(1) s(2) k(2) x l(2)] l(3) unfolding td by simp
    moreover have "ups (st_trace s1) = map md_name (ap_modules ap)" using stretch_ups [OF x] k(2) fresh_facts(1) [OF k(1) s(2)] by simp
    then have "ups (st_trace s2) = map md_name (ap_modules ap)" unfolding td by simp
    moreover have "lock_held ?db (st_trace s2)" using lh stretch_lock_held [OF l(1)] e by simp
    moreover have "r = Ok () \<Longrightarrow> Did Serve \<in> set (st_trace s2)" using serve_did all(2) unfolding td by auto
    ultimately show ?thesis by (simp add: served_def)
  qed
qed

text \<open>
  C4. A process never leaves anything half up. Whatever its modules and the outside world do short of a
  panic, a run that returns has called \<open>stop\<close> on exactly the modules whose \<open>start\<close> succeeded, once each
  and in reverse order, and has closed exactly the listeners that came up; the modules that started are a
  prefix of the registration order. Register, init, migrate, start and serve happen in that order, with the
  durable plane halted before the invalidation plane, the bus and any module of a process that had fully
  started; the migration lock is released whenever it was taken, and with a database no module migrates
  without it. A missing provider is reported before any hook is called, and a run that ends well started
  every module and served.
\<close>
theorem run_torn_down:
  assumes "run env cfg ms w = (Some r, s)"
  shows "served ms cfg r (st_trace s) \<and> (validate_requires ms \<noteq> None \<longrightarrow> st_trace s = [])"
proof -
  let ?s0 = "run_state_new w"
  have s0: "st_trace ?s0 = []" "flags ?s0 = (False, False, False)" by (simp_all add: run_state_new_def flags_def)
  have early: "served ms cfg (Err e) (st_trace s1)" if "stretch 0 2 ?s0 s1" for e s1
  proof -
    have "stretch 0 6 ?s0 s1" using stretch_mono [OF that] by simp
    then show ?thesis using torn_down_early [OF _ s0(1)] fresh_facts(4) [OF that s0(1)] by (simp add: served_def lock_held_def)
  qed
  show ?thesis
  proof (cases "open_process env cfg \<noteq> None \<or> validate_requires ms \<noteq> None \<or> add_all ms app_new = None")
    case True
    then show ?thesis using assms early [of ?s0] by (auto simp: run_def bail_def s0 Let_def split: option.splits)
  next
    case False
    then obtain ap where ap: "add_all ms app_new = Some ap" "ap_modules ap = ms" using add_all_modules [of ms app_new] by (auto simp: app_new_def)
    have "open_process env cfg = None" "validate_requires ms = None" using False by blast+
    with ap(1) assms have "and_then (with_context Startup_failed (build ap ?s0)) (\<lambda>s. and_then (wire_process env cfg s) (run_built env cfg ap)) = (Some r, s)"
      by (simp add: run_def Let_def)
    then have "served ms cfg r (st_trace s)"
    proof (cases rule: and_then_cases)
      case stops
      have "stretch 0 2 ?s0 s" using quietD [OF quiet_with_context [OF quiet_build] stops(1)] stretch_mono [of 0 1 ?s0 s 0 2] by simp
      then show ?thesis using stops early [of s] by (cases r) auto
    next
      case (goes sa)
      note a = quietD [OF quiet_with_context [OF quiet_build] goes(1)]
      from goes(2) show ?thesis
      proof (cases rule: and_then_cases)
        case stops
        then show ?thesis using stretch_trans [OF conjunct1 [OF a] conjunct1 [OF quietD [OF quiet_wire stops(1)]]] early [of s] by (cases r) auto
      next
        case (goes sb)
        then have b: "stretch 0 2 ?s0 sb" "flags sb = (False, False, False)"
          using a quietD [OF quiet_wire goes(1)] stretch_trans [OF conjunct1 [OF a], of 2 2 sb] s0 by auto
        from goes(2) show ?thesis
          using start_and_serve_end [OF _ _ b(1) s0(1) b(2)] ap(2) by (fastforce simp: run_built_def split: prod.splits option.splits)
      qed
    qed
    then show ?thesis using False by simp
  qed
qed

definition demo_module :: "string \<Rightarrow> hook \<Rightarrow> (nat, nat, nat) modul" where
  "demo_module n starting = \<lparr>md_name = n, md_requires = [''wallet''], md_register = Pair Fine, md_init = Pair Fine, md_migrate = Pair Fine,
     md_start = Pair starting, md_stop = Pair Stop_hangs\<rparr>"

definition demo_run_env :: "(nat, nat, nat) run_env" where
  "demo_run_env = \<lparr>re_connect = None, re_plane_new = None, re_inval_new = None, re_checks = [4], re_edge_install = Pair Fine,
     re_plane_migrate = Pair Fine, re_lock = \<lparr>le_acquire = None, le_set_timeout = None, le_lock = None, le_unlock = None\<rparr>,
     re_inval_start = Pair Fine, re_plane_start = Pair Fine, re_edge_listen = Pair Fine, re_player_listen = Pair Fine,
     re_router = Pair Fine, re_serve = Pair Fine, re_close = (\<lambda>_ w. w)\<rparr>"

definition demo_config :: config where
  "demo_config = \<lparr>cf_database_url = Some ''dsn'', cf_db_pool_max = 10, cf_edge_server = True, cf_player_server = False\<rparr>"

definition demo_modules :: "(nat, nat, nat) modul list" where
  "demo_modules = [demo_module ''wallet'' Fine, demo_module ''party'' Fine, demo_module ''mail'' (Failed ''down''), demo_module ''audit'' Fine]"

lemma demo_run_trace: "\<exists>e s. run demo_run_env demo_config demo_modules 0 = (Some (Err e), s)
    \<and> ups (st_trace s) = [''wallet'', ''party''] \<and> Did Lock \<in> set (st_trace s)"
  by (simp add: run_def open_process_def validate_pool_max_def min_db_pool_max_def validate_requires_def demo_config_def demo_run_env_def
      demo_modules_def demo_module_def add_def app_new_def build_def call_hook_def log_act_def and_then_def with_context_def bail_def
      wire_process_def in_slots_def contributions_def contribute_def slot_clash_def entry_or_new_def downcast_def sink_slot_def readiness_slot_def
      select_push_sink_def install_sink_def keep_router_def take_router_def run_built_def start_process_def migrate_all_def on_db_def
      migrate_with_lock_timeout_def run_migrations_def app_start_def stop_one_def ordered_teardown_def on_close_def call_total_def close_bus_def
      run_state_new_def app_context_new_def Let_def ups_def map_filter_simps)

theorem run_torn_down_witness:
  "\<exists>e s. run demo_run_env demo_config demo_modules 0 = (Some (Err e), s) \<and> ups (st_trace s) = [''wallet'', ''party'']
     \<and> downs (st_trace s) = [''party'', ''wallet''] \<and> Call Unlock \<in> set (st_trace s)"
proof -
  obtain e s where r: "run demo_run_env demo_config demo_modules 0 = (Some (Err e), s)" "ups (st_trace s) = [''wallet'', ''party'']" "Did Lock \<in> set (st_trace s)"
    using demo_run_trace by blast
  then show ?thesis using run_torn_down [OF r(1)] by (auto simp: served_def torn_down_def lock_held_def)
qed

end
