(* ===== verification/Edge_Wire.thy ===== *)
theory Edge_Wire
  imports Gateway_Front
begin

text \<open>
  The edge protocol (\<open>core/edge/src\<close>): length-prefixed frames, the request and response envelopes, the
  server's method table and dispatch, and the client's call on one stream. The JSON codec of the envelopes is a
  parameter; what the transport does to a call is an argument of it.
\<close>

section \<open>Frames\<close>

definition max_frame :: nat where "max_frame = 16777216"

datatype edge_error =
  Io string | Codec string | Frame_too_large nat nat | Rcgen string | Rustls string | Tls string | Ca string | Connect string | Connection string | Stream string
| Remote_error string | Unknown_method_error string | Invalid_request_error string

text \<open>\<open>u32::to_be_bytes\<close> and \<open>from_be_bytes\<close>.\<close>

definition to_be_bytes :: "nat \<Rightarrow> string" where
  "to_be_bytes n = map (\<lambda>k. char_of (n div 256 ^ k)) [3, 2, 1, 0]"

definition from_be_bytes :: "string \<Rightarrow> nat" where
  "from_be_bytes bs = foldl (\<lambda>n b. n * 256 + of_char b) 0 bs"

definition frame_bytes :: "string \<Rightarrow> (edge_error, string) result" where
  "frame_bytes b = (if length b > max_frame then Err (Frame_too_large (length b) max_frame) else Ok (to_be_bytes (length b) @ b))"

text \<open>Reading from the bytes a finished stream still holds: \<open>read_exact\<close> fails where too few are left, and
  leaves the rest for the next read.\<close>

definition read_exact :: "nat \<Rightarrow> string \<Rightarrow> (string \<times> string) option" where
  "read_exact n bs = (if n \<le> length bs then Some (take n bs, drop n bs) else None)"

text \<open>The answer comes with the number of bytes allocated for the body.\<close>

definition read_frame_max :: "nat \<Rightarrow> string \<Rightarrow> ((edge_error, string \<times> string) result) \<times> nat" where
  "read_frame_max mx bs =
     (case read_exact 4 bs of
        None \<Rightarrow> (Err (Io ''unexpected end of file''), 0)
      | Some (len_buf, rest) \<Rightarrow>
          (let n = from_be_bytes len_buf
           in if n > mx then (Err (Frame_too_large n mx), 0)
              else (case read_exact n rest of
                      None \<Rightarrow> (Err (Io ''unexpected end of file''), n)
                    | Some (b, rest') \<Rightarrow> (Ok (b, rest'), n))))"

definition read_frame :: "string \<Rightarrow> (edge_error, string \<times> string) result" where
  "read_frame bs = fst (read_frame_max max_frame bs)"

text \<open>Reading frame after frame until the stream is used up or a frame is refused.\<close>

lemma read_exact_shorter: "read_exact n bs = Some (b, rest) \<Longrightarrow> length bs = n + length rest \<and> length b = n"
  by (auto simp: read_exact_def split: if_splits)

lemma read_frame_shorter:
  assumes "fst (read_frame_max mx bs) = Inr (b, rest)" shows "length rest < length bs"
proof (cases "read_exact 4 bs")
  case None
  then show ?thesis using assms by (simp add: read_frame_max_def)
next
  case (Some p)
  then show ?thesis using assms
    by (auto simp: read_frame_max_def Let_def split: prod.splits if_splits option.splits dest!: read_exact_shorter)
qed

function read_frames :: "nat \<Rightarrow> string \<Rightarrow> string list \<times> edge_error option" where
  "read_frames mx bs =
     (if bs = [] then ([], None)
      else case fst (read_frame_max mx bs) of
        Inl e \<Rightarrow> ([], Some e)
      | Inr (b, rest) \<Rightarrow> (case read_frames mx rest of (fs, e) \<Rightarrow> (b # fs, e)))"
  by pat_completeness auto
termination
  by (relation "measure (\<lambda>(mx, bs). length bs)") (auto dest: read_frame_shorter)

declare read_frames.simps [simp del]

section \<open>Envelopes\<close>

record edge_request =
  eq_method :: string
  eq_identity :: "string option"
  eq_payload :: string

datatype response_code = Unknown_method | Invalid_request

record edge_response =
  es_ok :: bool
  es_payload :: "string option"
  es_error :: "string option"
  es_code :: "response_code option"

text \<open>What \<open>serde_json\<close> does with them; a raw value is the JSON text kept verbatim, without the white space
  around it. The last field is the debug form of a text.\<close>

record envelope_codec =
  ec_request :: "edge_request \<Rightarrow> string"
  ec_parse_request :: "string \<Rightarrow> edge_request option"
  ec_response :: "edge_response \<Rightarrow> string"
  ec_parse_response :: "string \<Rightarrow> edge_response option"
  ec_raw :: "string \<Rightarrow> string option"
  ec_raw_error :: "string \<Rightarrow> string"
  ec_response_error :: "string \<Rightarrow> string"
  ec_debug :: "string \<Rightarrow> string"

text \<open>\<open>String::from_utf8_lossy\<close>: each maximal ill-formed stretch becomes a replacement character.\<close>

definition second_ok :: "nat \<Rightarrow> nat \<Rightarrow> bool" where
  "second_ok a b = (if a = 0xE0 then 0xA0 \<le> b \<and> b \<le> 0xBF else if a = 0xED then 0x80 \<le> b \<and> b \<le> 0x9F
     else if a = 0xF0 then 0x90 \<le> b \<and> b \<le> 0xBF else if a = 0xF4 then 0x80 \<le> b \<and> b \<le> 0x8F else utf8_cont b)"

text \<open>The length of the well-formed character a text starts with, or of the stretch to replace.\<close>

definition lossy_step :: "nat list \<Rightarrow> bool \<times> nat" where
  "lossy_step bs = (case bs of [] \<Rightarrow> (True, 0) | a # rest \<Rightarrow>
     (if a \<le> 0x7F then (True, 1)
      else if 0xC2 \<le> a \<and> a \<le> 0xDF then
        (case rest of b # _ \<Rightarrow> if utf8_cont b then (True, 2) else (False, 1) | [] \<Rightarrow> (False, 1))
      else if 0xE0 \<le> a \<and> a \<le> 0xEF then
        (case rest of b # r \<Rightarrow> if second_ok a b then (case r of c # _ \<Rightarrow> if utf8_cont c then (True, 3) else (False, 2) | [] \<Rightarrow> (False, 2)) else (False, 1)
         | [] \<Rightarrow> (False, 1))
      else if 0xF0 \<le> a \<and> a \<le> 0xF4 then
        (case rest of b # r \<Rightarrow> if second_ok a b
            then (case r of c # r' \<Rightarrow> if utf8_cont c then (case r' of d # _ \<Rightarrow> if utf8_cont d then (True, 4) else (False, 3) | [] \<Rightarrow> (False, 3)) else (False, 2)
                  | [] \<Rightarrow> (False, 2)) else (False, 1)
         | [] \<Rightarrow> (False, 1))
      else (False, 1)))"

lemma lossy_step_pos: "bs \<noteq> [] \<Longrightarrow> 0 < snd (lossy_step bs)"
  by (cases bs) (auto simp: lossy_step_def split: list.split)

function lossy_bytes :: "nat list \<Rightarrow> nat list" where
  "lossy_bytes bs = (if bs = [] then []
     else (case lossy_step bs of (ok, n) \<Rightarrow> (if ok then take n bs else [0xEF, 0xBF, 0xBD]) @ lossy_bytes (drop n bs)))"
  by pat_completeness auto
termination
proof (relation "measure length")
  fix bs ok n assume "bs \<noteq> ([] :: nat list)" "(ok, n) = lossy_step bs"
  then show "(drop n bs, bs) \<in> measure length" using lossy_step_pos [of bs] by (cases bs) (auto dest!: sym [of "(ok, n)"])
qed simp

declare lossy_bytes.simps [simp del]

definition from_utf8_lossy :: "string \<Rightarrow> string" where
  "from_utf8_lossy s = map char_of (lossy_bytes (map of_char s))"

section \<open>The server\<close>

text \<open>A handler answers bytes, an error that is or is not the marker of an undecodable body, or panics.\<close>

datatype handled = H_ok string | H_err string | H_invalid_body string | H_panics string

type_synonym 'w handler = "string \<Rightarrow> 'w \<Rightarrow> handled \<times> 'w"
type_synonym 'w identity_handler = "string option \<Rightarrow> 'w handler"
type_synonym 'w forward_handler = "string \<Rightarrow> 'w handler"

record 'w server =
  sv_handlers :: "string \<rightharpoonup> 'w handler"
  sv_id_handlers :: "string \<rightharpoonup> 'w identity_handler"
  sv_prefixes :: "(string \<times> 'w forward_handler) list"

definition server_new :: "'w server" where
  "server_new = \<lparr>sv_handlers = Map.empty, sv_id_handlers = Map.empty, sv_prefixes = []\<rparr>"

text \<open>\<open>None\<close> is the panic on a method registered twice.\<close>

definition assert_unregistered :: "string \<Rightarrow> 'w server \<Rightarrow> bool" where
  "assert_unregistered m sv = (sv_handlers sv m = None \<and> sv_id_handlers sv m = None)"

definition handle_method :: "string \<Rightarrow> 'w handler \<Rightarrow> 'w server \<Rightarrow> 'w server option" where
  "handle_method m h sv = (if assert_unregistered m sv then Some (sv\<lparr>sv_handlers := (sv_handlers sv)(m \<mapsto> h)\<rparr>) else None)"

definition handle_identity :: "string \<Rightarrow> 'w identity_handler \<Rightarrow> 'w server \<Rightarrow> 'w server option" where
  "handle_identity m h sv = (if assert_unregistered m sv then Some (sv\<lparr>sv_id_handlers := (sv_id_handlers sv)(m \<mapsto> h)\<rparr>) else None)"

definition handle_prefix :: "string \<Rightarrow> 'w forward_handler \<Rightarrow> 'w server \<Rightarrow> 'w server" where
  "handle_prefix prefix fwd sv = sv\<lparr>sv_prefixes := sv_prefixes sv @ [(prefix, fwd)]\<rparr>"

definition describe_method :: string where "describe_method = ''__describe''"

definition register_describe :: "(describe_manifest \<Rightarrow> string) \<Rightarrow> describe_manifest \<Rightarrow> 'w server \<Rightarrow> 'w server option" where
  "register_describe to_vec manifest sv = handle_method describe_method (\<lambda>_ w. (H_ok (to_vec manifest), w)) sv"

fun longest_prefix_from :: "string \<Rightarrow> (string \<times> 'w forward_handler) list \<Rightarrow> 'w forward_handler option \<Rightarrow> int \<Rightarrow> 'w forward_handler option" where
  "longest_prefix_from m [] best best_len = best"
| "longest_prefix_from m ((prefix, fwd) # ps) best best_len =
     (if take (length prefix) m = prefix \<and> int (length prefix) > best_len then longest_prefix_from m ps (Some fwd) (int (length prefix))
      else longest_prefix_from m ps best best_len)"

definition longest_prefix :: "string \<Rightarrow> 'w server \<Rightarrow> 'w forward_handler option" where
  "longest_prefix m sv = longest_prefix_from m (sv_prefixes sv) None (- 1)"

definition run_caught :: "handled \<times> 'w \<Rightarrow> handled \<times> 'w" where
  "run_caught r = (case r of (H_panics p, w) \<Rightarrow> (H_err (''edge: handler panic: '' @ p), w) | (h, w) \<Rightarrow> (h, w))"

definition err_response :: "string \<Rightarrow> edge_response" where
  "err_response msg = \<lparr>es_ok = False, es_payload = None, es_error = Some msg, es_code = None\<rparr>"

definition invalid_request_response :: "string \<Rightarrow> edge_response" where
  "invalid_request_response msg = \<lparr>es_ok = False, es_payload = None, es_error = Some msg, es_code = Some Invalid_request\<rparr>"

definition unknown_method_response :: "string \<Rightarrow> edge_response" where
  "unknown_method_response msg = \<lparr>es_ok = False, es_payload = None, es_error = Some msg, es_code = Some Unknown_method\<rparr>"

definition ok_response :: "envelope_codec \<Rightarrow> string \<Rightarrow> edge_response" where
  "ok_response ec bytes =
     (if bytes = [] then \<lparr>es_ok = True, es_payload = None, es_error = None, es_code = None\<rparr>
      else case ec_raw ec (from_utf8_lossy bytes) of
        Some raw \<Rightarrow> \<lparr>es_ok = True, es_payload = Some raw, es_error = None, es_code = None\<rparr>
      | None \<Rightarrow> err_response ''edge: handler produced non-JSON response'')"

text \<open>The handler a request runs, if any.\<close>

definition handler_for :: "'w server \<Rightarrow> string \<Rightarrow> string option \<Rightarrow> 'w handler option" where
  "handler_for sv m i = (case sv_handlers sv m of
     Some h \<Rightarrow> Some h
   | None \<Rightarrow> (case sv_id_handlers sv m of Some h \<Rightarrow> Some (h i) | None \<Rightarrow> map_option (\<lambda>fwd. fwd m) (longest_prefix m sv)))"

definition edge_dispatch :: "envelope_codec \<Rightarrow> 'w server \<Rightarrow> string \<Rightarrow> 'w \<Rightarrow> edge_response \<times> 'w" where
  "edge_dispatch ec sv req_bytes w =
     (case ec_parse_request ec req_bytes of
        None \<Rightarrow> (err_response ''edge: malformed request envelope'', w)
      | Some req \<Rightarrow>
          (case handler_for sv (eq_method req) (eq_identity req) of
             None \<Rightarrow> (unknown_method_response (''edge: unknown method '' @ ec_debug ec (eq_method req)), w)
           | Some h \<Rightarrow>
               (case run_caught (h (eq_payload req) w) of
                  (H_ok bytes, w') \<Rightarrow> (ok_response ec bytes, w')
                | (H_invalid_body e, w') \<Rightarrow> (invalid_request_response (''edge: invalid request body: '' @ e), w')
                | (H_err e, w') \<Rightarrow> (err_response e, w')
                | (H_panics e, w') \<Rightarrow> (err_response e, w'))))"

text \<open>One stream: \<open>None\<close> drops it without an answer; a reply too large for a frame finishes it empty.\<close>

definition serve_stream :: "envelope_codec \<Rightarrow> 'w server \<Rightarrow> bool \<Rightarrow> string \<Rightarrow> 'w \<Rightarrow> string option \<times> 'w" where
  "serve_stream ec sv arrives bytes w =
     (if \<not> arrives then (None, w)
      else case read_frame bytes of
        Inl _ \<Rightarrow> (None, w)
      | Inr (req_bytes, _) \<Rightarrow>
          (case edge_dispatch ec sv req_bytes w of (resp, w') \<Rightarrow>
             (case frame_bytes (ec_response ec resp) of Inl _ \<Rightarrow> (Some [], w') | Inr framed \<Rightarrow> (Some framed, w'))))"

section \<open>The client\<close>

text \<open>What the transport does to one call: opening the stream fails; writing fails, on a lost connection or
  not; the whole request reaches the peer within its grace, which a failed write does not rule out; reading
  the reply fails.\<close>

record call_env =
  ce_open :: "string option"
  ce_write :: "(bool \<times> string) option"
  ce_finish :: "string option"
  ce_arrives :: bool
  ce_reply :: "(bool \<times> string) option"

definition lost_or_stream :: "bool \<times> string \<Rightarrow> edge_error" where
  "lost_or_stream e = (case e of (lost, msg) \<Rightarrow> if lost then Connection msg else Stream msg)"

definition raw_from_bytes :: "envelope_codec \<Rightarrow> string \<Rightarrow> string option" where
  "raw_from_bytes ec payload = (if payload = [] then ec_raw ec ''null'' else ec_raw ec payload)"

definition read_call_frame :: "(bool \<times> string) option \<Rightarrow> string option \<Rightarrow> (edge_error, string) result" where
  "read_call_frame fault reply =
     (case fault of
        Some e \<Rightarrow> Err (lost_or_stream e)
      | None \<Rightarrow>
          (case Option.bind reply (read_exact 4) of
             None \<Rightarrow> Err (Stream ''stream finished early'')
           | Some (len, rest) \<Rightarrow>
               (let n = from_be_bytes len
                in if n > max_frame then Err (Frame_too_large n max_frame)
                   else (case read_exact n rest of None \<Rightarrow> Err (Stream ''stream finished early'') | Some (b, _) \<Rightarrow> Ok b))))"

definition reply_of :: "envelope_codec \<Rightarrow> string \<Rightarrow> (edge_error, string) result" where
  "reply_of ec resp_bytes =
     (case ec_parse_response ec resp_bytes of
        None \<Rightarrow> Err (Codec (ec_response_error ec resp_bytes))
      | Some resp \<Rightarrow>
          (if \<not> es_ok resp then
             (let msg = (case es_error resp of Some e \<Rightarrow> e | None \<Rightarrow> [])
              in case es_code resp of
                   Some Unknown_method \<Rightarrow> Err (Unknown_method_error msg)
                 | Some Invalid_request \<Rightarrow> Err (Invalid_request_error msg)
                 | None \<Rightarrow> Err (Remote_error msg))
           else Ok (case es_payload resp of Some p \<Rightarrow> p | None \<Rightarrow> [])))"

definition call_raw_id ::
  "envelope_codec \<Rightarrow> call_env \<Rightarrow> 'w server \<Rightarrow> string \<Rightarrow> string option \<Rightarrow> string \<Rightarrow> 'w \<Rightarrow> (edge_error, string) result \<times> 'w" where
  "call_raw_id ec ce sv m i payload w =
     (case raw_from_bytes ec payload of
        None \<Rightarrow> (Err (Codec (ec_raw_error ec payload)), w)
      | Some raw \<Rightarrow>
          (case ce_open ce of
             Some e \<Rightarrow> (Err (Connection e), w)
           | None \<Rightarrow>
               (case frame_bytes (ec_request ec \<lparr>eq_method = m, eq_identity = i, eq_payload = raw\<rparr>) of
                  Inl e \<Rightarrow> (Err e, w)
                | Inr framed \<Rightarrow>
                    (case serve_stream ec sv (ce_arrives ce) framed w of (reply, w') \<Rightarrow>
                       (case ce_write ce of
                          Some e \<Rightarrow> (Err (lost_or_stream e), w')
                        | None \<Rightarrow>
                            (case ce_finish ce of
                               Some e \<Rightarrow> (Err (Stream e), w')
                             | None \<Rightarrow>
                                 (case read_call_frame (ce_reply ce) reply of
                                    Inl e \<Rightarrow> (Err e, w')
                                  | Inr resp_bytes \<Rightarrow> (reply_of ec resp_bytes, w'))))))))"

definition edge_display :: "edge_error \<Rightarrow> string" where
  "edge_display e = (case e of
     Io s \<Rightarrow> ''edge: io: '' @ s | Codec s \<Rightarrow> ''edge: json codec: '' @ s
   | Rcgen s \<Rightarrow> ''edge: certificate generation: '' @ s | Rustls s \<Rightarrow> ''edge: rustls: '' @ s | Tls s \<Rightarrow> ''edge: tls config: '' @ s | Ca s \<Rightarrow> ''edge: dev CA: '' @ s
   | Frame_too_large n mx \<Rightarrow> ''edge: frame too large: '' @ nat_text n @ '' > '' @ nat_text mx
   | Connect s \<Rightarrow> ''edge: connect: '' @ s | Connection s \<Rightarrow> ''edge: connection: '' @ s | Stream s \<Rightarrow> ''edge: stream: '' @ s
   | Remote_error s \<Rightarrow> ''edge: remote error: '' @ s | Unknown_method_error s \<Rightarrow> s | Invalid_request_error s \<Rightarrow> s)"

definition edge_to_op :: "edge_error \<Rightarrow> op_error" where
  "edge_to_op e = (case e of
     Unknown_method_error msg \<Rightarrow> op_err Not_found msg
   | Invalid_request_error msg \<Rightarrow> op_err Invalid msg
   | other \<Rightarrow> op_err Unavailable (edge_display other))"

end
