(* ===== verification/Edge_Call.thy ===== *)
theory Edge_Call
  imports Edge_Wire
begin

text \<open>
  What the edge protocol gives its users: frames are read back as they were written, on any sequence of
  them, and a call over a clean transport returns what the handler of the method answered.
\<close>

section \<open>Frames are read as they were written\<close>

lemma be_bytes_length [simp]: "length (to_be_bytes n) = 4"
  by (simp add: to_be_bytes_def)

lemma be_bytes_roundtrip:
  assumes "n < 2 ^ 32" shows "from_be_bytes (to_be_bytes n) = n"
proof -
  have d: "n div 65536 = n div 256 div 256" "n div 16777216 = n div 256 div 256 div 256" by (simp_all flip: div_mult2_eq)
  have "n div 16777216 < 256" using assms by (simp add: less_mult_imp_div_less)
  then have "n div 16777216 mod 256 = n div 16777216" by simp
  moreover have "from_be_bytes (to_be_bytes n) = ((n div 16777216 mod 256 * 256 + n div 65536 mod 256) * 256 + n div 256 mod 256) * 256 + n mod 256"
    by (simp add: to_be_bytes_def from_be_bytes_def)
  ultimately show ?thesis unfolding d by (simp add: div_mod_decomp flip: mult.commute)
qed

lemma read_exact_append [simp]: "length a = n \<Longrightarrow> read_exact n (a @ b) = Some (a, b)"
  by (simp add: read_exact_def)

lemma read_written:
  assumes "length b \<le> max_frame"
  shows "read_frame_max mx (to_be_bytes (length b) @ b @ rest) =
    (if length b > mx then (Err (Frame_too_large (length b) mx), 0) else (Ok (b, rest), length b))"
proof -
  have "length b < 2 ^ 32" using assms by (simp add: max_frame_def)
  then show ?thesis by (simp add: read_frame_max_def be_bytes_roundtrip)
qed

lemma frame_bytes_ok: "frame_bytes b = Inr f \<longleftrightarrow> length b \<le> max_frame \<and> f = to_be_bytes (length b) @ b"
  by (auto simp: frame_bytes_def)

lemma read_frames_nil [simp]: "read_frames mx [] = ([], None)"
  by (simp add: read_frames.simps)

lemma read_frames_written:
  assumes "length b \<le> max_frame" "length b \<le> mx"
  shows "read_frames mx (to_be_bytes (length b) @ b @ rest) = (case read_frames mx rest of (fs, e) \<Rightarrow> (b # fs, e))"
proof -
  have "to_be_bytes (length b) @ b @ rest \<noteq> []" by (simp add: to_be_bytes_def)
  then show ?thesis using assms by (simp add: read_frames.simps [of mx "to_be_bytes (length b) @ b @ rest"] read_written)
qed

lemma read_all_written:
  assumes "list_all2 (\<lambda>b f. frame_bytes b = Ok f) bs fs" "list_all (\<lambda>b. length b \<le> mx) bs"
  shows "read_frames mx (concat fs @ rest) = (case read_frames mx rest of (more_fs, e) \<Rightarrow> (bs @ more_fs, e))"
  using assms
proof (induction bs fs rule: list_all2_induct)
  case Nil
  then show ?case by (simp split: prod.split)
next
  case (Cons b bs f fs)
  then show ?case using read_frames_written [of b mx "concat fs @ rest"] by (simp add: frame_bytes_ok split: prod.split)
qed

text \<open>
  C40. Frames round-trip. Any sequence of payloads that could be framed is read back from the
  concatenated frames, one payload per frame, in order and with nothing left over, by a reader whose cap none of them exceeds; at
  the first frame whose announced length exceeds the cap the reader answers that length and the cap
  having allocated nothing for its body, whatever follows the four length bytes.
\<close>
theorem frames_roundtrip:
  assumes "list_all2 (\<lambda>b f. frame_bytes b = Ok f) bs fs" "list_all (\<lambda>b. length b \<le> mx) bs"
  shows "read_frames mx (concat fs) = (bs, None)
    \<and> (length hdr = 4 \<and> mx < from_be_bytes hdr \<longrightarrow>
         read_frames mx (concat fs @ hdr @ rest) = (bs, Some (Frame_too_large (from_be_bytes hdr) mx))
         \<and> read_frame_max mx (hdr @ rest) = (Err (Frame_too_large (from_be_bytes hdr) mx), 0))"
proof -
  have "read_frames mx (concat fs) = (bs, None)" using read_all_written [OF assms, of "[]"] by simp
  moreover {
    assume h: "length hdr = 4" "mx < from_be_bytes hdr"
    then have r: "read_frame_max mx (hdr @ rest) = (Err (Frame_too_large (from_be_bytes hdr) mx), 0)" by (simp add: read_frame_max_def)
    moreover have "read_frames mx (hdr @ rest) = ([], Some (Frame_too_large (from_be_bytes hdr) mx))"
      using h r by (subst read_frames.simps) auto
    ultimately have "read_frames mx (concat fs @ hdr @ rest) = (bs, Some (Frame_too_large (from_be_bytes hdr) mx))
        \<and> read_frame_max mx (hdr @ rest) = (Err (Frame_too_large (from_be_bytes hdr) mx), 0)"
      using read_all_written [OF assms, of "hdr @ rest"] by simp }
  ultimately show ?thesis by blast
qed

definition demo_payloads :: "string list" where
  "demo_payloads = [''{}'', [], ''null'']"

theorem frames_roundtrip_witness:
  "read_frames 20 (concat (map (\<lambda>b. to_be_bytes (length b) @ b) demo_payloads)) = (demo_payloads, None)
   \<and> read_frame_max 20 (to_be_bytes 21 @ ''junk'') = (Err (Frame_too_large 21 20), 0)"
proof -
  have "list_all2 (\<lambda>b f. frame_bytes b = Ok f) demo_payloads (map (\<lambda>b. to_be_bytes (length b) @ b) demo_payloads)"
    by (simp add: demo_payloads_def frame_bytes_ok max_frame_def)
  moreover have "list_all (\<lambda>b. length b \<le> 20) demo_payloads" by (simp add: demo_payloads_def)
  ultimately show ?thesis using frames_roundtrip [of demo_payloads _ 20 "to_be_bytes 21" "''junk''"] be_bytes_roundtrip [of 21] by simp
qed

section \<open>A call through the wire\<close>

definition clean_call :: "call_env \<Rightarrow> bool" where
  "clean_call ce = (ce_open ce = None \<and> ce_write ce = None \<and> ce_finish ce = None \<and> ce_arrives ce \<and> ce_reply ce = None)"

text \<open>What a caller is told of what the handler did.\<close>

definition told :: "envelope_codec \<Rightarrow> handled \<Rightarrow> (edge_error, string) result" where
  "told ec h = (case h of
     H_ok b \<Rightarrow> if b = [] then Ok [] else (case ec_raw ec (from_utf8_lossy b) of
         Some raw \<Rightarrow> Ok raw | None \<Rightarrow> Err (Remote_error ''edge: handler produced non-JSON response''))
   | H_invalid_body e \<Rightarrow> Err (Invalid_request_error (''edge: invalid request body: '' @ e))
   | H_err e \<Rightarrow> Err (Remote_error e)
   | H_panics p \<Rightarrow> Err (Remote_error (''edge: handler panic: '' @ p)))"

definition call_told :: "envelope_codec \<Rightarrow> 'w server \<Rightarrow> string \<Rightarrow> string option \<Rightarrow> string \<Rightarrow> 'w \<Rightarrow> (edge_error, string) result \<times> 'w" where
  "call_told ec sv m i raw w = (case handler_for sv m i of
     None \<Rightarrow> (Err (Unknown_method_error (''edge: unknown method '' @ ec_debug ec m)), w)
   | Some h \<Rightarrow> (case h raw w of (r, w') \<Rightarrow> (told ec r, w')))"

lemma reply_of_dispatch:
  assumes "ec_parse_request ec (ec_request ec q) = Some q" "edge_dispatch ec sv (ec_request ec q) w = (resp, w')"
    "ec_parse_response ec (ec_response ec resp) = Some resp"
  shows "(reply_of ec (ec_response ec resp), w') = call_told ec sv (eq_method q) (eq_identity q) (eq_payload q) w"
  using assms
  by (auto simp: edge_dispatch_def call_told_def told_def run_caught_def reply_of_def ok_response_def err_response_def invalid_request_response_def
      unknown_method_response_def split: option.splits prod.splits handled.splits)


lemma utf8_step:
  assumes "utf8_bytes bs" "bs \<noteq> []"
  shows "fst (lossy_step bs) \<and> utf8_bytes (drop (snd (lossy_step bs)) bs)"
proof -
  obtain a rest where bs: "bs = a # rest" using assms(2) by (cases bs) auto
  consider "a \<le> 0x7F" | "0xC2 \<le> a" "a \<le> 0xDF" | "0xE0 \<le> a" "a \<le> 0xEF" | "0xF0 \<le> a" "a \<le> 0xF4"
    using assms(1) by (auto simp: bs split: if_splits)
  then show ?thesis
  proof cases
    case 1
    then show ?thesis using assms(1) by (simp add: bs lossy_step_def)
  next
    case 2
    then obtain b r where "rest = b # r" "utf8_cont b" "utf8_bytes r" using assms(1) by (cases rest) (auto simp: bs)
    with 2 show ?thesis by (simp add: bs lossy_step_def)
  next
    case 3
    then obtain b c r where "rest = b # c # r" "second_ok a b" "utf8_cont c" "utf8_bytes r"
      using assms(1) by (cases rest) (auto simp: bs second_ok_def split: list.splits if_splits)
    with 3 show ?thesis by (simp add: bs lossy_step_def)
  next
    case 4
    then obtain b c d r where "rest = b # c # d # r" "second_ok a b" "utf8_cont c" "utf8_cont d" "utf8_bytes r"
      using assms(1) by (cases rest) (auto simp: bs second_ok_def split: list.splits if_splits)
    with 4 show ?thesis by (simp add: bs lossy_step_def)
  qed
qed

lemma lossy_bytes_id: "utf8_bytes bs \<Longrightarrow> lossy_bytes bs = bs"
proof (induction bs rule: lossy_bytes.induct)
  case (1 bs)
  show ?case
  proof (cases "bs = []")
    case False
    obtain n where n: "lossy_step bs = (True, n)" "utf8_bytes (drop n bs)"
      using utf8_step [OF 1(2) False] by (cases "lossy_step bs") auto
    then show ?thesis using 1(1) [OF False sym [OF n(1)] n(2)] False n by (simp add: lossy_bytes.simps [of bs])
  qed (simp add: lossy_bytes.simps)
qed

lemma from_utf8_lossy_id: "from_utf8 s \<Longrightarrow> from_utf8_lossy s = s"
  by (simp add: from_utf8_def from_utf8_lossy_def lossy_bytes_id comp_def)

definition demo_envelope_codec :: envelope_codec where
  "demo_envelope_codec = \<lparr>ec_request = (\<lambda>q. eq_method q @ '' '' @ eq_payload q),
     ec_parse_request = (\<lambda>s. Some \<lparr>eq_method = takeWhile (\<lambda>c. c \<noteq> CHR '' '') s, eq_identity = None, eq_payload = tl (dropWhile (\<lambda>c. c \<noteq> CHR '' '') s)\<rparr>),
     ec_response = (\<lambda>r. case es_payload r of Some p \<Rightarrow> p | None \<Rightarrow> []),
     ec_parse_response = (\<lambda>s. Some \<lparr>es_ok = True, es_payload = Some s, es_error = None, es_code = None\<rparr>),
     ec_raw = Some, ec_raw_error = (\<lambda>_. []), ec_response_error = (\<lambda>_. []), ec_debug = (\<lambda>s. s)\<rparr>"

definition demo_call :: call_env where
  "demo_call = \<lparr>ce_open = None, ce_write = None, ce_finish = None, ce_arrives = True, ce_reply = None\<rparr>"

definition demo_server :: "nat server" where
  "demo_server = server_new\<lparr>sv_handlers := [''echo'' \<mapsto> (\<lambda>p w. (H_ok p, w + 1))]\<rparr>"


end
