(* ===== verification/Remote_Pool.thy ===== *)
theory Remote_Pool
  imports Edge_Call
begin

text \<open>
  The caller of a remote provider (\<open>core/remote/src/lib.rs\<close>): the connection that redials itself, the health of
  one instance, and the pool over all instances a provider resolves to, with its refresh, selection and the
  call that moves to a second instance.
\<close>

section \<open>The self-healing connection\<close>

datatype failure_provenance = Connection_fatal | Stream_local | Peer_answer

record call_failure =
  cl_mapped :: op_error
  cl_provenance :: failure_provenance

definition map_edge_call_failure :: "edge_error \<Rightarrow> call_failure" where
  "map_edge_call_failure e = \<lparr>cl_mapped = edge_to_op e, cl_provenance = (case e of
     Connection _ \<Rightarrow> Connection_fatal
   | Remote_error _ \<Rightarrow> Peer_answer | Unknown_method_error _ \<Rightarrow> Peer_answer | Invalid_request_error _ \<Rightarrow> Peer_answer
   | _ \<Rightarrow> Stream_local)\<rparr>"

text \<open>The network the peers live on: everything behind them, the requests they ran so far, and a supply of
  connections. A connection is identified by a number and goes to an address.\<close>

record executed =
  ex_addr :: string
  ex_method :: string
  ex_identity :: "string option"
  ex_payload :: string

record 'w net =
  nt_world :: 'w
  nt_ran :: "executed list"
  nt_next :: nat

type_synonym conn = "nat \<times> string"

text \<open>What one attempt meets: the answer of the address resolver, a fault of the dial, the transport of the
  call, and what concurrent callers do to the cached connection before it is reset.\<close>

datatype other_caller = Keep | Dropped | Redialed string

record attempt =
  at_resolve :: "(string, string) result"
  at_dial :: "string option"
  at_call :: call_env
  at_others :: other_caller

text \<open>A caller with a constant resolver dials one address for ever.\<close>

record reconnecting =
  rc_fixed :: "string option"
  rc_cur :: "conn option"

definition reconnecting_new :: "string option \<Rightarrow> reconnecting" where
  "reconnecting_new fixed = \<lparr>rc_fixed = fixed, rc_cur = None\<rparr>"

text \<open>Whether the peer ran the request of one call.\<close>

definition call_runs :: "envelope_codec \<Rightarrow> call_env \<Rightarrow> string \<Rightarrow> string option \<Rightarrow> string \<Rightarrow> bool" where
  "call_runs ec ce m i payload = (case raw_from_bytes ec payload of
     None \<Rightarrow> False
   | Some raw \<Rightarrow> ce_open ce = None \<and> ce_arrives ce \<and> length (ec_request ec \<lparr>eq_method = m, eq_identity = i, eq_payload = raw\<rparr>) \<le> max_frame)"

definition conn_call ::
  "envelope_codec \<Rightarrow> (string \<Rightarrow> 'w server) \<Rightarrow> conn \<Rightarrow> call_env \<Rightarrow> string \<Rightarrow> string option \<Rightarrow> string \<Rightarrow> 'w net \<Rightarrow> (call_failure, string) result \<times> 'w net" where
  "conn_call ec peers c ce m i payload nt =
     (case call_raw_id ec ce (peers (snd c)) m i payload (nt_world nt) of (r, w) \<Rightarrow>
        (map_sum map_edge_call_failure (\<lambda>v. v) r,
         nt\<lparr>nt_world := w, nt_ran := nt_ran nt @ (if call_runs ec ce m i payload
              then [\<lparr>ex_addr = snd c, ex_method = m, ex_identity = i, ex_payload = payload\<rparr>] else [])\<rparr>))"

definition edge_dial :: "attempt \<Rightarrow> reconnecting \<Rightarrow> 'w net \<Rightarrow> (op_error, conn) result \<times> 'w net" where
  "edge_dial at rc nt =
     (case (case rc_fixed rc of Some a \<Rightarrow> Ok a | None \<Rightarrow> at_resolve at) of
        Inl e \<Rightarrow> (Err (op_err Unavailable (''remote: cannot resolve peer edge addr: '' @ e)), nt)
      | Inr peer \<Rightarrow>
          (case at_dial at of
             Some e \<Rightarrow> (Err (op_err Unavailable e), nt)
           | None \<Rightarrow> (Ok (nt_next nt, peer), nt\<lparr>nt_next := Suc (nt_next nt)\<rparr>)))"

definition recon_get :: "attempt \<Rightarrow> reconnecting \<times> 'w net \<Rightarrow> (op_error, conn) result \<times> reconnecting \<times> 'w net" where
  "recon_get at s = (case s of (rc, nt) \<Rightarrow>
     (case rc_cur rc of
        Some c \<Rightarrow> (Ok c, rc, nt)
      | None \<Rightarrow> (case edge_dial at rc nt of
           (Inl e, nt1) \<Rightarrow> (Err e, rc, nt1)
         | (Inr c, nt1) \<Rightarrow> (Ok c, rc\<lparr>rc_cur := Some c\<rparr>, nt1))))"

definition recon_reset :: "conn \<Rightarrow> reconnecting \<Rightarrow> reconnecting" where
  "recon_reset failed rc = (case rc_cur rc of
     Some c \<Rightarrow> if fst c = fst failed then rc\<lparr>rc_cur := None\<rparr> else rc | None \<Rightarrow> rc)"

definition recon_close :: "reconnecting \<Rightarrow> reconnecting" where
  "recon_close rc = rc\<lparr>rc_cur := None\<rparr>"

definition recon_others :: "other_caller \<Rightarrow> reconnecting \<times> 'w net \<Rightarrow> reconnecting \<times> 'w net" where
  "recon_others oc s = (case s of (rc, nt) \<Rightarrow> (case oc of
     Keep \<Rightarrow> (rc, nt)
   | Dropped \<Rightarrow> (rc\<lparr>rc_cur := None\<rparr>, nt)
   | Redialed a \<Rightarrow> (rc\<lparr>rc_cur := Some (nt_next nt, case rc_fixed rc of Some f \<Rightarrow> f | None \<Rightarrow> a)\<rparr>, nt\<lparr>nt_next := Suc (nt_next nt)\<rparr>)))"

text \<open>One attempt on the current connection: the answer, or the failure with the connection it happened on.\<close>

definition recon_try ::
  "envelope_codec \<Rightarrow> (string \<Rightarrow> 'w server) \<Rightarrow> attempt \<Rightarrow> string \<Rightarrow> string option \<Rightarrow> string \<Rightarrow> reconnecting \<times> 'w net
     \<Rightarrow> (op_error + (call_failure, string) result) \<times> reconnecting \<times> 'w net" where
  "recon_try ec peers at m i payload s =
     (case recon_get at s of
        (Inl e, s1) \<Rightarrow> (Inl e, s1)
      | (Inr c, rc1, nt1) \<Rightarrow>
          (case conn_call ec peers c (at_call at) m i payload nt1 of
             (Inr v, nt2) \<Rightarrow> (Inr (Ok v), rc1, nt2)
           | (Inl f, nt2) \<Rightarrow>
               (if cl_provenance f \<noteq> Connection_fatal then (Inr (Err f), rc1, nt2)
                else (case recon_others (at_others at) (rc1, nt2) of (rc2, nt3) \<Rightarrow> (Inr (Err f), recon_reset c rc2, nt3)))))"

definition recon_call ::
  "envelope_codec \<Rightarrow> (string \<Rightarrow> 'w server) \<Rightarrow> attempt \<times> attempt \<Rightarrow> string \<Rightarrow> string option \<Rightarrow> string \<Rightarrow> retry_mode \<Rightarrow> reconnecting \<times> 'w net
     \<Rightarrow> (op_error, string) result \<times> reconnecting \<times> 'w net" where
  "recon_call ec peers ats m i payload mode s =
     (case recon_try ec peers (fst ats) m i payload s of
        (Inl e, s1) \<Rightarrow> (Err e, s1)
      | (Inr (Inr v), s1) \<Rightarrow> (Ok v, s1)
      | (Inr (Inl first), s1) \<Rightarrow>
          (if cl_provenance first \<noteq> Connection_fatal then (Err (cl_mapped first), s1)
           else if mode = Never then (Err (cl_mapped first), s1)
           else (case recon_try ec peers (snd ats) m i payload s1 of
                   (Inl e, s2) \<Rightarrow> (Err e, s2)
                 | (Inr (Inr v), s2) \<Rightarrow> (Ok v, s2)
                 | (Inr (Inl second), s2) \<Rightarrow> (Err (cl_mapped second), s2))))"

section \<open>Health\<close>

definition probe_stall_max :: nat where "probe_stall_max = 15"

definition readiness_verdict :: "(string, unit) result \<Rightarrow> nat \<Rightarrow> nat \<Rightarrow> (string, unit) result" where
  "readiness_verdict verdict last_probe_at now =
     (if last_probe_at \<noteq> 0 \<and> now - last_probe_at > probe_stall_max
      then Err ''stub probe stalled: no completed peer probe in >15s (probe task may have died)'' else verdict)"

record instance_health =
  ih_verdict :: "(string, unit) result"
  ih_last_probe :: nat

definition health_seed :: instance_health where
  "health_seed = \<lparr>ih_verdict = Err ''probe pending'', ih_last_probe = 0\<rparr>"

definition healthy :: "nat \<Rightarrow> instance_health \<Rightarrow> bool" where
  "healthy now h = (readiness_verdict (ih_verdict h) (ih_last_probe h) now = Ok ())"

definition is_selectable :: "nat \<Rightarrow> instance_health \<Rightarrow> bool" where
  "is_selectable now h = (ih_last_probe h = 0 \<or> healthy now h)"

text \<open>One pass of the probe loop, with the seconds it then waits.\<close>

definition probe_pass :: "(string, unit) result \<Rightarrow> nat \<Rightarrow> instance_health \<Rightarrow> instance_health \<times> nat" where
  "probe_pass v now h = (h\<lparr>ih_verdict := v, ih_last_probe := max now 1\<rparr>, case v of Inl _ \<Rightarrow> 1 | Inr _ \<Rightarrow> 5)"

section \<open>The pool\<close>

record pool_instance =
  in_addr :: string
  in_caller :: reconnecting
  in_health :: instance_health

definition instance_new :: "string \<Rightarrow> pool_instance" where
  "instance_new addr = \<lparr>in_addr = addr, in_caller = reconnecting_new (Some addr), in_health = health_seed\<rparr>"

record pool_state =
  ps_instances :: "pool_instance list"
  ps_cursor :: nat
  ps_last_refresh :: nat
  ps_resolve_seq :: nat
  ps_applied_gen :: nat

definition pool_new :: pool_state where
  "pool_new = \<lparr>ps_instances = [], ps_cursor = 0, ps_last_refresh = 0, ps_resolve_seq = 0, ps_applied_gen = 0\<rparr>"

definition pool_refresh_interval :: nat where "pool_refresh_interval = 5"

text \<open>The first of every address, in order.\<close>

fun wanted :: "string list \<Rightarrow> string list \<Rightarrow> string list" where
  "wanted seen [] = []"
| "wanted seen (a # addrs) = (if a \<in> set seen then wanted seen addrs else a # wanted (a # seen) addrs)"

fun place :: "string list \<Rightarrow> pool_instance list \<Rightarrow> pool_instance list" where
  "place [] kept = []"
| "place (addr # addrs) kept = (case find (\<lambda>i. in_addr i = addr) kept of
     Some i \<Rightarrow> i # place addrs (remove1 i kept) | None \<Rightarrow> instance_new addr # place addrs kept)"

text \<open>The new set, and the instances to tear down.\<close>

definition reconcile_pool :: "pool_instance list \<Rightarrow> string list \<Rightarrow> pool_instance list \<times> pool_instance list" where
  "reconcile_pool current addrs =
     (let ws = wanted [] addrs
      in (place ws (filter (\<lambda>i. in_addr i \<in> set ws) current), filter (\<lambda>i. in_addr i \<notin> set ws) current))"

definition resolve_begin :: "pool_state \<Rightarrow> nat \<times> pool_state" where
  "resolve_begin ps = (Suc (ps_resolve_seq ps), ps\<lparr>ps_resolve_seq := Suc (ps_resolve_seq ps)\<rparr>)"

definition resolve_end :: "nat \<Rightarrow> (string, string list) result \<Rightarrow> pool_state \<Rightarrow> pool_state" where
  "resolve_end my_gen answer ps = (case answer of
     Inl _ \<Rightarrow> ps
   | Inr addrs \<Rightarrow>
       (if my_gen \<le> ps_applied_gen ps then ps
        else ps\<lparr>ps_applied_gen := my_gen, ps_instances := fst (reconcile_pool (ps_instances ps) addrs)\<rparr>))"

text \<open>What a refresh meets: another caller winning the slot, and the resolver's answer.\<close>

record refresh_env =
  rf_slot_lost :: bool
  rf_answer :: "(string, string list) result"

definition refresh :: "refresh_env \<Rightarrow> nat \<Rightarrow> pool_state \<Rightarrow> pool_state" where
  "refresh rf now ps =
     (if ps_last_refresh ps \<noteq> 0 \<and> now - ps_last_refresh ps < pool_refresh_interval then ps
      else if rf_slot_lost rf then ps
      else (case resolve_begin (ps\<lparr>ps_last_refresh := max now 1\<rparr>) of (my_gen, ps1) \<Rightarrow> resolve_end my_gen (rf_answer rf) ps1))"

definition fetch_add_cursor :: "pool_state \<Rightarrow> nat \<times> pool_state" where
  "fetch_add_cursor ps = (ps_cursor ps, ps\<lparr>ps_cursor := (ps_cursor ps + 1) mod 2 ^ 64\<rparr>)"

definition select_excluding :: "string option \<Rightarrow> nat \<Rightarrow> pool_state \<Rightarrow> nat option \<times> pool_state" where
  "select_excluding exclude now ps =
     (let n = length (ps_instances ps)
      in if n = 0 then (None, ps)
         else (case fetch_add_cursor ps of (cur, ps1) \<Rightarrow>
           (find (\<lambda>i. exclude \<noteq> Some (in_addr (ps_instances ps ! i)) \<and> is_selectable now (in_health (ps_instances ps ! i)))
              (map (\<lambda>off. (cur mod n + off) mod n) [0..<n]), ps1)))"

definition select :: "nat \<Rightarrow> pool_state \<Rightarrow> nat option \<times> pool_state" where
  "select now ps = select_excluding None now ps"

definition readiness_at :: "nat \<Rightarrow> pool_state \<Rightarrow> (string, unit) result" where
  "readiness_at now ps =
     (if ps_instances ps = [] then Err ''remote pool: no resolved instances yet''
      else if length (filter (\<lambda>i. healthy now (in_health i)) (ps_instances ps)) = 0
      then Err (''remote pool: all '' @ nat_text (length (ps_instances ps)) @ '' instance(s) down'')
      else Ok ())"

definition pool_stop :: "pool_state \<Rightarrow> pool_instance list \<times> pool_state" where
  "pool_stop ps = (map (\<lambda>i. i\<lparr>in_caller := recon_close (in_caller i)\<rparr>) (ps_instances ps), ps\<lparr>ps_instances := []\<rparr>)"

text \<open>What one call meets: the clock, the refresh, the attempts on the first and the second instance, and
  what concurrent calls and refreshes make of the pool before the failover.\<close>

record pool_env =
  pe_now :: nat
  pe_refresh :: refresh_env
  pe_first :: "attempt \<times> attempt"
  pe_second :: "attempt \<times> attempt"
  pe_others :: "pool_state \<Rightarrow> pool_state"

text \<open>A call runs on a clone of the instance's caller; its connection state is the instance's, as long as the
  instance is still in the set.\<close>

definition put_caller :: "pool_instance \<Rightarrow> reconnecting \<Rightarrow> pool_state \<Rightarrow> pool_state" where
  "put_caller inst rc ps = ps\<lparr>ps_instances := map (\<lambda>i. if in_addr i = in_addr inst then i\<lparr>in_caller := rc\<rparr> else i) (ps_instances ps)\<rparr>"

definition pool_call ::
  "envelope_codec \<Rightarrow> (string \<Rightarrow> 'w server) \<Rightarrow> pool_env \<Rightarrow> string \<Rightarrow> string option \<Rightarrow> string \<Rightarrow> retry_mode \<Rightarrow> pool_state \<times> 'w net
     \<Rightarrow> (op_error, string) result \<times> pool_state \<times> 'w net" where
  "pool_call ec peers pe m i payload mode s =
     (case select (pe_now pe) (refresh (pe_refresh pe) (pe_now pe) (fst s)) of
        (None, ps1) \<Rightarrow>
          (Err (op_err Unavailable ''remote pool: no reachable instance (all resolved instances down, or none resolved yet)''), ps1, snd s)
      | (Some k, ps1) \<Rightarrow>
          (let first = ps_instances ps1 ! k
           in case recon_call ec peers (pe_first pe) m i payload mode (in_caller first, snd s) of
                (Inr v, rc, nt1) \<Rightarrow> (Ok v, put_caller first rc ps1, nt1)
              | (Inl first_err, rc, nt1) \<Rightarrow>
                  (if mode \<noteq> Once_after_reconnect \<or> is_definitive_answer (err_status first_err)
                   then (Err first_err, put_caller first rc ps1, nt1)
                   else (case select_excluding (Some (in_addr first)) (pe_now pe) (pe_others pe (put_caller first rc ps1)) of
                           (None, ps2) \<Rightarrow> (Err first_err, ps2, nt1)
                         | (Some j, ps2) \<Rightarrow>
                             (let second = ps_instances ps2 ! j
                              in case recon_call ec peers (pe_second pe) m i payload mode (in_caller second, nt1) of
                                   (r, rc2, nt2) \<Rightarrow> (r, put_caller second rc2 ps2, nt2))))))"

end
