(* ===== verification/Remote_Runs.thy ===== *)
theory Remote_Runs
  imports Remote_Pool Gateway_Admission
begin

text \<open>
  How often a provider runs a request that a player sent once: bounds for a connection, a pool and the
  gateway in front of the pools, by the retry mode the operation declares.
\<close>

section \<open>How often a request runs\<close>

definition recon_ok :: "string \<Rightarrow> reconnecting \<Rightarrow> bool" where
  "recon_ok a rc \<longleftrightarrow> rc_fixed rc = Some a \<and> (\<forall>c. rc_cur rc = Some c \<longrightarrow> snd c = a)"

definition pool_ok :: "pool_state \<Rightarrow> bool" where
  "pool_ok ps \<longleftrightarrow> (\<forall>i \<in> set (ps_instances ps). recon_ok (in_addr i) (in_caller i))"

text \<open>Between two states of the network the peers ran at most so many requests, all of them this one, at one address.\<close>

definition ran_at :: "string \<Rightarrow> nat \<Rightarrow> string \<Rightarrow> string option \<Rightarrow> string \<Rightarrow> 'w net \<Rightarrow> 'w net \<Rightarrow> bool" where
  "ran_at a n m i payload nt nt' \<longleftrightarrow> (\<exists>k \<le> n. nt_ran nt' = nt_ran nt @ replicate k \<lparr>ex_addr = a, ex_method = m, ex_identity = i, ex_payload = payload\<rparr>)"

lemma ran_at_same [simp]: "nt_ran nt' = nt_ran nt \<Longrightarrow> ran_at a n m i payload nt nt'"
  by (auto simp: ran_at_def intro: exI [of _ 0])

lemma ran_at_trans:
  assumes "ran_at a n1 m i payload nt nt1" "ran_at a n2 m i payload nt1 nt2" "n1 + n2 \<le> n"
  shows "ran_at a n m i payload nt nt2"
proof -
  obtain k1 k2 where k: "k1 \<le> n1" "k2 \<le> n2" "nt_ran nt1 = nt_ran nt @ replicate k1 \<lparr>ex_addr = a, ex_method = m, ex_identity = i, ex_payload = payload\<rparr>"
    "nt_ran nt2 = nt_ran nt1 @ replicate k2 \<lparr>ex_addr = a, ex_method = m, ex_identity = i, ex_payload = payload\<rparr>"
    using assms(1,2) by (auto simp: ran_at_def)
  then have "nt_ran nt2 = nt_ran nt @ replicate (k1 + k2) \<lparr>ex_addr = a, ex_method = m, ex_identity = i, ex_payload = payload\<rparr>"
    by (simp add: replicate_add)
  moreover have "k1 + k2 \<le> n" using k(1,2) assms(3) by simp
  ultimately show ?thesis unfolding ran_at_def by blast
qed

lemma ran_at_mono: "ran_at a n m i payload nt nt' \<Longrightarrow> n \<le> n' \<Longrightarrow> ran_at a n' m i payload nt nt'"
  by (auto simp: ran_at_def)

lemma conn_call_ran:
  assumes "conn_call ec peers c ce m i payload nt = (r, nt')" shows "ran_at (snd c) 1 m i payload nt nt'"
proof (cases "call_runs ec ce m i payload")
  case True
  then show ?thesis using assms unfolding ran_at_def by (intro exI [of _ 1]) (auto simp: conn_call_def split: prod.splits)
next
  case False
  then show ?thesis using assms by (auto simp: conn_call_def split: prod.splits)
qed

lemma recon_get_ok:
  assumes "recon_get at (rc, nt) = (r, rc', nt')" "recon_ok a rc"
  shows "recon_ok a rc' \<and> nt_ran nt' = nt_ran nt \<and> (\<forall>c. r = Ok c \<longrightarrow> snd c = a)"
  using assms by (auto simp: recon_get_def edge_dial_def recon_ok_def split: option.splits sum.splits prod.splits)

lemma recon_others_ok:
  assumes "recon_others oc (rc, nt) = (rc', nt')" "recon_ok a rc"
  shows "recon_ok a rc' \<and> nt_ran nt' = nt_ran nt"
  using assms by (cases oc) (auto simp: recon_others_def recon_ok_def)

lemma recon_reset_ok: "recon_ok a rc \<Longrightarrow> recon_ok a (recon_reset c rc)"
  by (auto simp: recon_reset_def recon_ok_def split: option.splits)

lemma recon_try_ran:
  assumes t: "recon_try ec peers at m i payload (rc, nt) = (r, rc', nt')" and ok: "recon_ok a rc"
  shows "recon_ok a rc' \<and> ran_at a 1 m i payload nt nt'"
proof -
  obtain g rc1 nt1 where g: "recon_get at (rc, nt) = (g, rc1, nt1)" by (cases "recon_get at (rc, nt)") auto
  note go = recon_get_ok [OF g ok]
  show ?thesis
  proof (cases g)
    case (Inl e)
    then show ?thesis using t g go by (simp add: recon_try_def)
  next
    case (Inr c)
    obtain x nt2 where x: "conn_call ec peers c (at_call at) m i payload nt1 = (x, nt2)" by fastforce
    have ra: "ran_at a 1 m i payload nt nt2"
      using ran_at_trans [of a 0 m i payload nt nt1 1 nt2 1] conn_call_ran [OF x] go Inr by simp
    obtain rc2 nt3 where o: "recon_others (at_others at) (rc1, nt2) = (rc2, nt3)" by fastforce
    have "ran_at a 1 m i payload nt nt3"
      using ran_at_trans [of a 1 m i payload nt nt2 0 nt3 1] ra recon_others_ok [OF o conjunct1 [OF go]] by simp
    then show ?thesis using t g Inr x o ra go recon_others_ok [OF o] by (auto simp: recon_try_def recon_reset_ok split: sum.splits if_splits)
  qed
qed

lemma recon_call_ran:
  assumes t: "recon_call ec peers ats m i payload mode (rc, nt) = (r, rc', nt')" and ok: "recon_ok a rc"
  shows "recon_ok a rc' \<and> ran_at a (if mode = Never then 1 else 2) m i payload nt nt'"
proof -
  obtain x rc1 nt1 where x: "recon_try ec peers (fst ats) m i payload (rc, nt) = (x, rc1, nt1)" by (cases "recon_try ec peers (fst ats) m i payload (rc, nt)") auto
  note a = recon_try_ran [OF x ok]
  obtain y rc2 nt2 where y: "recon_try ec peers (snd ats) m i payload (rc1, nt1) = (y, rc2, nt2)" by (cases "recon_try ec peers (snd ats) m i payload (rc1, nt1)") auto
  note b = recon_try_ran [OF y conjunct1 [OF a]]
  have "ran_at a 2 m i payload nt nt2" using ran_at_trans [OF conjunct2 [OF a] conjunct2 [OF b]] by simp
  moreover have "ran_at a 2 m i payload nt nt1" using ran_at_mono [OF conjunct2 [OF a]] by simp
  ultimately show ?thesis using t x y a b by (auto simp: recon_call_def split: sum.splits if_splits)
qed

section \<open>The pool keeps its callers to their addresses\<close>

lemma place_ok:
  assumes "\<And>x. x \<in> set kept \<Longrightarrow> recon_ok (in_addr x) (in_caller x)"
  shows "x \<in> set (place addrs kept) \<Longrightarrow> recon_ok (in_addr x) (in_caller x)"
  using assms
proof (induction addrs kept rule: place.induct)
  case (2 addr addrs kept)
  show ?case
  proof (cases "find (\<lambda>i. in_addr i = addr) kept")
    case None
    then show ?thesis using 2 by (auto simp: instance_new_def reconnecting_new_def recon_ok_def)
  next
    case (Some j)
    then have "j \<in> set kept" by (auto simp: find_Some_iff)
    moreover have "y \<in> set (remove1 j kept) \<Longrightarrow> recon_ok (in_addr y) (in_caller y)" for y
      using 2(4) by (auto dest: notin_set_remove1)
    ultimately show ?thesis using Some 2(2) [OF Some] 2(3,4) by auto
  qed
qed simp

lemma resolve_end_ok:
  assumes "pool_ok ps" shows "pool_ok (resolve_end g answer ps)"
proof (cases answer)
  case (Inr addrs)
  have "recon_ok (in_addr x) (in_caller x)" if "x \<in> set (fst (reconcile_pool (ps_instances ps) addrs))" for x
    using place_ok [of "filter (\<lambda>i. in_addr i \<in> set (wanted [] addrs)) (ps_instances ps)" x] that assms by (simp add: reconcile_pool_def Let_def pool_ok_def)
  then show ?thesis using assms Inr by (simp add: resolve_end_def pool_ok_def)
qed (use assms in \<open>simp add: resolve_end_def\<close>)

lemma refresh_ok: "pool_ok ps \<Longrightarrow> pool_ok (refresh rf now ps)"
  by (auto simp: refresh_def resolve_begin_def intro!: resolve_end_ok) (simp add: pool_ok_def)+

lemma select_excluding_ok:
  assumes "select_excluding exclude now ps = (r, ps')"
  shows "ps_instances ps' = ps_instances ps \<and> (\<forall>k. r = Some k \<longrightarrow> k < length (ps_instances ps) \<and> exclude \<noteq> Some (in_addr (ps_instances ps ! k)))"
  using assms by (auto simp: select_excluding_def fetch_add_cursor_def Let_def find_Some_iff split: if_splits)

lemma pool_ok_nth: "pool_ok ps \<Longrightarrow> k < length (ps_instances ps) \<Longrightarrow> recon_ok (in_addr (ps_instances ps ! k)) (in_caller (ps_instances ps ! k))"
  by (simp add: pool_ok_def)

lemma put_caller_ok: "pool_ok ps \<Longrightarrow> recon_ok (in_addr x) rc \<Longrightarrow> pool_ok (put_caller x rc ps)"
  by (auto simp: put_caller_def pool_ok_def)

text \<open>What a call through a pool may have run: on one instance, and after it on another.\<close>

definition pool_ran :: "retry_mode \<Rightarrow> string \<Rightarrow> string option \<Rightarrow> string \<Rightarrow> 'w net \<Rightarrow> 'w net \<Rightarrow> bool" where
  "pool_ran mode m i payload nt nt' \<longleftrightarrow>
     (\<exists>a b nt1. a \<noteq> b \<and> ran_at a (if mode = Never then 1 else 2) m i payload nt nt1 \<and> ran_at b (if mode = Never then 0 else 2) m i payload nt1 nt')"

lemma pool_ran_one: "ran_at a (if mode = Never then 1 else 2) m i payload nt nt' \<Longrightarrow> pool_ran mode m i payload nt nt'"
  unfolding pool_ran_def using ran_at_same [of nt' nt'] by (metis list.distinct(1))

lemma pool_call_ran:
  assumes t: "pool_call ec peers pe m i payload mode (ps, nt) = (r, ps', nt')" and ok: "pool_ok ps" and rely: "\<And>ps. pool_ok ps \<Longrightarrow> pool_ok (pe_others pe ps)"
  shows "pool_ok ps' \<and> pool_ran mode m i payload nt nt'"
proof -
  let ?n = "if mode = Never then 1 else 2 :: nat"
  obtain sel ps1 where s: "select (pe_now pe) (refresh (pe_refresh pe) (pe_now pe) ps) = (sel, ps1)" by fastforce
  have p1: "pool_ok ps1" using refresh_ok [OF ok] select_excluding_ok [of None "pe_now pe" _ sel ps1] s by (simp add: select_def pool_ok_def)
  show ?thesis
  proof (cases sel)
    case None
    then show ?thesis using t s p1 pool_ran_one [OF ran_at_same, of nt' nt] by (simp add: pool_call_def)
  next
    case (Some k)
    then have k: "k < length (ps_instances ps1)" using select_excluding_ok [OF s [unfolded select_def]] by auto
    let ?f = "ps_instances ps1 ! k"
    obtain x rc nt1 where x: "recon_call ec peers (pe_first pe) m i payload mode (in_caller ?f, nt) = (x, rc, nt1)"
      by (cases "recon_call ec peers (pe_first pe) m i payload mode (in_caller ?f, nt)") auto
    note a = recon_call_ran [OF x pool_ok_nth [OF p1 k]]
    have pa: "pool_ok (put_caller ?f rc ps1)" using put_caller_ok [OF p1] a by simp
    obtain sel2 ps2 where s2: "select_excluding (Some (in_addr ?f)) (pe_now pe) (pe_others pe (put_caller ?f rc ps1)) = (sel2, ps2)" by fastforce
    note e2 = select_excluding_ok [OF s2]
    have p2: "pool_ok ps2" using rely [OF pa] e2 by (simp add: pool_ok_def)
    show ?thesis
    proof (cases "(\<exists>v. x = Ok v) \<or> (\<exists>e. x = Err e \<and> (mode \<noteq> Once_after_reconnect \<or> is_definitive_answer (err_status e) \<or> sel2 = None))")
      case True
      then have "(ps' = put_caller ?f rc ps1 \<or> ps' = ps2) \<and> nt' = nt1" using t s Some x s2 by (auto simp: pool_call_def Let_def split: if_splits)
      then show ?thesis using pa p2 pool_ran_one [OF conjunct2 [OF a]] by auto
    next
      case False
      then obtain e j where e: "x = Err e" "mode = Once_after_reconnect" "\<not> is_definitive_answer (err_status e)" "sel2 = Some j" by (cases x) auto
      let ?g = "ps_instances ps2 ! j"
      have j: "j < length (ps_instances ps2)" "in_addr ?f \<noteq> in_addr ?g" using e2 e(4) by auto
      obtain y rc2 nt2 where y: "recon_call ec peers (pe_second pe) m i payload mode (in_caller ?g, nt1) = (y, rc2, nt2)"
        by (cases "recon_call ec peers (pe_second pe) m i payload mode (in_caller ?g, nt1)") auto
      note b = recon_call_ran [OF y pool_ok_nth [OF p2 j(1)]]
      have "ps' = put_caller ?g rc2 ps2" "nt' = nt2" using t s Some x s2 y e by (simp_all add: pool_call_def Let_def)
      moreover have "pool_ran mode m i payload nt nt2" using a b j(2) e(2) unfolding pool_ran_def by auto
      ultimately show ?thesis using put_caller_ok [OF p2] b by simp
    qed
  qed
qed

section \<open>The gateway over its pools\<close>

text \<open>Every pool of the gateway, and the network they share.\<close>

record 'w fleet =
  fl_pools :: "nat \<Rightarrow> pool_state"
  fl_net :: "'w net"

definition fleet_call ::
  "envelope_codec \<Rightarrow> (string \<Rightarrow> 'w server) \<Rightarrow> pool_env \<Rightarrow> pool \<Rightarrow> string \<Rightarrow> string option \<Rightarrow> string \<Rightarrow> retry_mode \<Rightarrow> 'w fleet
     \<Rightarrow> (op_error, string) result \<times> 'w fleet" where
  "fleet_call ec peers pe p m i payload mode fl =
     (case pool_call ec peers pe m i payload mode (fl_pools fl (pl_id p), fl_net fl) of
        (r, ps, nt) \<Rightarrow> (r, fl\<lparr>fl_pools := (fl_pools fl)(pl_id p := ps), fl_net := nt\<rparr>))"

definition fleet_ok :: "'w fleet \<Rightarrow> bool" where
  "fleet_ok fl \<longleftrightarrow> (\<forall>n. pool_ok (fl_pools fl n))"

text \<open>The requests the peers ran during a step.\<close>

definition ran_since :: "'w fleet \<Rightarrow> 'w fleet \<Rightarrow> executed list" where
  "ran_since fl fl' = drop (length (nt_ran (fl_net fl))) (nt_ran (fl_net fl'))"

definition ran_bounded :: "retry_mode \<Rightarrow> string \<Rightarrow> string option \<Rightarrow> string \<Rightarrow> executed list \<Rightarrow> bool" where
  "ran_bounded mode m i payload ex \<longleftrightarrow>
     (\<forall>e \<in> set ex. ex_method e = m \<and> ex_identity e = i \<and> ex_payload e = payload)
     \<and> (\<exists>a b k l. a \<noteq> b \<and> map ex_addr ex = replicate k a @ replicate l b
          \<and> k \<le> (if mode = Never then 1 else 2) \<and> l \<le> (if mode = Never then 0 else 2))"

lemma pool_ran_bounded:
  assumes "pool_ran mode m i payload nt nt'"
  shows "\<exists>ex. nt_ran nt' = nt_ran nt @ ex \<and> ran_bounded mode m i payload ex"
proof -
  let ?e = "\<lambda>a. \<lparr>ex_addr = a, ex_method = m, ex_identity = i, ex_payload = payload\<rparr>"
  obtain a b nt1 where ab: "a \<noteq> b" "ran_at a (if mode = Never then 1 else 2) m i payload nt nt1" "ran_at b (if mode = Never then 0 else 2) m i payload nt1 nt'"
    using assms unfolding pool_ran_def by blast
  obtain k where k: "k \<le> (if mode = Never then 1 else 2)" "nt_ran nt1 = nt_ran nt @ replicate k (?e a)" using ab(2) unfolding ran_at_def by blast
  obtain l where l: "l \<le> (if mode = Never then 0 else 2)" "nt_ran nt' = nt_ran nt1 @ replicate l (?e b)" using ab(3) unfolding ran_at_def by blast
  have "map ex_addr (replicate k (?e a) @ replicate l (?e b)) = replicate k a @ replicate l b" by (simp add: map_replicate_const)
  then have "ran_bounded mode m i payload (replicate k (?e a) @ replicate l (?e b))"
    unfolding ran_bounded_def using ab(1) k(1) l(1) by (intro conjI exI [of _ a] exI [of _ b] exI [of _ k] exI [of _ l]) auto
  then show ?thesis using k(2) l(2) by (intro exI [of _ "replicate k (?e a) @ replicate l (?e b)"]) simp
qed

lemma fleet_call_ran:
  assumes c: "fleet_call ec peers pe p m i payload mode fl = (r, fl')" and ok: "fleet_ok fl" and rely: "\<And>ps. pool_ok ps \<Longrightarrow> pool_ok (pe_others pe ps)"
  shows "fleet_ok fl' \<and> ran_bounded mode m i payload (ran_since fl fl')"
proof -
  obtain r' ps nt where p: "pool_call ec peers pe m i payload mode (fl_pools fl (pl_id p), fl_net fl) = (r', ps, nt)"
    by (cases "pool_call ec peers pe m i payload mode (fl_pools fl (pl_id p), fl_net fl)") auto
  have "pool_ok (fl_pools fl (pl_id p))" using ok by (simp add: fleet_ok_def)
  from pool_call_ran [OF p this rely] obtain ex where "pool_ok ps" "nt_ran nt = nt_ran (fl_net fl) @ ex" "ran_bounded mode m i payload ex"
    using pool_ran_bounded by blast
  moreover have "fl' = fl\<lparr>fl_pools := (fl_pools fl)(pl_id p := ps), fl_net := nt\<rparr>" using c p by (simp add: fleet_call_def)
  ultimately show ?thesis using ok by (simp add: fleet_ok_def ran_since_def)
qed

lemma ran_bounded_nil [simp]: "ran_bounded mode m i payload []"
proof -
  have "\<exists>a b k l. a \<noteq> b \<and> map ex_addr [] = replicate k a @ replicate l b
      \<and> k \<le> (if mode = Never then 1 else 2) \<and> l \<le> (if mode = Never then 0 else 2 :: nat)"
    by (rule exI [of _ "[]"], rule exI [of _ "''x''"], rule exI [of _ 0], rule exI [of _ 0]) simp
  then show ?thesis by (simp add: ran_bounded_def)
qed

lemma ran_since_self [simp]: "ran_since fl fl = []"
  by (simp add: ran_since_def)

text \<open>
  What the front door relies on of the caller it dispatches through: under its rely condition a call keeps the
  caller's invariant and does to the world no more than its retry mode allows for that request.
\<close>

locale retrying_caller =
  fixes rely :: "'e \<Rightarrow> bool"
    and call :: "'e \<Rightarrow> pool \<Rightarrow> string \<Rightarrow> string option \<Rightarrow> string \<Rightarrow> retry_mode \<Rightarrow> 'w \<Rightarrow> (op_error, string) result \<times> 'w"
    and ok :: "'w \<Rightarrow> bool"
    and allowed :: "retry_mode \<Rightarrow> string \<Rightarrow> string option \<Rightarrow> string \<Rightarrow> 'w \<Rightarrow> 'w \<Rightarrow> bool"
  assumes call_allowed: "rely e \<Longrightarrow> ok w \<Longrightarrow> call e p m i payload mode w = (r, w') \<Longrightarrow> ok w' \<and> allowed mode m i payload w w'"
    and idle_allowed: "allowed mode m i payload w w"
begin

lemma dispatch_allowed:
  assumes d: "dispatch env op i req fs = (r, fs')" and env: "fe_call env = call e" "rely e"
    and ok: "ok (fs_world fs)" and remote: "tb_invokers (fs_table fs) (op_method op) = None"
  shows "ok (fs_world fs') \<and> allowed (op_retry op) (op_method op) (player_id i) req (fs_world fs) (fs_world fs')"
proof -
  obtain c t where rc: "remote_caller (fe_fresh_pool env) (provider_of (op_method op)) (fs_table fs) = (c, t)" by fastforce
  have k: "select_kind (tb_invokers (fs_table fs)) (op_method op) = Remote" using remote by (simp add: select_kind_def)
  show ?thesis
  proof (cases c)
    case (Inl x)
    then show ?thesis using d rc k ok idle_allowed by (auto simp: dispatch_def)
  next
    case (Inr caller)
    obtain x w where f: "call e caller (op_method op) (player_id i) req (op_retry op) (fs_world fs) = (x, w)" by fastforce
    then have "fs_world fs' = w" using d rc k Inr env(1) by (auto simp: dispatch_def invoke_remote_def)
    with call_allowed [OF env(2) ok f] show ?thesis by simp
  qed
qed

lemma dispatched_allowed:
  assumes "dispatched env r api_key token req fs fs'" and env: "fe_call env = call e" "rely e"
    and ok: "ok (fs_world fs)" and remote: "tb_invokers (fs_table fs) = Map.empty"
  shows "ok (fs_world fs') \<and> (\<exists>i. key_admits env api_key (op_method (rt_op r)) fs \<and> session_admits env token (op_auth (rt_op r)) i
    \<and> allowed (op_retry (rt_op r)) (op_method (rt_op r)) (player_id i) req (fs_world fs) (fs_world fs'))"
proof -
  obtain i fs1 where d: "key_admits env api_key (op_method (rt_op r)) fs" "session_admits env token (op_auth (rt_op r)) i"
      "fs_world fs1 = fs_world fs" "fs_table fs1 = fs_table fs" "fs' = snd (dispatch env (rt_op r) i req fs1)"
    using assms(1) unfolding dispatched_def by blast
  obtain x fs2 where "dispatch env (rt_op r) i req fs1 = (x, fs2)" by fastforce
  with dispatch_allowed [OF this env] ok remote d show ?thesis by auto
qed

lemma player_call_allowed:
  assumes "handle_player env m token api_key payload fs = (resp, fs')" and env: "fe_call env = call e" "rely e"
    and ok: "ok (fs_world fs)" and remote: "tb_invokers (fs_table fs) = Map.empty"
  shows "ok (fs_world fs') \<and> (fs_world fs' = fs_world fs \<or> (\<exists>rt i. find_by_method (fs_table fs) m = Some rt
    \<and> key_admits env api_key m fs \<and> session_admits env token (op_auth (rt_op rt)) i
    \<and> allowed (op_retry (rt_op rt)) m (player_id i) payload (fs_world fs) (fs_world fs')))"
proof -
  have "op_method (rt_op rt) = m" if "find_by_method (fs_table fs) m = Some rt" for rt
    using that by (auto simp: find_by_method_def find_Some_iff)
  then show ?thesis using handle_player_dispatched [OF assms(1)] dispatched_allowed [OF _ env ok remote] ok by metis
qed

lemma request_allowed:
  assumes "handle env rq fs = (resp, fs')" and env: "fe_call env = call e" "rely e"
    and ok: "ok (fs_world fs)" and remote: "tb_invokers (fs_table fs) = Map.empty"
  shows "ok (fs_world fs') \<and> (fs_world fs' = fs_world fs \<or> (\<exists>rt args i req. find_route (fs_table fs) (rq_verb rq) (rq_path rq) = Some (rt, args)
    \<and> key_admits env (api_key_header (fe_to_str env) (rq_headers rq)) (op_method (rt_op rt)) fs
    \<and> session_admits env (bearer (fe_to_str env) (rq_headers rq)) (op_auth (rt_op rt)) i
    \<and> allowed (op_retry (rt_op rt)) (op_method (rt_op rt)) (player_id i) req (fs_world fs) (fs_world fs')))"
  using handle_dispatched [OF assms(1)] dispatched_allowed [OF _ env ok remote] ok by metis

end

definition others_ok :: "pool_env \<Rightarrow> bool" where
  "others_ok pe \<longleftrightarrow> (\<forall>ps. pool_ok ps \<longrightarrow> pool_ok (pe_others pe ps))"

interpretation fleet: retrying_caller others_ok "fleet_call ec peers" fleet_ok
  "\<lambda>mode m i payload fl fl'. ran_bounded mode m i payload (ran_since fl fl')"
  by unfold_locales (auto simp: others_ok_def dest: fleet_call_ran)

text \<open>
  C3. No call behind the gateway runs more often than it may, on either plane. Over pools of self-healing
  connections, with any faults of dialling, sending and answering, any probe verdicts, refreshed lists and
  concurrent callers, one player call or HTTP request makes the peers run nothing but one request of the operation it
  was matched to - a player's with its payload unchanged - under the identity the session check admitted: a
  mutation at most once, and an operation that may be retried at most twice on the instance chosen first and
  then at most twice on one other instance. A call that was not admitted runs nothing.
\<close>
theorem calls_run_bounded:
  assumes "fe_call env = fleet_call ec peers pe" "tb_invokers (fs_table fs) = Map.empty" "fleet_ok (fs_world fs)" "others_ok pe"
  shows "(case handle_player env m token api_key payload fs of (resp, fs') \<Rightarrow> fleet_ok (fs_world fs')
      \<and> (ran_since (fs_world fs) (fs_world fs') = [] \<or> (\<exists>rt i. find_by_method (fs_table fs) m = Some rt
           \<and> key_admits env api_key m fs \<and> session_admits env token (op_auth (rt_op rt)) i
           \<and> ran_bounded (op_retry (rt_op rt)) m (player_id i) payload (ran_since (fs_world fs) (fs_world fs')))))
    \<and> (case handle env rq fs of (resp, fs') \<Rightarrow> fleet_ok (fs_world fs')
      \<and> (ran_since (fs_world fs) (fs_world fs') = [] \<or> (\<exists>rt args i req. find_route (fs_table fs) (rq_verb rq) (rq_path rq) = Some (rt, args)
           \<and> key_admits env (api_key_header (fe_to_str env) (rq_headers rq)) (op_method (rt_op rt)) fs
           \<and> session_admits env (bearer (fe_to_str env) (rq_headers rq)) (op_auth (rt_op rt)) i
           \<and> ran_bounded (op_retry (rt_op rt)) (op_method (rt_op rt)) (player_id i) req (ran_since (fs_world fs) (fs_world fs')))))"
proof -
  obtain resp fs' where h: "handle_player env m token api_key payload fs = (resp, fs')" by fastforce
  obtain resp' fs'' where h': "handle env rq fs = (resp', fs'')" by fastforce
  show ?thesis using fleet.player_call_allowed [OF h assms(1,4,3,2)] fleet.request_allowed [OF h' assms(1,4,3,2)]
    unfolding h h' prod.case by (metis ran_since_self)
qed

definition demo_match_server :: "nat server" where
  "demo_match_server = server_new\<lparr>sv_handlers := [''match.report'' \<mapsto> (\<lambda>p w. (H_ok p, w + 1))]\<rparr>"

definition demo_attempt :: attempt where
  "demo_attempt = \<lparr>at_resolve = Ok ''b:2'', at_dial = None,
     at_call = \<lparr>ce_open = None, ce_write = None, ce_finish = None, ce_arrives = True, ce_reply = Some (True, ''reset'')\<rparr>, at_others = Keep\<rparr>"

definition demo_pool_env :: pool_env where
  "demo_pool_env = \<lparr>pe_now = 9, pe_refresh = \<lparr>rf_slot_lost = False, rf_answer = Ok [''b:2'', ''c:3'']\<rparr>,
     pe_first = (demo_attempt, demo_attempt), pe_second = (demo_attempt, demo_attempt), pe_others = (\<lambda>ps. ps)\<rparr>"

definition demo_mutation :: operation where
  "demo_mutation = \<lparr>op_method = ''match.report'', op_verb = ''POST'', op_path = ''/match/report'', op_auth = Auth_none, op_success = 200, op_retry = Never\<rparr>"

definition demo_front_keys :: key_env where
  "demo_front_keys = \<lparr>ke_time = (\<lambda>_. 0), ke_others = (\<lambda>_ kv. kv), ke_lock_hangs = False, ke_answer = Key_failed\<rparr>"

definition demo_front_env :: "nat fleet front_env" where
  "demo_front_env = \<lparr>fe_keys = Dev, fe_key_env = demo_front_keys, fe_verifier = Dev, fe_sessions = (\<lambda>_. Session_failed), fe_is_json = (\<lambda>_. True),
     fe_fresh_pool = 0, fe_call = fleet_call demo_envelope_codec (\<lambda>_. demo_match_server) demo_pool_env, fe_to_str = Some,
     fe_send = (\<lambda>_ _ _ _. None), fe_proxy = []\<rparr>"

definition demo_front_state :: "nat fleet front_state" where
  "demo_front_state = \<lparr>fs_keys = \<lparr>kv_entries = [], kv_seq = 0, kv_locks = [], kv_lock_seq = 0, kv_misses = 0, kv_permits = 0\<rparr>,
     fs_table = \<lparr>tb_routes = [\<lparr>rt_op = demo_mutation, rt_binding = \<lparr>ob_method = ''match.report'', ob_decode = (\<lambda>_ _. Ok []), ob_encode = (\<lambda>_. Ok (None, Status_ok))\<rparr>,
         rt_pattern = [Lit ''match'', Lit ''report'']\<rparr>],
       tb_invokers = Map.empty, tb_peers = [''match'' \<mapsto> [''b:2'', ''c:3'']], tb_remotes = Map.empty, tb_pools = Map.empty\<rparr>,
     fs_world = \<lparr>fl_pools = (\<lambda>_. pool_new), fl_net = \<lparr>nt_world = 0, nt_ran = [], nt_next = 0\<rparr>\<rparr>\<rparr>"

lemmas front_eval = handle_player_def admit_def admit_inner_def check_api_key_def key_lookup_def policy_allows_def verify_bearer_def find_by_method_def
  dispatch_def select_kind_def remote_caller_def cached_remote_def insert_caller_def publish_caller_def provider_of_def invoke_remote_def

lemmas pool_eval = fleet_call_def pool_call_def refresh_def resolve_begin_def resolve_end_def reconcile_pool_def select_def select_excluding_def fetch_add_cursor_def
  instance_new_def reconnecting_new_def health_seed_def is_selectable_def recon_call_def recon_try_def recon_get_def edge_dial_def
  recon_others_def recon_reset_def

lemma demo_call_lost:
  "\<exists>w'. conn_call demo_envelope_codec (\<lambda>_. demo_match_server) c (at_call demo_attempt) ''match.report'' None ''{}'' nt
     = (Err (map_edge_call_failure (Connection ''reset'')),
        nt\<lparr>nt_world := w', nt_ran := nt_ran nt @ [\<lparr>ex_addr = snd c, ex_method = ''match.report'', ex_identity = None, ex_payload = ''{}''\<rparr>]\<rparr>)"
  by (simp add: conn_call_def call_raw_id_def call_runs_def raw_from_bytes_def demo_envelope_codec_def demo_attempt_def frame_bytes_def
      max_frame_def read_call_frame_def lost_or_stream_def split: prod.split) blast

lemma demo_front_runs:
  "nt_ran (fl_net (fs_world (snd (handle_player demo_front_env ''match.report'' None (Some ''k'') ''{}'' demo_front_state)))) \<noteq> []"
proof -
  let ?nt = "\<lparr>nt_world = 0, nt_ran = [], nt_next = Suc 0\<rparr>"
  obtain w' where "conn_call demo_envelope_codec (\<lambda>_. demo_match_server) (0, ''b:2'') (at_call demo_attempt) ''match.report'' None ''{}'' ?nt
     = (Err (map_edge_call_failure (Connection ''reset'')),
        ?nt\<lparr>nt_world := w', nt_ran := [\<lparr>ex_addr = ''b:2'', ex_method = ''match.report'', ex_identity = None, ex_payload = ''{}''\<rparr>]\<rparr>)"
    using demo_call_lost [of "(0, ''b:2'')" ?nt] by auto
  moreover have "at_dial demo_attempt = None" "at_resolve demo_attempt = Ok ''b:2''" "at_others demo_attempt = Keep" by (simp_all add: demo_attempt_def)
  ultimately show ?thesis
    by (simp add: front_eval pool_eval demo_front_env_def demo_front_state_def demo_mutation_def demo_pool_env_def
        pool_new_def identity_none_def player_id_def Let_def map_edge_call_failure_def)
qed

theorem calls_run_bounded_witness:
  "\<exists>resp fs'. handle_player demo_front_env ''match.report'' None (Some ''k'') ''{}'' demo_front_state = (resp, fs')
     \<and> length (ran_since (fs_world demo_front_state) (fs_world fs')) = 1"
proof -
  obtain resp fs' where h: "handle_player demo_front_env ''match.report'' None (Some ''k'') ''{}'' demo_front_state = (resp, fs')" by fastforce
  have c: "fe_call demo_front_env = fleet_call demo_envelope_codec (\<lambda>_. demo_match_server) demo_pool_env"
      "tb_invokers (fs_table demo_front_state) = Map.empty" "fleet_ok (fs_world demo_front_state)" "others_ok demo_pool_env"
    by (simp_all add: demo_front_env_def demo_front_state_def fleet_ok_def pool_ok_def pool_new_def others_ok_def demo_pool_env_def)
  have n: "ran_since (fs_world demo_front_state) (fs_world fs') \<noteq> []" using demo_front_runs h by (simp add: ran_since_def demo_front_state_def)
  obtain rt i ex where r: "find_by_method (fs_table demo_front_state) ''match.report'' = Some rt"
      "ex = ran_since (fs_world demo_front_state) (fs_world fs')" "ran_bounded (op_retry (rt_op rt)) ''match.report'' (player_id i) ''{}'' ex"
    using conjunct1 [OF calls_run_bounded [OF c, where m = "''match.report''" and token = None and api_key = "Some ''k''" and payload = "''{}''"]] n
    unfolding h prod.case by blast
  have "op_retry (rt_op rt) = Never" using r(1) by (auto simp: find_by_method_def demo_front_state_def demo_mutation_def)
  then have "\<exists>a b k l. map ex_addr ex = replicate k a @ replicate l b \<and> k \<le> 1 \<and> l \<le> 0" using r(3) by (auto simp: ran_bounded_def)
  then have "length ex \<le> 1" by (metis add.commute add_0 le_zero_eq length_append length_map length_replicate)
  then have "length ex = 1" using n r(2) by (cases "length ex") simp_all
  with h r(2) show ?thesis by blast
qed

end
