(* ===== verification/Remote_Refresh.thy ===== *)
theory Remote_Refresh
  imports Remote_Runs
begin

text \<open>
  The pool under concurrent refreshes and probes, as a step relation: what the resolver answered last
  decides the instance set, and an instance that stays keeps its connection and health.
\<close>

section \<open>The instance set under concurrent refreshes\<close>

text \<open>A pool with the resolves in flight and the lists that came back, under their generations.\<close>

record pool_run =
  pr_pool :: pool_state
  pr_open :: "nat list"
  pr_arrived :: "(nat \<times> string list) list"

definition probe_instance :: "string \<Rightarrow> (string, unit) result \<Rightarrow> nat \<Rightarrow> pool_state \<Rightarrow> pool_state" where
  "probe_instance addr v now ps = ps\<lparr>ps_instances := map (\<lambda>i. if in_addr i = addr then i\<lparr>in_health := fst (probe_pass v now (in_health i))\<rparr> else i) (ps_instances ps)\<rparr>"

inductive pool_step :: "pool_run \<Rightarrow> pool_run \<Rightarrow> bool" where
  Claimed: "pool_step s (s\<lparr>pr_pool := (pr_pool s)\<lparr>ps_last_refresh := now\<rparr>\<rparr>)"
| Begun: "resolve_begin (pr_pool s) = (g, ps') \<Longrightarrow> pool_step s (s\<lparr>pr_pool := ps', pr_open := g # pr_open s\<rparr>)"
| Listed: "g \<in> set (pr_open s) \<Longrightarrow>
    pool_step s (s\<lparr>pr_pool := resolve_end g (Ok addrs) (pr_pool s), pr_open := remove1 g (pr_open s), pr_arrived := (g, addrs) # pr_arrived s\<rparr>)"
| Unresolved: "g \<in> set (pr_open s) \<Longrightarrow> pool_step s (s\<lparr>pr_pool := resolve_end g (Err e) (pr_pool s), pr_open := remove1 g (pr_open s)\<rparr>)"
| Selected: "select_excluding exclude now (pr_pool s) = (k, ps') \<Longrightarrow> pool_step s (s\<lparr>pr_pool := ps'\<rparr>)"
| Called: "pool_step s (s\<lparr>pr_pool := put_caller inst rc (pr_pool s)\<rparr>)"
| Probed: "pool_step s (s\<lparr>pr_pool := probe_instance addr v now (pr_pool s)\<rparr>)"

definition pool_start :: "pool_run \<Rightarrow> bool" where
  "pool_start s \<longleftrightarrow> s = \<lparr>pr_pool = pool_new, pr_open = [], pr_arrived = []\<rparr>"

text \<open>The set is what the newest answered resolve listed.\<close>

definition follows_newest :: "pool_state \<Rightarrow> (nat \<times> string list) list \<Rightarrow> bool" where
  "follows_newest ps arrived \<longleftrightarrow>
     (if arrived = [] then ps_applied_gen ps = 0 \<and> ps_instances ps = []
      else ps_applied_gen ps = Max (fst ` set arrived)
        \<and> (\<exists>addrs. (ps_applied_gen ps, addrs) \<in> set arrived \<and> map in_addr (ps_instances ps) = wanted [] addrs))"

definition pool_inv :: "pool_run \<Rightarrow> bool" where
  "pool_inv s \<longleftrightarrow> distinct (pr_open s @ map fst (pr_arrived s))
     \<and> (\<forall>g \<in> set (pr_open s @ map fst (pr_arrived s)). 0 < g \<and> g \<le> ps_resolve_seq (pr_pool s))
     \<and> follows_newest (pr_pool s) (pr_arrived s)"

lemma wanted_set: "set (wanted seen addrs) = set addrs - set seen"
  by (induction seen addrs rule: wanted.induct) auto

lemma wanted_distinct: "distinct (wanted seen addrs)"
  by (induction seen addrs rule: wanted.induct) (auto simp: wanted_set)

lemma place_addrs: "map in_addr (place addrs kept) = addrs"
  by (induction addrs kept rule: place.induct) (auto simp: instance_new_def find_Some_iff split: option.split)

lemma place_keeps:
  assumes "i \<in> set kept" "in_addr i \<in> set addrs" "distinct (map in_addr kept)" "distinct addrs"
  shows "i \<in> set (place addrs kept)"
  using assms
proof (induction addrs kept rule: place.induct)
  case (2 addr addrs kept)
  show ?case
  proof (cases "find (\<lambda>i. in_addr i = addr) kept")
    case None
    then have "in_addr i \<noteq> addr" using 2(3) by (auto simp: find_None_iff)
    then show ?thesis using 2 None by auto
  next
    case (Some j)
    then have j: "j \<in> set kept" "in_addr j = addr" by (auto simp: find_Some_iff)
    show ?thesis
    proof (cases "in_addr i = addr")
      case True
      then have "i = j" using 2(3,5) j by (auto simp: distinct_map inj_on_def)
      then show ?thesis using Some by simp
    next
      case False
      then have "i \<noteq> j" using j by auto
      then have "i \<in> set (remove1 j kept)" using 2(3) by simp
      moreover have "distinct (map in_addr (remove1 j kept))" using 2(5) by (auto simp: distinct_map intro: inj_on_subset dest: set_remove1_subset [THEN subsetD])
      ultimately show ?thesis using Some 2(2) [OF Some] 2(4,6) False by auto
    qed
  qed
qed simp

lemma reconcile_addrs: "map in_addr (fst (reconcile_pool current addrs)) = wanted [] addrs"
  by (simp add: reconcile_pool_def Let_def place_addrs)

lemma reconcile_keeps:
  assumes "i \<in> set current" "in_addr i \<in> set addrs" "distinct (map in_addr current)"
  shows "i \<in> set (fst (reconcile_pool current addrs))"
  unfolding reconcile_pool_def Let_def fst_conv
  by (rule place_keeps) (use assms in \<open>auto simp: wanted_set wanted_distinct distinct_map inj_on_def\<close>)

lemma follows_frame:
  assumes "ps_applied_gen ps' = ps_applied_gen ps" "map in_addr (ps_instances ps') = map in_addr (ps_instances ps)"
  shows "follows_newest ps' arrived \<longleftrightarrow> follows_newest ps arrived"
  using assms by (auto simp: follows_newest_def)

lemma follows_listed:
  assumes f: "follows_newest ps arrived" and g: "0 < g" "g \<notin> fst ` set arrived"
  shows "follows_newest (resolve_end g (Ok addrs) ps) ((g, addrs) # arrived)"
proof (cases "arrived = []")
  case True
  then show ?thesis using f g by (simp add: follows_newest_def resolve_end_def reconcile_addrs)
next
  case False
  then have m: "ps_applied_gen ps = Max (fst ` set arrived)" "\<exists>as. (ps_applied_gen ps, as) \<in> set arrived \<and> map in_addr (ps_instances ps) = wanted [] as"
    using f by (auto simp: follows_newest_def)
  have x: "Max (fst ` set ((g, addrs) # arrived)) = max g (ps_applied_gen ps)" using False m(1) by (simp add: Max_insert)
  show ?thesis
  proof (cases "g \<le> ps_applied_gen ps")
    case True
    then show ?thesis using m x by (auto simp: follows_newest_def resolve_end_def max_def)
  next
    case nle: False
    then show ?thesis using x by (auto simp: follows_newest_def resolve_end_def reconcile_addrs max_def)
  qed
qed

lemma pool_step_inv: "pool_step s s' \<Longrightarrow> pool_inv s \<Longrightarrow> pool_inv s'"
proof (induction rule: pool_step.induct)
  case (Claimed s now)
  then show ?case using follows_frame [of "(pr_pool s)\<lparr>ps_last_refresh := now\<rparr>" "pr_pool s"] by (simp add: pool_inv_def)
next
  case (Begun s g ps')
  then have g: "g = Suc (ps_resolve_seq (pr_pool s))" "ps' = (pr_pool s)\<lparr>ps_resolve_seq := g\<rparr>" by (auto simp: resolve_begin_def)
  have le: "0 < x \<and> x \<le> ps_resolve_seq (pr_pool s)" if "x \<in> set (pr_open s @ map fst (pr_arrived s))" for x
    using Begun.prems that unfolding pool_inv_def by blast
  have "g \<notin> set (pr_open s @ map fst (pr_arrived s))" using le [of g] g(1) by auto
  moreover have "0 < x \<and> x \<le> g" if "x \<in> set (pr_open s @ map fst (pr_arrived s))" for x using le [OF that] g(1) by simp
  moreover have "follows_newest ps' (pr_arrived s)" using Begun.prems follows_frame [of ps' "pr_pool s"] g(2) by (simp add: pool_inv_def)
  ultimately show ?case using Begun.prems g by (auto simp: pool_inv_def)
next
  case (Listed g s addrs)
  have "g \<notin> fst ` set (pr_arrived s)" "0 < g" using Listed by (auto simp: pool_inv_def)
  then have "follows_newest (resolve_end g (Ok addrs) (pr_pool s)) ((g, addrs) # pr_arrived s)"
    using follows_listed Listed.prems by (simp add: pool_inv_def)
  moreover have "ps_resolve_seq (resolve_end g (Ok addrs) (pr_pool s)) = ps_resolve_seq (pr_pool s)" by (simp add: resolve_end_def)
  ultimately show ?case using Listed by (auto simp: pool_inv_def dest: set_remove1_subset [THEN subsetD])
next
  case (Unresolved g s e)
  then show ?case by (auto simp: pool_inv_def resolve_end_def dest: set_remove1_subset [THEN subsetD])
next
  case (Selected exclude now s k ps')
  then have "ps_instances ps' = ps_instances (pr_pool s)" "ps_applied_gen ps' = ps_applied_gen (pr_pool s)" "ps_resolve_seq ps' = ps_resolve_seq (pr_pool s)"
    by (auto simp: select_excluding_def fetch_add_cursor_def Let_def split: if_splits)
  then show ?case using follows_frame [of ps' "pr_pool s"] Selected.prems by (simp add: pool_inv_def)
next
  case (Called s inst rc)
  then show ?case using follows_frame [of "put_caller inst rc (pr_pool s)" "pr_pool s"] by (simp add: pool_inv_def put_caller_def comp_def if_distrib cong: if_cong)
next
  case (Probed s addr v now)
  then show ?case using follows_frame [of "probe_instance addr v now (pr_pool s)" "pr_pool s"]
    by (simp add: pool_inv_def probe_instance_def comp_def if_distrib cong: if_cong)
qed

lemma select_finds:
  assumes "select_excluding exclude now ps = (r, ps')"
  shows "case r of
      Some k \<Rightarrow> k < length (ps_instances ps) \<and> is_selectable now (in_health (ps_instances ps ! k)) \<and> exclude \<noteq> Some (in_addr (ps_instances ps ! k))
    | None \<Rightarrow> (\<forall>i \<in> set (ps_instances ps). is_selectable now (in_health i) \<longrightarrow> exclude = Some (in_addr i))"
proof (cases "ps_instances ps = []")
  case True
  then show ?thesis using assms by (auto simp: select_excluding_def)
next
  case False
  let ?n = "length (ps_instances ps)" and ?P = "\<lambda>i. exclude \<noteq> Some (in_addr (ps_instances ps ! i)) \<and> is_selectable now (in_health (ps_instances ps ! i))"
  obtain c where r: "r = find ?P (map (\<lambda>off. (c mod ?n + off) mod ?n) [0..<?n])"
    using assms False by (auto simp: select_excluding_def fetch_add_cursor_def Let_def)
  show ?thesis
  proof (cases r)
    case (Some k)
    then have "find ?P (map (\<lambda>off. (c mod ?n + off) mod ?n) [0..<?n]) = Some k" using r by simp
    then have "?P k" "k < ?n" using False by (auto simp: find_Some_iff)
    then show ?thesis using Some by simp
  next
    case None
    have "\<exists>off < ?n. (c mod ?n + off) mod ?n = j" if "j < ?n" for j
    proof (rule exI [of _ "(j + (?n - c mod ?n)) mod ?n"], intro conjI)
      have "0 < ?n" using that by linarith
      then have "c mod ?n < ?n" by (rule mod_less_divisor)
      then have "c mod ?n + (j + (?n - c mod ?n)) = j + ?n" by simp
      then show "(c mod ?n + (j + (?n - c mod ?n)) mod ?n) mod ?n = j" using that by (simp add: mod_add_right_eq)
    qed (rule mod_less_divisor, use that in linarith)
    then have j: "j \<in> set (map (\<lambda>off. (c mod ?n + off) mod ?n) [0..<?n])" if "j < ?n" for j using that by force
    have "\<not> (\<exists>x. x \<in> set (map (\<lambda>off. (c mod ?n + off) mod ?n) [0..<?n]) \<and> ?P x)"
      by (rule iffD1 [OF find_None_iff [of ?P]]) (use None r in simp)
    then have "\<forall>j < ?n. \<not> ?P j" using j by blast
    then show ?thesis using None by (auto simp: in_set_conv_nth)
  qed
qed

lemma pool_start_inv: "pool_start s \<Longrightarrow> pool_inv s"
  by (simp add: pool_start_def pool_inv_def follows_newest_def pool_new_def)

interpretation pool_sys: invariant_system pool_start pool_step pool_inv
  by unfold_locales (rule pool_start_inv, assumption, rule pool_step_inv)

text \<open>
  C10. A pool follows the newest list. Under any interleaving of refreshes that overlap and overtake one another,
  of calls and of probes, the pool's instances are the addresses of the newest resolve that has been answered,
  each once and in the resolver's order - an older list that arrives late changes nothing, and a failed resolve
  leaves the set alone; an instance whose address is listed again is kept with its connection and its health. A
  selection answers an instance that may be used and is not the excluded one, and fails only if there is none.
\<close>
theorem pool_follows_newest_list:
  assumes "pool_start s0" "pool_step\<^sup>*\<^sup>* s0 s"
  shows "follows_newest (pr_pool s) (pr_arrived s) \<and> distinct (map in_addr (ps_instances (pr_pool s)))
    \<and> (\<forall>i \<in> set (ps_instances (pr_pool s)). \<forall>addrs. in_addr i \<in> set addrs \<longrightarrow> i \<in> set (fst (reconcile_pool (ps_instances (pr_pool s)) addrs)))
    \<and> (case fst (select_excluding exclude now (pr_pool s)) of
         Some k \<Rightarrow> k < length (ps_instances (pr_pool s)) \<and> is_selectable now (in_health (ps_instances (pr_pool s) ! k))
           \<and> exclude \<noteq> Some (in_addr (ps_instances (pr_pool s) ! k))
       | None \<Rightarrow> (\<forall>i \<in> set (ps_instances (pr_pool s)). is_selectable now (in_health i) \<longrightarrow> exclude = Some (in_addr i)))"
proof -
  have f: "follows_newest (pr_pool s) (pr_arrived s)" using pool_sys.reachable_inv [OF assms] by (simp add: pool_inv_def)
  then have d: "distinct (map in_addr (ps_instances (pr_pool s)))" by (auto simp: follows_newest_def wanted_distinct split: if_splits)
  obtain r ps' where "select_excluding exclude now (pr_pool s) = (r, ps')" by fastforce
  with select_finds [OF this] f d reconcile_keeps [OF _ _ d] show ?thesis by simp
qed

definition demo_pool_steps :: "pool_run list" where
  "demo_pool_steps =
     (let s0 = \<lparr>pr_pool = pool_new, pr_open = [], pr_arrived = []\<rparr>;
          s1 = s0\<lparr>pr_pool := snd (resolve_begin (pr_pool s0)), pr_open := [1]\<rparr>;
          s2 = s1\<lparr>pr_pool := snd (resolve_begin (pr_pool s1)), pr_open := [2, 1]\<rparr>;
          s3 = s2\<lparr>pr_pool := resolve_end 2 (Ok [''b'', ''c'', ''b'']) (pr_pool s2), pr_open := [1], pr_arrived := [(2, [''b'', ''c'', ''b''])]\<rparr>;
          s4 = s3\<lparr>pr_pool := resolve_end 1 (Ok [''a'']) (pr_pool s3), pr_open := [], pr_arrived := [(1, [''a'']), (2, [''b'', ''c'', ''b''])]\<rparr>
      in [s0, s1, s2, s3, s4])"

lemma demo_pool_run: "pool_start (demo_pool_steps ! 0) \<and> pool_step\<^sup>*\<^sup>* (demo_pool_steps ! 0) (demo_pool_steps ! 4)"
proof -
  have "pool_step (demo_pool_steps ! 0) (demo_pool_steps ! 1)" "pool_step (demo_pool_steps ! 1) (demo_pool_steps ! 2)"
    using Begun [of "demo_pool_steps ! 0" 1] Begun [of "demo_pool_steps ! 1" 2]
    by (simp_all add: demo_pool_steps_def Let_def resolve_begin_def pool_new_def)
  moreover have "pool_step (demo_pool_steps ! 2) (demo_pool_steps ! 3)" "pool_step (demo_pool_steps ! 3) (demo_pool_steps ! 4)"
    using Listed [of 2 "demo_pool_steps ! 2" "[''b'', ''c'', ''b'']"] Listed [of 1 "demo_pool_steps ! 3" "[''a'']"]
    by (simp_all add: demo_pool_steps_def Let_def)
  ultimately have "pool_step\<^sup>*\<^sup>* (demo_pool_steps ! 0) (demo_pool_steps ! 4)"
    by (intro converse_rtranclp_into_rtranclp [of pool_step "demo_pool_steps ! 0" "demo_pool_steps ! 1"]
        converse_rtranclp_into_rtranclp [of pool_step "demo_pool_steps ! 1" "demo_pool_steps ! 2"]
        converse_rtranclp_into_rtranclp [of pool_step "demo_pool_steps ! 2" "demo_pool_steps ! 3"] r_into_rtranclp)
  then show ?thesis by (simp add: pool_start_def demo_pool_steps_def Let_def)
qed

theorem pool_follows_newest_list_witness:
  "\<exists>s0 s. pool_step\<^sup>*\<^sup>* s0 s \<and> map fst (pr_arrived s) = [1, 2] \<and> ps_applied_gen (pr_pool s) = 2
     \<and> map in_addr (ps_instances (pr_pool s)) = [''b'', ''c'']"
proof -
  let ?s = "demo_pool_steps ! 4"
  have a: "pr_arrived ?s = [(1, [''a'']), (2, [''b'', ''c'', ''b''])]" by (simp add: demo_pool_steps_def Let_def)
  then have "ps_applied_gen (pr_pool ?s) = 2 \<and> map in_addr (ps_instances (pr_pool ?s)) = [''b'', ''c'']"
    using pool_follows_newest_list [OF conjunct1 [OF demo_pool_run] conjunct2 [OF demo_pool_run], where exclude = None and now = 0]
    by (auto simp: follows_newest_def max_def)
  then show ?thesis using a demo_pool_run by (intro exI [of _ "demo_pool_steps ! 0"] exI [of _ ?s]) simp
qed

end
