(* ===== verification/Spec2Isabelle.thy ===== *)
theory Spec2Isabelle
  imports Event_Plane Wallet_Run Party_Rules Match_Standings Gateway_Admission App_Teardown Remote_Runs Remote_Refresh
begin

text \<open>
  Swarog is a game backend in Rust: domain modules (accounts, wallet, party, ...) that run together in one
  process or apart in many, behind a gateway, over Postgres. This development models the parts every module
  stands on - the wiring and lifecycle of a process, the durable event plane, the internal edge and the remote
  callers on it, the gateway - and domain modules in full depth: the wallet, the party, and matches with the ratings and
  the leaderboard that follow them.

  \<^bold>\<open>How the parts interact.\<close> A process is a list of modules given to \<open>run\<close>. Modules find one another through the
  registry and the slots of their context, migrate their schemas under a lock, start, serve and are torn down.
  A module commits its tables together with the events it appends to the shared log; the plane's workers deliver
  an event to each subscription inside a transaction on the consumer's tables. A request enters at the gateway,
  is admitted by api key and session, matched to an operation and dispatched to an invoker in the process or
  through a pool of connections to the instances of another one, whose edge server runs the method's handler.

  \<^bold>\<open>Theories and sources\<close> (paths under \<open>src/\<close>).

  \<^item> \<open>Swarog_Prelude\<close>: SQL tables as lists of rows, integer texts, the locale \<open>invariant_system\<close>.
  \<^item> \<open>Core_Wiring\<close>: \<open>core/registry\<close>, \<open>core/contrib\<close>, the context of \<open>core/lifecycle\<close>. Boxed values carry their
    type; a panic under a lock poisons it. Whatever modules call, what they read has the type and the value it
    was stored with.
  \<^item> \<open>App_Run\<close>, \<open>App_Teardown\<close>: \<open>core/lifecycle/src/app.rs\<close> and \<open>run\<close> of \<open>core/app/src/lib.rs\<close>. The state is the
    context, the listeners and flags of \<open>run\<close>, and a trace of every hook called; a hook may fail or panic. A run that
    returns has undone what it did, in order.
  \<^item> \<open>Event_Store\<close>, \<open>Event_Worker\<close>, \<open>Event_Retention\<close>, \<open>Event_Control\<close>, \<open>Event_Plane\<close>: \<open>core/asyncevents\<close> and
    \<open>tools/eventctl\<close>. One function per transaction, with the faults and the commits of other sessions as its
    environment; \<open>Event_Plane\<close> composes them into a step relation over interleaved transactions. Delivery is exactly
    once and in order, retention deletes nothing undelivered, a poison event pauses its subscription after the
    threshold, a drain is bounded, verbs change what they say.
  \<^item> \<open>Opsapi\<close>: statuses, errors and identities of \<open>core/opsapi\<close>.
  \<^item> \<open>Wallet_Store\<close>, \<open>Wallet_Service\<close>, \<open>Wallet_Projection\<close>, \<open>Wallet_Run\<close>: \<open>modules/wallet\<close>. The movement authority
    refines an abstract ledger, balances are the sums of the ledger and stay in range, a replay is answered without
    effect, each movement emits one event, the durable handlers are consumers of the event plane.
  \<^item> \<open>Party_Store\<close>, \<open>Party_Service\<close>, \<open>Party_Run\<close>, \<open>Party_Rules\<close>: \<open>modules/party\<close>. The tables stay well formed under every
    interleaving, revisions order the views of a party, and each operation does what its rules say on every branch.
  \<^item> \<open>Match_Report\<close>, \<open>Match_Flow\<close>, \<open>Match_Standings\<close>: \<open>modules/match\<close>, \<open>modules/rating\<close> and \<open>modules/leaderboard\<close> on top of
    \<open>Event_Plane\<close>. From the report of a match through its transaction, the log and the delivery to both projections: the
    standings are those of the matches, and a retried report takes effect once.
  \<^item> \<open>Edge_Wire\<close>, \<open>Edge_Call\<close>: \<open>core/edge\<close> (\<open>frame.rs\<close>, \<open>wire.rs\<close>, \<open>server.rs\<close>, \<open>client.rs\<close>). Frames round-trip and a call
    over a transport that delivers is a call of the handler.
  \<^item> \<open>Gateway_Routes\<close>, \<open>Gateway_Table\<close>, \<open>Gateway_Front\<close>, \<open>Gateway_Admission\<close>: \<open>modules/gateway\<close> with the patterns of
    \<open>core/opsapi\<close>. Tables are unambiguous, nothing reaches a provider unadmitted, key verdicts are recent, the
    reverse proxy forwards no connection-scoped header.
  \<^item> \<open>Remote_Pool\<close>, \<open>Remote_Runs\<close>, \<open>Remote_Refresh\<close>: \<open>core/remote\<close>. How often a request can run, through the gateway and all
    retries, and which instances a pool holds under concurrent refreshes.

  \<^bold>\<open>Interfaces.\<close> \<open>invariant_system\<close> (a step relation and its invariant) is interpreted by the event plane, the wallet,
  the party and the pool; \<open>durable_consumer\<close> (what the plane needs of a handler) by the four handlers of the wallet;
  \<open>retrying_caller\<close> (what the gateway needs of the caller it dispatches through) by the fleet of pools.

  \<^bold>\<open>Conventions.\<close> \<open>Err\<close> and \<open>Ok\<close> are the two sides of a sum. A transaction that fails leaves its database as it was.
  Strings are byte strings. Integers that can overflow in the sources carry their bounds or wrap explicitly; times are
  natural or integral numbers of the unit the source uses. Postgres, \<open>serde_json\<close>, the transports and the clock are
  arguments; what a theorem needs of them is a hypothesis of it, and its witness gives an instance.

  \<^bold>\<open>Bounds and fuel.\<close> The batch loop of retention, the drain of a worker and the attempts at a party's lock recurse on
  the bounds the sources give them; the loops over bytes and frames recurse on what is left of their input and are
  proved to end. No definition runs on fuel of its own.

  \<^bold>\<open>Not modelled.\<close> Axum, QUIC, TLS and the task spawning around the modelled loops are input and output. The wakeups of
  the event plane only shorten a wait. The HTTP stack above the router is one step of a run. The remaining domain modules
  repeat the pattern of those that are modelled; they appear as modules with arbitrary hooks. The macros generate
  glue from syntax trees, and the tools under \<open>tools/\<close> other than \<open>eventctl\<close> check the repository or drive processes.
\<close>

end
